(* ===== verification/Prelude.thy ===== *)
theory Prelude
  imports Main "HOL-Library.Word" "HOL-Library.AList"
begin

text \<open>
  Shared vocabulary of the development: the machine types of the C++ code on the 64-bit
  targets it is built for, the faults that stand for an aborted or undefined execution, the
  outcome type with its sequencing operator, C's character classes and decimal conversions,
  and the word lemmas the components share.
\<close>

unbundle bit_operations_syntax

named_theorems um_simps \<open>what the lookups of a hash map return after each operation\<close>
named_theorems word_nat \<open>reading machine words as natural numbers\<close>

section \<open>Machine types\<close>

type_synonym uint32 = "32 word"
type_synonym uint64 = "64 word"
type_synonym ptr = "64 word"

abbreviation (input) nullptr :: ptr where
  "nullptr \<equiv> 0"

abbreviation to_uint32 :: "64 word \<Rightarrow> 32 word" where
  "to_uint32 \<equiv> ucast"

abbreviation to_uint64 :: "32 word \<Rightarrow> 64 word" where
  "to_uint64 \<equiv> ucast"

section \<open>Outcomes\<close>

text \<open>
  A fault is a way the C++ execution does not return: a failed assertion, a call of abort or
  exit, an access through a null pointer or outside a block, a reference to an object that
  does not exist, or a standard-library call whose precondition does not hold.
\<close>

datatype fault = AssertionFailed | Aborted | Exited | NullAccess | OutOfBounds
  | DanglingReference | UndefinedCall | Uninitialized

type_synonym 'a outcome = "fault + 'a"

fun andThen :: "'e + 'a \<Rightarrow> ('a \<Rightarrow> 'e + 'b) \<Rightarrow> 'e + 'b" where
  "andThen (Inl e) f = Inl e"
| "andThen (Inr x) f = f x"

lemma andThen_Inr_iff: "andThen r f = Inr y \<longleftrightarrow> (\<exists>x. r = Inr x \<and> f x = Inr y)"
  by (cases r) auto

lemma andThen_Inl_iff:
  "andThen r f = Inl e \<longleftrightarrow> r = Inl e \<or> (\<exists>x. r = Inr x \<and> f x = Inl e)"
  by (cases r) auto

lemma option_eqI: "(\<And>y. x = Some y \<longleftrightarrow> z = Some y) \<Longrightarrow> x = z"
  by (cases x; cases z) auto

lemma andThen_Inr [simp]: "andThen r Inr = r"
  by (cases r) simp_all

lemma andThen_assoc: "andThen (andThen r f) g = andThen r (\<lambda>x. andThen (f x) g)"
  by (cases r) auto

definition check :: "bool \<Rightarrow> fault \<Rightarrow> unit outcome" where
  "check b e = (if b then Inr () else Inl e)"

lemma check_simps [simp]:
  "check b e = Inr u \<longleftrightarrow> b"
  "check b e = Inl e' \<longleftrightarrow> \<not> b \<and> e' = e"
  "check True e = Inr ()"
  "check False e = Inl e"
  by (auto simp: check_def)

section \<open>Characters and decimal numbers of the C library\<close>

definition isspace :: "char \<Rightarrow> bool" where
  "isspace c = (c = CHR '' '' \<or> 9 \<le> (of_char c :: nat) \<and> (of_char c :: nat) \<le> 13)"

definition isdigit :: "char \<Rightarrow> bool" where
  "isdigit c = (48 \<le> (of_char c :: nat) \<and> (of_char c :: nat) \<le> 57)"

definition digit_of :: "char \<Rightarrow> nat" where
  "digit_of c = of_char c - 48"

definition char_of_digit :: "nat \<Rightarrow> char" where
  "char_of_digit d = char_of (48 + d)"

fun read_digits :: "nat \<Rightarrow> string \<Rightarrow> nat" where
  "read_digits acc [] = acc"
| "read_digits acc (c # cs) =
     (if isdigit c then read_digits (10 * acc + digit_of c) cs else acc)"

fun show_nat :: "nat \<Rightarrow> string" where
  "show_nat n = (if n < 10 then [char_of_digit n]
     else show_nat (n div 10) @ [char_of_digit (n mod 10)])"

declare show_nat.simps [simp del]

definition char_of_hex_digit :: "nat \<Rightarrow> char" where
  "char_of_hex_digit d = char_of (if d < 10 then 48 + d else 87 + d)"

fun show_hex :: "nat \<Rightarrow> string" where
  "show_hex n = (if n < 16 then [char_of_hex_digit n]
     else show_hex (n div 16) @ [char_of_hex_digit (n mod 16)])"

declare show_hex.simps [simp del]

lemma digit_char:
  assumes "d < 10"
  shows "isdigit (char_of_digit d)" "digit_of (char_of_digit d) = d"
    "\<not> isspace (char_of_digit d)" "char_of_digit d \<noteq> CHR ''-''" "char_of_digit d \<noteq> CHR ''+''"
proof -
  have code: "(of_char (char_of_digit d) :: nat) = 48 + d"
    using assms by (simp add: char_of_digit_def)
  then show "isdigit (char_of_digit d)" "digit_of (char_of_digit d) = d"
    "\<not> isspace (char_of_digit d)"
    using assms by (auto simp: isdigit_def digit_of_def isspace_def)
  show "char_of_digit d \<noteq> CHR ''-''" "char_of_digit d \<noteq> CHR ''+''"
    using code by auto
qed

lemma read_digits_append:
  "\<forall>c \<in> set xs. isdigit c \<Longrightarrow> read_digits acc (xs @ ys) = read_digits (read_digits acc xs) ys"
  by (induction acc xs rule: read_digits.induct) auto

lemma show_nat_digits: "\<forall>c \<in> set (show_nat n). isdigit c"
proof (induction n rule: show_nat.induct)
  case (1 n)
  then show ?case
    by (subst show_nat.simps) (auto simp: digit_char)
qed

lemma read_show_nat: "read_digits 0 (show_nat n) = n"
proof (induction n rule: show_nat.induct)
  case (1 n)
  show ?case
  proof (cases "n < 10")
    case True
    then show ?thesis by (subst show_nat.simps) (simp add: digit_char)
  next
    case False
    then have "read_digits 0 (show_nat n) =
        read_digits (read_digits 0 (show_nat (n div 10))) [char_of_digit (n mod 10)]"
      by (subst show_nat.simps) (simp add: read_digits_append show_nat_digits)
    with False 1 show ?thesis by (simp add: digit_char)
  qed
qed

lemma show_nat_Cons: obtains c cs where "show_nat n = c # cs" "isdigit c" "\<not> isspace c"
  "c \<noteq> CHR ''-''" "c \<noteq> CHR ''+''"
proof -
  have "show_nat n \<noteq> []" by (subst show_nat.simps) simp
  then obtain c cs where eq: "show_nat n = c # cs" by (cases "show_nat n") auto
  with show_nat_digits [of n] have "isdigit c" by simp
  then have "\<not> isspace c" "c \<noteq> CHR ''-''" "c \<noteq> CHR ''+''"
    by (auto simp: isdigit_def isspace_def)
  with eq \<open>isdigit c\<close> that show ?thesis by blast
qed

section \<open>Words\<close>

lemma unat_and_not_mask:
  "unat (x AND NOT (mask k) :: 'a::len word) = unat x div 2 ^ k * 2 ^ k"
proof -
  have "x AND NOT (mask k) = push_bit k (drop_bit k x)"
    by (rule bit_word_eqI) (auto simp: bit_simps)
  moreover have "push_bit k (drop_bit k x) = x - take_bit k x"
    by (metis add_diff_cancel_right' bits_ident)
  moreover have low: "unat (take_bit k x) = unat x mod 2 ^ k"
    by (simp add: unsigned_take_bit_eq flip: take_bit_eq_mod)
  moreover have "unat (x - take_bit k x) = unat x - unat (take_bit k x)"
    by (rule unat_sub) (simp add: word_le_nat_alt low)
  ultimately show ?thesis
    by (simp add: minus_mod_eq_div_mult)
qed

lemma unat_add_no_wrap [word_nat]:
  "unat x + unat y < 2 ^ LENGTH('a) \<Longrightarrow> unat (x + y :: 'a::len word) = unat x + unat y"
  by (simp add: unat_word_ariths)

lemma unat_Suc_no_wrap [word_nat]:
  "unat x + 1 < 2 ^ LENGTH('a) \<Longrightarrow> unat (x + 1 :: 'a::len word) = unat x + 1"
  by (simp add: unat_word_ariths)

lemma unat_pred [word_nat]: "0 < unat x \<Longrightarrow> unat (x - 1 :: 'a::len word) = unat x - 1"
  by (metis One_nat_def Suc_leI unat_1 unat_sub word_le_nat_alt)

lemma unat_exp:
  assumes "k < LENGTH('a)"
  shows "unat (2 ^ k :: 'a::len word) = 2 ^ k"
proof -
  have "(2::nat) ^ k < 2 ^ LENGTH('a)"
    using assms by (rule power_strict_increasing) simp
  moreover have "unat (of_nat (2 ^ k) :: 'a word) = take_bit LENGTH('a) (2 ^ k)"
    by (simp only: unsigned_of_nat of_nat_id)
  ultimately have "unat (of_nat (2 ^ k) :: 'a word) = 2 ^ k"
    by (simp only: take_bit_nat_eq_self)
  then show ?thesis by (simp only: of_nat_power of_nat_numeral)
qed

lemma unat_lt_32: "unat (x :: 32 word) < 4294967296"
  using unsigned_less [of x, where ?'a = nat] by simp

lemma unat_lt_64: "unat (x :: 64 word) < 18446744073709551616"
  using unsigned_less [of x, where ?'a = nat] by simp

lemma unat_to_uint64 [simp]: "unat (to_uint64 x) = unat x"
  by (simp add: unsigned_ucast_eq take_bit_nat_eq_self unat_lt_32 less_le_trans [OF unat_lt_32])

lemma to_uint64_eq_iff [simp]: "to_uint64 x = to_uint64 y \<longleftrightarrow> x = y"
  by (metis unat_to_uint64 word_unat_eq_iff)

lemma unat_to_uint32: "unat (to_uint32 x) = unat x mod 4294967296"
  by (simp add: unsigned_ucast_eq take_bit_eq_mod)

end
