(* ===== verification/Environment.thy ===== *)
theory Environment
  imports Prelude
begin

text \<open>
  The configuration object of \<^verbatim>\<open>common/environment.h\<close> and \<^verbatim>\<open>common/environment.cpp\<close>:
  its fields, how each is read from the process environment, and the page rounding used for
  closely watched allocations. The process environment (getenv) is a map from names to
  strings, the page size (sysconf) and the machine name (uname) are arguments.
\<close>

record Environment =
  timeForAllocationToBecomeSuspicious :: uint32
  closelyWatchedAllocationsAccessMaxInterval :: uint32
  closelyWatchedAllocationsRestTime :: uint32
  enoughSamplesToProveNoLeak :: uint32
  globalMaxLiveCloselyWatchedAllocations :: uint32
  maxLiveCloselyWatchedAllocationsPerTrace :: uint32
  leakReportInterval :: uint32
  pageSize :: uint32
  autoStartTime :: uint32
  archName :: string

section \<open>Reading integers\<close>

text \<open>
  The C library's atoi on a target with 64-bit long: strtol in base 10 (white space, an
  optional sign, digits, saturating at the bounds of long), then truncated to int.
\<close>

definition clamp_long :: "int \<Rightarrow> int" where
  "clamp_long i = max (- (2 ^ 63)) (min (2 ^ 63 - 1) i)"

definition strtol10 :: "string \<Rightarrow> int" where
  "strtol10 s = clamp_long
     (case dropWhile isspace s of
        [] \<Rightarrow> 0
      | c # cs \<Rightarrow>
          if c = CHR ''-'' then - int (read_digits 0 cs)
          else if c = CHR ''+'' then int (read_digits 0 cs)
          else int (read_digits 0 (c # cs)))"

definition atoi :: "string \<Rightarrow> int" where
  "atoi s = signed_take_bit 31 (strtol10 s)"

definition parseEnvironIntGreaterThanZero ::
  "(string \<rightharpoonup> string) \<Rightarrow> string \<Rightarrow> int \<Rightarrow> uint32" where
  "parseEnvironIntGreaterThanZero getenv name defaultValue =
     (case getenv name of
        None \<Rightarrow> word_of_int defaultValue
      | Some envString \<Rightarrow>
          (let envInteger = atoi envString
           in if 0 < envInteger then word_of_int envInteger else word_of_int defaultValue))"

definition makeEnvironment ::
  "(string \<rightharpoonup> string) \<Rightarrow> int \<Rightarrow> string option \<Rightarrow> Environment outcome" where
  "makeEnvironment getenv sysconfPageSize utsname =
     (case utsname of
        None \<Rightarrow> Inl Exited
      | Some machine \<Rightarrow> Inr \<lparr>
          timeForAllocationToBecomeSuspicious =
            parseEnvironIntGreaterThanZero getenv ''ALLOC_TIME_SUSPICIOUS'' 30,
          closelyWatchedAllocationsAccessMaxInterval =
            parseEnvironIntGreaterThanZero getenv ''ALLOC_MAX_ACCESS_INTERVAL'' 1,
          closelyWatchedAllocationsRestTime =
            parseEnvironIntGreaterThanZero getenv ''ALLOC_REST_TIME'' 10,
          enoughSamplesToProveNoLeak =
            parseEnvironIntGreaterThanZero getenv ''ALLOC_ENOUGH_SAMPLES_TO_PROVE_NO_LEAK'' 5,
          globalMaxLiveCloselyWatchedAllocations =
            parseEnvironIntGreaterThanZero getenv ''ALLOC_GLOBAL_MAX_CLOSELY_WATCHED'' 50000,
          maxLiveCloselyWatchedAllocationsPerTrace =
            parseEnvironIntGreaterThanZero getenv ''ALLOC_MAX_CLOSELY_WATCHED'' 30,
          leakReportInterval =
            parseEnvironIntGreaterThanZero getenv ''ALLOC_LEAK_REPORT_INTERVAL'' 30,
          pageSize = word_of_int sysconfPageSize,
          autoStartTime =
            parseEnvironIntGreaterThanZero getenv ''ALLOC_AUTO_START_TIME'' 0,
          archName = machine \<rparr>)"

definition roundUpToPageMultiple :: "Environment \<Rightarrow> uint32 \<Rightarrow> uint32" where
  "roundUpToPageMultiple env n = (n + (pageSize env - 1)) AND NOT (pageSize env - 1)"

section \<open>The value read from a variable\<close>

lemma atoi_range: "- (2 ^ 31) \<le> atoi s" "atoi s < 2 ^ 31"
proof -
  show "- (2 ^ 31) \<le> atoi s"
    using signed_take_bit_int_greater_eq_minus_exp [of 31 "strtol10 s"] by (simp add: atoi_def)
  show "atoi s < 2 ^ 31"
    using signed_take_bit_int_less_exp [of 31 "strtol10 s"] by (simp add: atoi_def)
qed

lemma strtol10_show_nat:
  assumes "n < 2 ^ 63"
  shows "strtol10 (show_nat n) = int n"
proof -
  obtain c cs where eq: "show_nat n = c # cs"
    and c: "isdigit c" "\<not> isspace c" "c \<noteq> CHR ''-''" "c \<noteq> CHR ''+''"
    by (rule show_nat_Cons)
  have "strtol10 (show_nat n) = clamp_long (int (read_digits 0 (show_nat n)))"
    using eq c by (simp add: strtol10_def)
  with assms show ?thesis by (simp add: read_show_nat clamp_long_def)
qed

lemma atoi_show_nat:
  assumes "n < 2 ^ 31"
  shows "atoi (show_nat n) = int n"
  using assms by (simp add: atoi_def strtol10_show_nat signed_take_bit_int_eq_self)

lemma parse_positive:
  assumes "0 < d" and "d < 2 ^ 31"
  shows "0 < unat (parseEnvironIntGreaterThanZero getenv name d)"
proof -
  have "0 < unat (word_of_int i :: uint32)" if "0 < i" "i < 2 ^ 31" for i
  proof -
    from that have "unat (word_of_int i :: uint32) = nat i"
      by (simp add: unsigned_of_int take_bit_int_eq_self)
    with that show ?thesis by simp
  qed
  with assms atoi_range show ?thesis
    by (auto simp: parseEnvironIntGreaterThanZero_def Let_def split: option.split)
qed

text \<open>
  A configuration variable takes the value the user wrote and nothing else: if it holds the
  decimal digits of a positive int, that number is read back; if it is unset, or holds zero, a
  negative number or no number at all, the default is taken.
\<close>

theorem parseEnviron_value:
  shows "getenv name = Some (show_nat n) \<Longrightarrow> 0 < n \<Longrightarrow> n < 2 ^ 31 \<Longrightarrow>
      unat (parseEnvironIntGreaterThanZero getenv name d) = n
    \<and> parseEnvironIntGreaterThanZero (getenv(name := None)) name d = word_of_int d
    \<and> parseEnvironIntGreaterThanZero (getenv(name \<mapsto> CHR ''-'' # show_nat n)) name d = word_of_int d
    \<and> (c \<noteq> CHR ''-'' \<longrightarrow> c \<noteq> CHR ''+'' \<longrightarrow> \<not> isspace c \<longrightarrow> \<not> isdigit c \<longrightarrow>
        parseEnvironIntGreaterThanZero (getenv(name \<mapsto> c # show_nat n)) name d = word_of_int d)"
proof -
  assume n: "getenv name = Some (show_nat n)" "0 < n" "n < 2 ^ 31"
  have "strtol10 (CHR ''-'' # show_nat n) = - int n"
    using n(3) by (simp add: strtol10_def read_show_nat clamp_long_def isspace_def)
  then have "atoi (CHR ''-'' # show_nat n) = - int n"
    using n(3) by (simp add: atoi_def signed_take_bit_int_eq_self)
  moreover have "atoi (c # show_nat n) = 0"
    if "c \<noteq> CHR ''-''" "c \<noteq> CHR ''+''" "\<not> isspace c" "\<not> isdigit c"
    using that by (simp add: atoi_def strtol10_def clamp_long_def)
  ultimately show ?thesis
    using n
    by (simp add: parseEnvironIntGreaterThanZero_def atoi_show_nat unsigned_of_nat take_bit_nat_eq_self)
qed

theorem parseEnviron_value_witness:
  "unat (parseEnvironIntGreaterThanZero [''ALLOC_TIME_SUSPICIOUS'' \<mapsto> show_nat 120]
     ''ALLOC_TIME_SUSPICIOUS'' 30) = 120"
  using parseEnviron_value [of "[''ALLOC_TIME_SUSPICIOUS'' \<mapsto> show_nat 120]" "''ALLOC_TIME_SUSPICIOUS''" 120 30]
  by simp

section \<open>Page rounding\<close>

text \<open>
  A page size is a power of two that fits the 32-bit field. All facts on rounding are stated
  for such a page size.
\<close>

definition page_env :: "Environment \<Rightarrow> nat \<Rightarrow> bool" where
  "page_env env k \<longleftrightarrow> k < 32 \<and> unat (pageSize env) = 2 ^ k"

lemma page_env_mask:
  assumes "page_env env k"
  shows "pageSize env - 1 = mask k" "unat (pageSize env - 1) = 2 ^ k - 1"
proof -
  have "pageSize env = 2 ^ k"
    using assms by (intro word_unat_eq_iff [THEN iffD2]) (simp add: page_env_def unat_exp)
  then show "pageSize env - 1 = mask k" by (simp add: mask_eq_exp_minus_1)
  show "unat (pageSize env - 1) = 2 ^ k - 1"
    using assms by (subst unat_pred) (auto simp: page_env_def)
qed

lemma unat_round:
  assumes "page_env env k"
  shows "unat (roundUpToPageMultiple env n) = (unat n + 2 ^ k - 1) mod 2 ^ 32 div 2 ^ k * 2 ^ k"
proof -
  have "unat (roundUpToPageMultiple env n) = unat (n + mask k) div 2 ^ k * 2 ^ k"
    by (simp add: roundUpToPageMultiple_def page_env_mask [OF assms] unat_and_not_mask)
  also have "unat (n + mask k) = (unat n + 2 ^ k - 1) mod 2 ^ 32"
    using page_env_mask [OF assms] by (simp add: unat_word_ariths)
  finally show ?thesis .
qed

lemma round_in_range:
  assumes "page_env env k" and "unat n + 2 ^ k \<le> 2 ^ 32"
  shows "unat (roundUpToPageMultiple env n) = (unat n + 2 ^ k - 1) div 2 ^ k * 2 ^ k"
proof -
  have "unat n + 2 ^ k - 1 < 2 ^ 32" using assms(2) by (simp add: less_eq_Suc_le)
  then show ?thesis by (simp add: unat_round [OF assms(1)])
qed

lemma round_bounds:
  assumes "page_env env k" and "unat n + 2 ^ k \<le> 2 ^ 32"
  shows "2 ^ k dvd unat (roundUpToPageMultiple env n)"
    "unat n \<le> unat (roundUpToPageMultiple env n)"
    "unat (roundUpToPageMultiple env n) < unat n + 2 ^ k"
proof -
  let ?q = "(unat n + 2 ^ k - 1) div 2 ^ k * 2 ^ k"
  have "?q + (unat n + 2 ^ k - 1) mod 2 ^ k = unat n + 2 ^ k - 1" by (rule div_mult_mod_eq)
  moreover have "(unat n + 2 ^ k - 1) mod 2 ^ k < 2 ^ k" by simp
  ultimately have "unat n \<le> ?q" "?q < unat n + 2 ^ k" by linarith+
  then show "2 ^ k dvd unat (roundUpToPageMultiple env n)"
    "unat n \<le> unat (roundUpToPageMultiple env n)"
    "unat (roundUpToPageMultiple env n) < unat n + 2 ^ k"
    by (simp_all add: round_in_range [OF assms])
qed

lemma round_wraps:
  assumes "page_env env k" and "2 ^ 32 < unat n + 2 ^ k"
  shows "roundUpToPageMultiple env n = 0"
proof -
  have k: "(2::nat) ^ k < 2 ^ 32"
    using assms(1) by (intro power_strict_increasing) (auto simp: page_env_def)
  have "unat n < 2 ^ 32" using unat_lt_32 [of n] by simp
  with assms(2) have "unat n + 2 ^ k - 1 = (unat n + 2 ^ k - 1 - 2 ^ 32) + 2 ^ 32"
    and low: "unat n + 2 ^ k - 1 - 2 ^ 32 < 2 ^ k" by linarith+
  then have "(unat n + 2 ^ k - 1) mod 2 ^ 32 = (unat n + 2 ^ k - 1 - 2 ^ 32) mod 2 ^ 32"
    by (metis mod_add_self2)
  with low k have "(unat n + 2 ^ k - 1) mod 2 ^ 32 < 2 ^ k"
    by (simp add: mod_less [OF less_trans [OF low k]])
  then have "unat (roundUpToPageMultiple env n) = 0"
    by (simp add: unat_round [OF assms(1)])
  then show ?thesis by (simp add: unat_eq_0)
qed

text \<open>
  C34. Page rounding, for every request: while the rounded size fits in 32 bits the result is
  the least multiple of the page size that is not below the request; a request within one page
  of 4 GiB rounds to zero.
\<close>

theorem round_correct:
  assumes "page_env env k"
  shows "(unat n + 2 ^ k \<le> 2 ^ 32 \<longrightarrow>
      2 ^ k dvd unat (roundUpToPageMultiple env n) \<and> unat n \<le> unat (roundUpToPageMultiple env n)
      \<and> (\<forall>m. 2 ^ k dvd m \<longrightarrow> unat n \<le> m \<longrightarrow> unat (roundUpToPageMultiple env n) \<le> m))
    \<and> (2 ^ 32 < unat n + 2 ^ k \<longrightarrow> roundUpToPageMultiple env n = 0)"
proof -
  have "unat (roundUpToPageMultiple env n) \<le> m"
    if fits: "unat n + 2 ^ k \<le> 2 ^ 32" and m: "2 ^ k dvd m" "unat n \<le> m" for m
  proof (rule ccontr)
    note bounds = round_bounds [OF assms fits]
    assume "\<not> unat (roundUpToPageMultiple env n) \<le> m"
    then have less: "m < unat (roundUpToPageMultiple env n)" by simp
    have "2 ^ k dvd unat (roundUpToPageMultiple env n) - m" using bounds(1) m(1) by (rule dvd_diff_nat)
    with less have "2 ^ k \<le> unat (roundUpToPageMultiple env n) - m" by (simp add: dvd_imp_le)
    with less have "2 ^ k + m \<le> unat (roundUpToPageMultiple env n)" by linarith
    with bounds(3) m(2) show False by linarith
  qed
  with assms round_bounds [of env k n] round_wraps [of env k n] show ?thesis by blast
qed

text \<open>The default configuration on a machine with 4 KiB pages.\<close>

definition sample_env :: Environment where
  "sample_env = \<lparr>timeForAllocationToBecomeSuspicious = 30,
     closelyWatchedAllocationsAccessMaxInterval = 1, closelyWatchedAllocationsRestTime = 10,
     enoughSamplesToProveNoLeak = 5, globalMaxLiveCloselyWatchedAllocations = 50000,
     maxLiveCloselyWatchedAllocationsPerTrace = 30, leakReportInterval = 30, pageSize = 4096,
     autoStartTime = 0, archName = ''x86_64''\<rparr>"

lemma page_sample_env: "page_env sample_env 12"
  by (simp add: page_env_def sample_env_def)

theorem round_correct_witness:
  "unat (roundUpToPageMultiple sample_env 4097) = 8192
   \<and> roundUpToPageMultiple sample_env 4294967295 = 0"
proof -
  have "roundUpToPageMultiple sample_env 4294967295 = 0"
    using round_correct [OF page_sample_env, of 4294967295] by simp
  moreover have "unat (roundUpToPageMultiple sample_env 4097) = 8192"
    by (simp add: roundUpToPageMultiple_def sample_env_def)
  ultimately show ?thesis by blast
qed

end
