(* ===== verification/Stack_Trace.thy ===== *)
theory Stack_Trace
  imports Environment
begin

text \<open>
  \<^verbatim>\<open>common/stack-trace.h\<close> and \<^verbatim>\<open>common/stack-trace.cpp\<close>: capturing the return addresses of
  the current call stack, the running hash over them, equality, and printing. The unwinder
  (libunwind: unw_step and unw_get_reg on a cursor), the symbol lookup (dladdr) and the
  standard library's hash of a word are arguments; the stream is the text written so far and
  whether integers are printed in base 16.
\<close>

record StackTrace =
  m_returnAddresses :: "ptr list"
  m_hash :: uint64

section \<open>Capturing\<close>

partial_function (option) unwind_loop ::
  "('c \<Rightarrow> int \<times> 'c) \<Rightarrow> ('c \<Rightarrow> ptr) \<Rightarrow> (ptr \<Rightarrow> uint64) \<Rightarrow> 'c \<Rightarrow> int \<Rightarrow> StackTrace \<Rightarrow> StackTrace option"
where
  "unwind_loop unw_step get_ip hashWord cursor numSkipCalls st =
     (let (r, cursor') = unw_step cursor in
      if r = 0 then Some st
      else let ip = get_ip cursor' in
        if numSkipCalls = 0
        then unwind_loop unw_step get_ip hashWord cursor' numSkipCalls
               (st\<lparr>m_returnAddresses := m_returnAddresses st @ [ip],
                   m_hash := push_bit 1 (m_hash st) XOR hashWord ip\<rparr>)
        else unwind_loop unw_step get_ip hashWord cursor' (numSkipCalls - 1) st)"

definition StackTrace_construct ::
  "('c \<Rightarrow> int \<times> 'c) \<Rightarrow> ('c \<Rightarrow> ptr) \<Rightarrow> (ptr \<Rightarrow> uint64) \<Rightarrow> 'c \<Rightarrow> int \<Rightarrow> StackTrace option" where
  "StackTrace_construct unw_step get_ip hashWord cursor numSkipCalls =
     unwind_loop unw_step get_ip hashWord cursor numSkipCalls
       \<lparr>m_returnAddresses = [], m_hash = 0\<rparr>"

definition StackTrace_equals :: "StackTrace \<Rightarrow> StackTrace \<Rightarrow> bool" where
  "StackTrace_equals a b \<longleftrightarrow> m_returnAddresses a = m_returnAddresses b"

definition hash_step :: "(ptr \<Rightarrow> uint64) \<Rightarrow> uint64 \<Rightarrow> ptr \<Rightarrow> uint64" where
  "hash_step hashWord h ip = push_bit 1 h XOR hashWord ip"

definition trace_hash :: "(ptr \<Rightarrow> uint64) \<Rightarrow> ptr list \<Rightarrow> uint64" where
  "trace_hash hashWord ips = foldl (hash_step hashWord) 0 ips"

text \<open>A stack trace as the constructor makes it: its hash belongs to its addresses.\<close>

definition trace_ok :: "(ptr \<Rightarrow> uint64) \<Rightarrow> StackTrace \<Rightarrow> bool" where
  "trace_ok hashWord st \<longleftrightarrow> m_hash st = trace_hash hashWord (m_returnAddresses st)"

text \<open>
  What the unwinder reports, frame by frame, until it returns zero: the documented result of
  unw_step is positive for a further frame and zero at the outermost one.
\<close>

inductive unwinds :: "('c \<Rightarrow> int \<times> 'c) \<Rightarrow> ('c \<Rightarrow> ptr) \<Rightarrow> 'c \<Rightarrow> ptr list \<Rightarrow> bool"
  for unw_step get_ip where
  outermost: "unw_step c = (0, c') \<Longrightarrow> unwinds unw_step get_ip c []"
| frame: "unw_step c = (r, c') \<Longrightarrow> 0 < r \<Longrightarrow> unwinds unw_step get_ip c' ips \<Longrightarrow>
    unwinds unw_step get_ip c (get_ip c' # ips)"

inductive_cases unwinds_NilE: "unwinds unw_step get_ip c []"
inductive_cases unwinds_ConsE: "unwinds unw_step get_ip c (ip # ips)"

lemma unwind_loop_collect:
  assumes "unwinds unw_step get_ip c ips"
  shows "unwind_loop unw_step get_ip hw c 0 st = Some
    \<lparr>m_returnAddresses = m_returnAddresses st @ ips, m_hash = foldl (hash_step hw) (m_hash st) ips\<rparr>"
  using assms
proof (induction arbitrary: st rule: unwinds.induct)
  case (outermost c c')
  then show ?case by (simp add: unwind_loop.simps)
next
  case (frame c r c' ips)
  then show ?case by (subst unwind_loop.simps) (simp add: hash_step_def [abs_def] Let_def)
qed

lemma unwind_loop_skip:
  assumes "unwinds unw_step get_ip c ips"
  shows "unwind_loop unw_step get_ip hw c (int n) st = Some
    \<lparr>m_returnAddresses = m_returnAddresses st @ drop n ips,
     m_hash = foldl (hash_step hw) (m_hash st) (drop n ips)\<rparr>"
  using assms
proof (induction arbitrary: n rule: unwinds.induct)
  case (outermost c c')
  then show ?case by (subst unwind_loop.simps) simp
next
  case (frame c r c' ips)
  show ?case
  proof (cases n)
    case 0
    with frame unwind_loop_collect [OF unwinds.frame [OF frame.hyps(1-3)], of hw st]
    show ?thesis by simp
  next
    case (Suc m)
    with frame show ?thesis by (subst unwind_loop.simps) (simp add: Let_def)
  qed
qed

text \<open>
  C35. The constructor returns whenever the unwinder reaches the outermost frame, with the
  return addresses in the unwinder's order less the first ones to be skipped, and with a hash
  that is a function of those addresses.
\<close>

theorem StackTrace_construct_frames:
  assumes "unwinds unw_step get_ip cursor ips"
  shows "StackTrace_construct unw_step get_ip hw cursor (int n)
    = Some \<lparr>m_returnAddresses = drop n ips, m_hash = trace_hash hw (drop n ips)\<rparr>"
  using unwind_loop_skip [OF assms] by (simp add: StackTrace_construct_def trace_hash_def)

theorem StackTrace_construct_frames_witness:
  "StackTrace_construct (\<lambda>c::nat. (if c < 3 then 1 else 0, c + 1)) (\<lambda>c. of_nat (16 * c)) id 0 (int 1)
    = Some \<lparr>m_returnAddresses = drop 1 [16, 32, 48], m_hash = trace_hash id (drop 1 [16, 32, 48])\<rparr>"
proof (rule StackTrace_construct_frames)
  let ?s = "\<lambda>c::nat. (if c < 3 then 1 else 0 :: int, c + 1)"
  let ?g = "\<lambda>c::nat. of_nat (16 * c) :: ptr"
  have "unwinds ?s ?g 3 []" by (rule unwinds.outermost) simp
  then have "unwinds ?s ?g 2 [?g 3]" by (rule unwinds.frame [where r = 1, rotated 2]) simp_all
  then have "unwinds ?s ?g 1 [?g 2, ?g 3]" by (rule unwinds.frame [where r = 1, rotated 2]) simp_all
  then have "unwinds ?s ?g 0 [?g 1, ?g 2, ?g 3]" by (rule unwinds.frame [where r = 1, rotated 2]) simp_all
  then show "unwinds ?s ?g 0 [16, 32, 48]" by simp
qed

lemma unwind_loop_not_stuck:
  assumes "unwind_loop us gi h c k st = Some res"
  shows "us c = (r, c) \<longrightarrow> r = 0"
  by (rule unwind_loop.raw_induct [where P = "\<lambda>us gi h c k st res. us c = (r, c) \<longrightarrow> r = 0", OF _ assms])
    (auto simp: Let_def split: if_splits prod.splits)

lemma unwind_loop_trace_ok:
  assumes "unwind_loop us gi hw c k st = Some res"
  shows "trace_ok hw st \<longrightarrow> trace_ok hw res"
proof (rule unwind_loop.raw_induct [where P = "\<lambda>us gi hw c k st res. trace_ok hw st \<longrightarrow> trace_ok hw res", OF _ assms], goal_cases)
  case (1 f us gi hw c k st res)
  have step: "trace_ok hw (st\<lparr>m_returnAddresses := m_returnAddresses st @ [ip],
      m_hash := push_bit 1 (m_hash st) XOR hw ip\<rparr>)" if "trace_ok hw st" for ip
    using that by (simp add: trace_ok_def trace_hash_def hash_step_def)
  show ?case
    using 1(2) step by (auto simp: Let_def split: if_splits prod.splits dest: 1(1))
qed

lemma construct_trace_ok:
  assumes "StackTrace_construct us gi hw c n = Some st"
  shows "trace_ok hw st"
proof -
  have "trace_ok hw \<lparr>m_returnAddresses = [], m_hash = 0\<rparr>" by (simp add: trace_ok_def trace_hash_def)
  with unwind_loop_trace_ok [OF assms [unfolded StackTrace_construct_def]] show ?thesis by simp
qed

text \<open>
  C36. The loop treats an error of the unwinder (a negative result) as one more frame: if
  unw_step keeps failing on a cursor, the constructor never returns.
\<close>

theorem StackTrace_construct_error_diverges:
  assumes "unw_step cursor = (r, cursor)" and "r < 0"
  shows "StackTrace_construct unw_step get_ip hw cursor n = None"
  using assms unwind_loop_not_stuck [of unw_step get_ip hw cursor n]
  unfolding StackTrace_construct_def by (metis option.exhaust order_less_irrefl)

theorem StackTrace_construct_error_diverges_witness:
  "StackTrace_construct (\<lambda>c::nat. (-1, c)) of_nat id 0 0 = None"
  by (rule StackTrace_construct_error_diverges [where r = "-1"]) simp_all

text \<open>
  C27. Captured traces are lawful keys of a hash table: the class's equality is equality of
  the whole object, and equal traces have equal hashes.
\<close>

theorem captured_traces_hashable:
  assumes "StackTrace_construct us gi hw c n = Some a"
    and "StackTrace_construct us' gi' hw c' n' = Some b"
  shows "(StackTrace_equals a b \<longleftrightarrow> a = b) \<and> (StackTrace_equals a b \<longrightarrow> m_hash a = m_hash b)"
proof -
  have "trace_ok hw a" "trace_ok hw b"
    using assms by (auto intro: construct_trace_ok)
  then show ?thesis by (auto simp: StackTrace_equals_def trace_ok_def)
qed

theorem captured_traces_hashable_witness:
  "StackTrace_equals \<lparr>m_returnAddresses = [8], m_hash = 8\<rparr> \<lparr>m_returnAddresses = [8], m_hash = 8\<rparr>
   \<and> \<not> StackTrace_equals \<lparr>m_returnAddresses = [8], m_hash = 8\<rparr> \<lparr>m_returnAddresses = [], m_hash = 0\<rparr>"
proof -
  let ?s = "\<lambda>c::nat. (if c < 1 then 1 else 0 :: int, c + 1)"
  have a: "StackTrace_construct ?s (\<lambda>c. 8) id 0 0 = Some \<lparr>m_returnAddresses = [8], m_hash = 8\<rparr>"
    and b: "StackTrace_construct ?s (\<lambda>c. 8) id 5 0 = Some \<lparr>m_returnAddresses = [], m_hash = 0\<rparr>"
    by (simp_all add: StackTrace_construct_def unwind_loop.simps)
  show ?thesis
    using captured_traces_hashable [OF a a] captured_traces_hashable [OF a b] by simp
qed

section \<open>Printing\<close>

record Dl_info =
  dli_fname :: "string option"
  dli_fbase :: ptr
  dli_sname :: "string option"
  dli_saddr :: ptr

record OStream =
  os_text :: string
  os_hex :: bool

definition put :: "string \<Rightarrow> OStream \<Rightarrow> OStream" where
  "put s os = os\<lparr>os_text := os_text os @ s\<rparr>"

definition put_int :: "nat \<Rightarrow> OStream \<Rightarrow> OStream" where
  "put_int n os = put (if os_hex os then show_hex n else show_nat n) os"

definition show_ptr :: "ptr \<Rightarrow> string" where
  "show_ptr p = (if p = nullptr then ''0'' else ''0x'' @ show_hex (unat p))"

definition set_hex :: "bool \<Rightarrow> OStream \<Rightarrow> OStream" where
  "set_hex b os = os\<lparr>os_hex := b\<rparr>"

definition offset :: "ptr \<Rightarrow> ptr \<Rightarrow> nat outcome" where
  "offset base pointer =
     andThen (check (base \<le> pointer) AssertionFailed) (\<lambda>_. Inr (unat (pointer - base)))"

definition print_symbol :: "ptr \<Rightarrow> Dl_info option \<Rightarrow> OStream \<Rightarrow> OStream outcome" where
  "print_symbol returnAddress info os =
     (case info of None \<Rightarrow> Inr os
      | Some i \<Rightarrow> (case dli_sname i of None \<Rightarrow> Inr os
        | Some sname \<Rightarrow> andThen (offset (dli_saddr i) returnAddress) (\<lambda>d.
            Inr (put_int d (put (''+'') (put sname (put '' in '' os)))))))"

definition print_file :: "string \<Rightarrow> ptr \<Rightarrow> Dl_info option \<Rightarrow> OStream \<Rightarrow> OStream outcome" where
  "print_file arch returnAddress info os =
     (case info of None \<Rightarrow> Inr os
      | Some i \<Rightarrow> (case dli_fname i of None \<Rightarrow> Inr os
        | Some fname \<Rightarrow> andThen (offset (dli_fbase i) returnAddress) (\<lambda>d.
            Inr (put '')'' (set_hex False (put_int d (set_hex True
              (put (''+0x'') (put arch (put '':'' (put fname (put '' ('' os))))))))))))"

fun print_frames ::
  "(ptr \<Rightarrow> Dl_info option) \<Rightarrow> string \<Rightarrow> nat \<Rightarrow> ptr list \<Rightarrow> OStream \<Rightarrow> OStream outcome"
where
  "print_frames dladdr arch frameNumber [] os = Inr (set_hex False os)"
| "print_frames dladdr arch frameNumber (returnAddress # rest) os =
     (let info = dladdr returnAddress;
          os1 = put (show_ptr returnAddress) (put '' '' (put_int frameNumber (put ''    #'' os)));
          os2 = (case info of None \<Rightarrow> put '' [GARBAGE]'' os1 | Some _ \<Rightarrow> os1)
      in andThen (print_symbol returnAddress info os2) (\<lambda>os3.
         andThen (print_file arch returnAddress info os3) (\<lambda>os4.
         print_frames dladdr arch (Suc frameNumber) rest (put ''\<newline>'' os4))))"

definition print_StackTrace ::
  "(ptr \<Rightarrow> Dl_info option) \<Rightarrow> Environment \<Rightarrow> StackTrace \<Rightarrow> OStream \<Rightarrow> OStream outcome" where
  "print_StackTrace dladdr env st os = print_frames dladdr (archName env) 0 (m_returnAddresses st) os"

text \<open>What one frame's line should say, with no stream state: the format the reports promise.\<close>

definition symbol_text :: "ptr \<Rightarrow> Dl_info \<Rightarrow> string" where
  "symbol_text ra i = (case dli_sname i of None \<Rightarrow> []
     | Some s \<Rightarrow> '' in '' @ s @ ''+'' @ show_nat (unat ra - unat (dli_saddr i)))"

definition file_text :: "string \<Rightarrow> ptr \<Rightarrow> Dl_info \<Rightarrow> string" where
  "file_text arch ra i = (case dli_fname i of None \<Rightarrow> []
     | Some s \<Rightarrow> '' ('' @ s @ '':'' @ arch @ ''+0x'' @ show_hex (unat ra - unat (dli_fbase i)) @ '')'')"

definition frame_text :: "(ptr \<Rightarrow> Dl_info option) \<Rightarrow> string \<Rightarrow> nat \<Rightarrow> ptr \<Rightarrow> string" where
  "frame_text dladdr arch n ra = ''    #'' @ show_nat n @ '' '' @ show_ptr ra @
     (case dladdr ra of None \<Rightarrow> '' [GARBAGE]'' | Some i \<Rightarrow> symbol_text ra i @ file_text arch ra i) @
     ''\<newline>''"

fun frames_text :: "(ptr \<Rightarrow> Dl_info option) \<Rightarrow> string \<Rightarrow> nat \<Rightarrow> ptr list \<Rightarrow> string" where
  "frames_text dladdr arch n [] = []"
| "frames_text dladdr arch n (ra # ras) = frame_text dladdr arch n ra @ frames_text dladdr arch (Suc n) ras"

text \<open>
  dladdr's documented contract: the object and the symbol it reports start at or before the
  address it was asked about.
\<close>

definition dladdr_ok :: "(ptr \<Rightarrow> Dl_info option) \<Rightarrow> ptr \<Rightarrow> bool" where
  "dladdr_ok dladdr ra \<longleftrightarrow> (case dladdr ra of None \<Rightarrow> True
     | Some i \<Rightarrow> dli_fbase i \<le> ra \<and> dli_saddr i \<le> ra)"

lemmas stream_defs = put_def put_int_def set_hex_def

lemma offset_ok: "b \<le> p \<Longrightarrow> offset b p = Inr (unat p - unat b)"
  by (simp add: offset_def unat_sub)

lemma print_symbol_ok:
  assumes "dli_saddr i \<le> ra" and "\<not> os_hex os"
  shows "print_symbol ra (Some i) os = Inr (put (symbol_text ra i) os)"
  using assms
  by (simp add: print_symbol_def symbol_text_def offset_ok stream_defs split: option.split)

lemma print_file_ok:
  assumes "dli_fbase i \<le> ra" and "\<not> os_hex os"
  shows "print_file arch ra (Some i) os = Inr (put (file_text arch ra i) os)"
  using assms
  by (simp add: print_file_def file_text_def offset_ok stream_defs split: option.split)

lemma print_frames_text:
  assumes "\<forall>ra \<in> set ras. dladdr_ok dladdr ra" and "\<not> os_hex os"
  shows "print_frames dladdr arch n ras os = Inr (put (frames_text dladdr arch n ras) os)"
  using assms
proof (induction ras arbitrary: n os)
  case Nil
  then show ?case by (cases os) (simp add: stream_defs)
next
  case (Cons ra ras)
  show ?case
  proof (cases "dladdr ra")
    case None
    with Cons show ?thesis
      by (simp add: print_symbol_def print_file_def frame_text_def stream_defs)
  next
    case (Some i)
    with Cons have "dli_fbase i \<le> ra" "dli_saddr i \<le> ra" by (auto simp: dladdr_ok_def)
    with Some Cons show ?thesis
      by (simp add: print_symbol_ok print_file_ok frame_text_def stream_defs)
  qed
qed

text \<open>
  C37. Printing a stack trace on a decimal stream returns, appends exactly one line per frame
  (number, address, symbol with a decimal offset, file and architecture with a hexadecimal
  offset, or the garbage mark) and leaves the stream decimal.
\<close>

theorem print_StackTrace_text:
  assumes "\<forall>ra \<in> set (m_returnAddresses st). dladdr_ok dladdr ra" and "\<not> os_hex os"
  shows "print_StackTrace dladdr env st os = Inr \<lparr>os_text = os_text os @
    frames_text dladdr (archName env) 0 (m_returnAddresses st), os_hex = False\<rparr>"
  using print_frames_text [OF assms] assms(2)
  by (cases os) (simp add: print_StackTrace_def put_def)

theorem print_StackTrace_text_witness:
  "\<exists>os. print_StackTrace (\<lambda>p. if p = 80 then Some \<lparr>dli_fname = Some ''app'', dli_fbase = 16,
        dli_sname = Some ''main'', dli_saddr = 70\<rparr> else None)
      \<lparr>timeForAllocationToBecomeSuspicious = 30, closelyWatchedAllocationsAccessMaxInterval = 1,
       closelyWatchedAllocationsRestTime = 10, enoughSamplesToProveNoLeak = 5,
       globalMaxLiveCloselyWatchedAllocations = 50000, maxLiveCloselyWatchedAllocationsPerTrace = 30,
       leakReportInterval = 30, pageSize = 4096, autoStartTime = 0, archName = ''x86''\<rparr>
      \<lparr>m_returnAddresses = [80, 7], m_hash = 0\<rparr> \<lparr>os_text = [], os_hex = False\<rparr> = Inr os
    \<and> os_text os = ''    #0 0x50 in main+10 (app:x86+0x40)\<newline>    #1 0x7 [GARBAGE]\<newline>''"
  by (rule exI, rule conjI, rule print_StackTrace_text)
    (simp_all add: dladdr_ok_def frame_text_def symbol_text_def file_text_def show_ptr_def
      show_nat.simps show_hex.simps char_of_digit_def char_of_hex_digit_def, code_simp)

end
