(* ===== verification/Cpp_Float.thy ===== *)
theory Cpp_Float
  imports Prelude Complex_Main "HOL-Library.Log_Nat"
begin

text \<open>
  The float and double arithmetic the program does. A finite value is a rational; every
  operation computes the exact rational result and rounds it to the nearest number with
  the format's precision (24 bits for float, 53 for double), ties to even, as IEEE 754
  prescribes and C++ compilers for these targets implement. Division by zero gives
  infinity, and zero divided by zero gives NaN. The exponent is not bounded: the quantities the
  program computes lie between 2 to the power -64 and 2 to the power 96 or are zero, far
  inside both formats. Only positive infinity occurs, since no operand of a division is negative.
\<close>

section \<open>Rounding to a precision\<close>

definition round_half_even :: "rat \<Rightarrow> int" where
  "round_half_even x =
     (let f = \<lfloor>x\<rfloor>; d = x - of_int f
      in if d < 1 / 2 then f else if 1 / 2 < d then f + 1 else if even f then f else f + 1)"

definition expo :: "rat \<Rightarrow> int" where
  "expo q = (let (a, b) = quotient_of q; e = bitlen a - bitlen b
     in if 2 powi e \<le> q then e else e - 1)"

definition fl_pos :: "int \<Rightarrow> rat \<Rightarrow> rat" where
  "fl_pos p q = (let s = expo q - p + 1
     in of_int (round_half_even (q * 2 powi (- s))) * 2 powi s)"

definition fl :: "int \<Rightarrow> rat \<Rightarrow> rat" where
  "fl p q = (if q = 0 then 0 else if q < 0 then - fl_pos p (- q) else fl_pos p q)"

abbreviation single_prec :: int where "single_prec \<equiv> 24"
abbreviation double_prec :: int where "double_prec \<equiv> 53"

lemma round_half_even_of_int [simp]: "round_half_even (of_int n) = n"
  by (simp add: round_half_even_def)

lemma round_half_even_near: "\<bar>of_int (round_half_even x) - x\<bar> \<le> 1 / 2"
proof -
  have "of_int \<lfloor>x\<rfloor> \<le> x" "x < of_int \<lfloor>x\<rfloor> + 1" by linarith+
  then show ?thesis unfolding round_half_even_def Let_def by (auto split: if_splits)
qed

lemma round_half_even_bounds: "\<lfloor>x\<rfloor> \<le> round_half_even x" "round_half_even x \<le> \<lfloor>x\<rfloor> + 1"
  by (auto simp: round_half_even_def Let_def)

lemma round_half_even_mono:
  assumes "x \<le> y"
  shows "round_half_even x \<le> round_half_even y"
proof (cases "\<lfloor>x\<rfloor> = \<lfloor>y\<rfloor>")
  case True
  with assms show ?thesis by (auto simp: round_half_even_def Let_def)
next
  case False
  with floor_mono [OF assms] have "\<lfloor>x\<rfloor> + 1 \<le> \<lfloor>y\<rfloor>" by linarith
  with round_half_even_bounds [of x] round_half_even_bounds [of y] show ?thesis by linarith
qed

lemma powi2_less: "(2 :: rat) powi m < 2 powi n \<longleftrightarrow> m < n"
  using power_int_strict_increasing [of m n "2 :: rat"]
    power_int_increasing [of n m "2 :: rat"] by (auto simp: not_less [symmetric])

lemma powi2_le: "(2 :: rat) powi m \<le> 2 powi n \<longleftrightarrow> m \<le> n"
  by (metis powi2_less not_less)

lemma powi2_pos [simp]: "(0 :: rat) < 2 powi n"
  by simp

lemma bitlen_powi:
  assumes "0 < a"
  shows "2 powi (bitlen a - 1) \<le> (of_int a :: rat)" "of_int a < (2 :: rat) powi (bitlen a)"
proof -
  have pos: "0 < bitlen a"
    using assms bitlen_eq_zero_iff [of a] bitlen_nonneg [of a] by linarith
  have pow: "(2 :: rat) powi k = of_int (2 ^ nat k)" if "0 \<le> k" for k
    using that by (simp add: power_int_def)
  have "2 powi (bitlen a - 1) = (of_int (2 ^ nat (bitlen a - 1)) :: rat)"
    using pos by (intro pow) simp
  also have "\<dots> \<le> of_int a"
    using bitlen_bounds [OF assms] by (simp only: of_int_le_iff)
  finally show "2 powi (bitlen a - 1) \<le> (of_int a :: rat)" .
  have "(of_int a :: rat) < of_int (2 ^ nat (bitlen a))"
    using bitlen_bounds [OF assms] by (simp only: of_int_less_iff)
  also have "\<dots> = 2 powi (bitlen a)"
    using pos by (intro pow [symmetric]) simp
  finally show "of_int a < (2 :: rat) powi (bitlen a)" .
qed

lemma expo_bounds:
  assumes "0 < q"
  shows "2 powi (expo q) \<le> q" "q < 2 powi (expo q + 1)"
proof -
  obtain a b where ab: "quotient_of q = (a, b)" by (cases "quotient_of q")
  then have q: "q = of_int a / of_int b" and b: "0 < b"
    by (auto simp: quotient_of_div quotient_of_denom_pos)
  then have a: "0 < a" using assms by (simp add: zero_less_divide_iff)
  let ?e = "bitlen a - bitlen b"
  note A = bitlen_powi [OF a] and B = bitlen_powi [OF b]
  have bp: "(0 :: rat) < of_int b" using b by simp
  have "q < 2 powi (bitlen a) / of_int b"
    unfolding q using A(2) bp by (rule divide_strict_right_mono)
  also have "\<dots> \<le> 2 powi (bitlen a) / 2 powi (bitlen b - 1)"
    using B(1) bp by (intro divide_left_mono mult_pos_pos) auto
  also have "\<dots> = 2 powi (?e + 1)"
    by (simp flip: power_int_diff add: algebra_simps)
  finally have up: "q < 2 powi (?e + 1)" .
  have "2 powi (?e - 1) = (2 powi (bitlen a - 1) :: rat) / 2 powi (bitlen b)"
    by (simp flip: power_int_diff add: algebra_simps)
  also have "\<dots> \<le> of_int a / 2 powi (bitlen b)"
    using A(1) by (intro divide_right_mono) auto
  also have "\<dots> \<le> q"
    unfolding q using B(2) a bp by (intro divide_left_mono) auto
  finally have low: "2 powi (?e - 1) \<le> q" .
  show "2 powi (expo q) \<le> q" "q < 2 powi (expo q + 1)"
    using up low by (auto simp: expo_def ab Let_def)
qed

lemma expo_unique:
  assumes "2 powi e \<le> q" "q < 2 powi (e + 1)"
  shows "expo q = e"
proof -
  have "0 < q" using assms(1) by (rule less_le_trans [rotated]) simp
  note E = expo_bounds [OF this]
  have "2 powi e < (2 :: rat) powi (expo q + 1)" using assms(1) E(2) by linarith
  moreover have "2 powi (expo q) < (2 :: rat) powi (e + 1)" using assms(2) E(1) by linarith
  ultimately have "e < expo q + 1" "expo q < e + 1"
    by (simp_all only: powi2_less)
  then show ?thesis by simp
qed

lemma expo_mono:
  assumes "0 < x" "x \<le> y"
  shows "expo x \<le> expo y"
proof -
  have "2 powi (expo x) < (2 :: rat) powi (expo y + 1)"
    using expo_bounds [of x] expo_bounds [of y] assms by linarith
  then have "expo x < expo y + 1" by (simp only: powi2_less)
  then show ?thesis by simp
qed

section \<open>Properties of rounding\<close>

lemma fl_pos_unfold:
  "fl_pos p q = of_int (round_half_even (q * 2 powi (p - 1 - expo q))) * 2 powi (expo q - p + 1)"
  by (simp add: fl_pos_def Let_def algebra_simps)

lemma scaled_bounds:
  assumes "0 < q" and "1 \<le> p"
  shows "2 ^ nat (p - 1) \<le> round_half_even (q * 2 powi (p - 1 - expo q))"
    and "round_half_even (q * 2 powi (p - 1 - expo q)) \<le> 2 ^ nat p"
proof -
  let ?z = "q * 2 powi (p - 1 - expo q)"
  have "2 powi (expo q) * 2 powi (p - 1 - expo q) \<le> ?z"
    using expo_bounds(1) [OF assms(1)] by (intro mult_right_mono) auto
  then have "2 powi (p - 1) \<le> ?z" by (simp flip: power_int_add)
  then have "of_int (2 ^ nat (p - 1)) \<le> ?z"
    using assms(2) by (simp add: power_int_def [of _ "p - 1"])
  from round_half_even_mono [OF this]
  show "2 ^ nat (p - 1) \<le> round_half_even ?z" by (simp only: round_half_even_of_int)
  have "?z \<le> 2 powi (expo q + 1) * 2 powi (p - 1 - expo q)"
    using expo_bounds(2) [OF assms(1)] by (intro mult_right_mono) auto
  then have "?z \<le> 2 powi p" by (simp flip: power_int_add)
  then have "?z \<le> of_int (2 ^ nat p)"
    using assms(2) by (simp add: power_int_def [of _ p])
  from round_half_even_mono [OF this]
  show "round_half_even ?z \<le> 2 ^ nat p" by (simp only: round_half_even_of_int)
qed

lemma fl_pos_bounds:
  assumes "0 < q" and "1 \<le> p"
  shows "2 powi (expo q) \<le> fl_pos p q" and "fl_pos p q \<le> 2 powi (expo q + 1)"
proof -
  let ?n = "round_half_even (q * 2 powi (p - 1 - expo q))"
  have "(2 :: rat) powi (p - 1) = of_int (2 ^ nat (p - 1))"
    using assms(2) by (simp add: power_int_def)
  also have "\<dots> \<le> of_int ?n" using scaled_bounds(1) [OF assms] by (simp only: of_int_le_iff)
  finally have "2 powi (p - 1) * 2 powi (expo q - p + 1) \<le> fl_pos p q"
    unfolding fl_pos_unfold by (intro mult_right_mono) auto
  then show "2 powi (expo q) \<le> fl_pos p q" by (simp flip: power_int_add)
  have "(of_int ?n :: rat) \<le> of_int (2 ^ nat p)"
    using scaled_bounds(2) [OF assms] by (simp only: of_int_le_iff)
  also have "\<dots> = 2 powi p" using assms(2) by (simp add: power_int_def)
  finally have "fl_pos p q \<le> 2 powi p * 2 powi (expo q - p + 1)"
    unfolding fl_pos_unfold by (intro mult_right_mono) auto
  then show "fl_pos p q \<le> 2 powi (expo q + 1)" by (simp flip: power_int_add)
qed

lemma fl_pos_mono:
  assumes "0 < x" and "x \<le> y" and "1 \<le> p"
  shows "fl_pos p x \<le> fl_pos p y"
proof (cases "expo x = expo y")
  case True
  have "x * 2 powi (p - 1 - expo y) \<le> y * 2 powi (p - 1 - expo y)"
    using assms(2) by (intro mult_right_mono) auto
  from round_half_even_mono [OF this] show ?thesis
    unfolding fl_pos_unfold True by (intro mult_right_mono) auto
next
  case False
  with expo_mono [OF assms(1,2)] have "expo x + 1 \<le> expo y" by simp
  then have "(2 :: rat) powi (expo x + 1) \<le> 2 powi (expo y)" by (simp only: powi2_le)
  moreover have "0 < y" using assms by simp
  ultimately show ?thesis
    using fl_pos_bounds [OF assms(1,3)] fl_pos_bounds [OF _ assms(3), of y] by linarith
qed

lemma fl_pos_positive: "0 < q \<Longrightarrow> 1 \<le> p \<Longrightarrow> 0 < fl_pos p q"
  using fl_pos_bounds(1) [of q p] powi2_pos [of "expo q"] by linarith

lemma fl_zero [simp]: "fl p 0 = 0"
  by (simp add: fl_def)

lemma fl_nonneg: "0 \<le> q \<Longrightarrow> 1 \<le> p \<Longrightarrow> 0 \<le> fl p q"
  using fl_pos_positive [of q p] by (auto simp: fl_def)

lemma fl_positive: "0 < q \<Longrightarrow> 1 \<le> p \<Longrightarrow> 0 < fl p q"
  using fl_pos_positive [of q p] by (auto simp: fl_def)

lemma fl_nat_positive: "0 < n \<Longrightarrow> 1 \<le> p \<Longrightarrow> 0 < fl p (of_nat n)"
  by (rule fl_positive) auto

lemma fl_mono:
  assumes "0 \<le> x" and "x \<le> y" and "1 \<le> p"
  shows "fl p x \<le> fl p y"
  using assms fl_pos_mono [of x y p] fl_nonneg [of y p] by (cases "x = 0") (auto simp: fl_def)

lemma fl_of_nat:
  assumes "n < 2 ^ nat p" and "1 \<le> p"
  shows "fl p (of_nat n) = of_nat n"
proof (cases "n = 0")
  case False
  let ?q = "of_nat n :: rat"
  have pos: "0 < ?q" using False by simp
  note E = expo_bounds [OF pos]
  have "(1 :: rat) \<le> ?q" using False by simp
  then have "(2 :: rat) powi 0 < 2 powi (expo ?q + 1)" using E(2) by simp
  then have e0: "0 < expo ?q + 1" by (simp only: powi2_less)
  have "?q < of_nat (2 ^ nat p)" using assms(1) by (simp only: of_nat_less_iff)
  also have "\<dots> = 2 powi p" using assms(2) by (simp add: power_int_def)
  finally have "(2 :: rat) powi (expo ?q) < 2 powi p" using E(1) by linarith
  then have "expo ?q < p" by (simp only: powi2_less)
  then have k: "0 \<le> p - 1 - expo ?q" by simp
  have "?q * 2 powi (p - 1 - expo ?q) = of_int (int n * 2 ^ nat (p - 1 - expo ?q))"
    using k by (simp add: power_int_def)
  then have "round_half_even (?q * 2 powi (p - 1 - expo ?q)) = int n * 2 ^ nat (p - 1 - expo ?q)"
    by (simp only: round_half_even_of_int)
  then have "fl_pos p ?q = ?q * 2 powi (p - 1 - expo ?q) * 2 powi (expo ?q - p + 1)"
    using k by (simp add: fl_pos_unfold power_int_def)
  also have "\<dots> = ?q" by (simp add: mult.assoc flip: power_int_add)
  finally show ?thesis using pos by (simp add: fl_def)
qed simp

lemma fl_error:
  assumes "0 \<le> q" and "1 \<le> p"
  shows "\<bar>fl p q - q\<bar> \<le> q * 2 powi (- p)"
proof (cases "q = 0")
  case False
  with assms have q: "0 < q" by simp
  let ?k = "p - 1 - expo q"
  let ?n = "of_int (round_half_even (q * 2 powi ?k)) :: rat"
  have "fl p q - q = (?n - q * 2 powi ?k) * 2 powi (- ?k)"
    using q by (simp add: fl_def fl_pos_unfold left_diff_distrib mult.assoc flip: power_int_add)
      (simp add: algebra_simps)
  then have "\<bar>fl p q - q\<bar> = \<bar>?n - q * 2 powi ?k\<bar> * 2 powi (- ?k)"
    by (simp add: abs_mult)
  also have "\<dots> \<le> 1 / 2 * 2 powi (- ?k)"
    using round_half_even_near [of "q * 2 powi ?k"] by (intro mult_right_mono) auto
  also have "\<dots> = 2 powi (expo q) * 2 powi (- p)"
    by (simp flip: power_int_add power_int_minus add: power_int_diff power_int_add field_simps power_int_minus)
  also have "\<dots> \<le> q * 2 powi (- p)"
    using expo_bounds(1) [OF q] by (intro mult_right_mono) auto
  finally show ?thesis .
qed simp

lemma unsigned_rat: "0 \<le> (unsigned (x :: 'a::len word) :: rat)" "0 < unat x \<Longrightarrow> 0 < (unsigned x :: rat)"
  by (subst of_nat_unat [symmetric], rule of_nat_0_le_iff)
    (subst of_nat_unat [symmetric], rule of_nat_0_less_iff [THEN iffD2])

section \<open>Float values\<close>

datatype cpp_float = Fin rat | Infinity | NaN

definition float_of_nat :: "nat \<Rightarrow> cpp_float" where
  "float_of_nat n = Fin (fl single_prec (of_nat n))"

fun fdiv :: "cpp_float \<Rightarrow> cpp_float \<Rightarrow> cpp_float" where
  "fdiv (Fin a) (Fin b) =
     (if b = 0 then (if a = 0 then NaN else Infinity) else Fin (fl single_prec (a / b)))"
| "fdiv (Fin a) Infinity = Fin 0"
| "fdiv Infinity (Fin b) = Infinity"
| "fdiv _ _ = NaN"

fun fmul :: "cpp_float \<Rightarrow> cpp_float \<Rightarrow> cpp_float" where
  "fmul (Fin a) (Fin b) = Fin (fl single_prec (a * b))"
| "fmul (Fin a) Infinity = (if a = 0 then NaN else Infinity)"
| "fmul Infinity (Fin a) = (if a = 0 then NaN else Infinity)"
| "fmul Infinity Infinity = Infinity"
| "fmul _ _ = NaN"

fun fge :: "cpp_float \<Rightarrow> cpp_float \<Rightarrow> bool" where
  "fge (Fin a) (Fin b) = (b \<le> a)"
| "fge Infinity NaN = False"
| "fge Infinity _ = True"
| "fge _ _ = False"

definition is_nan :: "cpp_float \<Rightarrow> bool" where
  "is_nan x \<longleftrightarrow> x = NaN"

lemma fge_refl: "fge x x \<longleftrightarrow> \<not> is_nan x"
  by (cases x) (auto simp: is_nan_def)

lemma float_div_ratio:
  assumes "a \<le> b" and "0 < b"
  obtains r where "fdiv (float_of_nat a) (float_of_nat b) = Fin r" "0 \<le> r" "r \<le> 1"
    "r = 0 \<longleftrightarrow> a = 0"
proof -
  let ?a = "fl single_prec (of_nat a)" and ?b = "fl single_prec (of_nat b)"
  have b: "0 < ?b" using assms(2) by (intro fl_positive) auto
  have a: "0 \<le> ?a" by (intro fl_nonneg) auto
  have ab: "?a \<le> ?b" using assms(1) by (intro fl_mono) auto
  have "?a / ?b \<le> 1" "0 \<le> ?a / ?b" using a b ab by (auto simp: divide_simps)
  then have "fl single_prec (?a / ?b) \<le> fl single_prec (of_nat 1)" "0 \<le> fl single_prec (?a / ?b)"
    by (auto intro!: fl_mono fl_nonneg)
  moreover have "fl single_prec (of_nat 1) = 1" using fl_of_nat [of 1 single_prec] by simp
  moreover have "fl single_prec (?a / ?b) = 0 \<longleftrightarrow> a = 0"
  proof
    assume "fl single_prec (?a / ?b) = 0"
    then have "\<not> 0 < ?a / ?b" using fl_positive [of "?a / ?b" single_prec] by auto
    then have "\<not> 0 < ?a" using b by (simp add: zero_less_divide_iff)
    then show "a = 0" using fl_positive [of "of_nat a" single_prec] by (cases a) auto
  qed simp
  ultimately show ?thesis
    using b that [of "fl single_prec (?a / ?b)"] by (simp add: float_of_nat_def)
qed

end
