(* ===== verification/Unordered_Map.thy ===== *)
theory Unordered_Map
  imports Prelude
begin

text \<open>
  The C++ library's unordered_map as the program uses it: find, operator[] followed by an
  assignment of the whole element, emplace and insert (which keep an element that is already
  there), in-place modification through a reference, erase, and iteration. The order of
  iteration is not specified by the language; the model keeps the elements as an association
  list in some order, and the facts other components use (the interface below) do not
  depend on which order it is.
\<close>

type_synonym ('k, 'v) unordered_map = "('k \<times> 'v) list"

definition um_find :: "('k, 'v) unordered_map \<Rightarrow> 'k \<Rightarrow> 'v option" where
  "um_find m k = map_of m k"

definition um_set :: "'k \<Rightarrow> 'v \<Rightarrow> ('k, 'v) unordered_map \<Rightarrow> ('k, 'v) unordered_map" where
  "um_set k v m = AList.update k v m"

definition um_emplace :: "'k \<Rightarrow> 'v \<Rightarrow> ('k, 'v) unordered_map \<Rightarrow> ('k, 'v) unordered_map" where
  "um_emplace k v m = (case um_find m k of None \<Rightarrow> m @ [(k, v)] | Some _ \<Rightarrow> m)"

definition um_modify ::
  "'k \<Rightarrow> ('v \<Rightarrow> 'v) \<Rightarrow> ('k, 'v) unordered_map \<Rightarrow> ('k, 'v) unordered_map" where
  "um_modify k f m = AList.map_entry k f m"

definition um_erase :: "'k \<Rightarrow> ('k, 'v) unordered_map \<Rightarrow> ('k, 'v) unordered_map" where
  "um_erase k m = AList.delete k m"

definition um_ok :: "('k, 'v) unordered_map \<Rightarrow> bool" where
  "um_ok m \<longleftrightarrow> distinct (map fst m)"

definition num_entries :: "('k \<Rightarrow> 'v \<Rightarrow> bool) \<Rightarrow> ('k \<times> 'v) list \<Rightarrow> nat" where
  "num_entries P xs = length (filter (\<lambda>(k, v). P k v) xs)"

section \<open>The interface\<close>

text \<open>
  What the clients rely on: the contents after each operation, that keys stay unique, and that
  iteration visits exactly the stored elements, each once.
\<close>

locale hash_table =
  fixes find :: "'m \<Rightarrow> 'k \<Rightarrow> 'v option"
    and put :: "'k \<Rightarrow> 'v \<Rightarrow> 'm \<Rightarrow> 'm"
    and emplace :: "'k \<Rightarrow> 'v \<Rightarrow> 'm \<Rightarrow> 'm"
    and modify :: "'k \<Rightarrow> ('v \<Rightarrow> 'v) \<Rightarrow> 'm \<Rightarrow> 'm"
    and erase :: "'k \<Rightarrow> 'm \<Rightarrow> 'm"
    and elems :: "'m \<Rightarrow> ('k \<times> 'v) list"
    and ok :: "'m \<Rightarrow> bool"
  assumes find_put: "find (put k v m) = (find m)(k \<mapsto> v)"
    and find_emplace:
      "find (emplace k v m) = (case find m k of None \<Rightarrow> (find m)(k \<mapsto> v) | Some _ \<Rightarrow> find m)"
    and find_modify: "find (modify k f m) = (find m)(k := map_option f (find m k))"
    and find_erase: "find (erase k m) = (find m)(k := None)"
    and ok_put: "ok m \<Longrightarrow> ok (put k v m)"
    and ok_emplace: "ok m \<Longrightarrow> ok (emplace k v m)"
    and ok_modify: "ok m \<Longrightarrow> ok (modify k f m)"
    and ok_erase: "ok m \<Longrightarrow> ok (erase k m)"
    and elems_distinct: "ok m \<Longrightarrow> distinct (map fst (elems m))"
    and elems_find: "ok m \<Longrightarrow> (k, v) \<in> set (elems m) \<longleftrightarrow> find m k = Some v"
begin

lemma num_card:
  assumes "ok m"
  shows "num_entries P (elems m) = card {k. \<exists>v. find m k = Some v \<and> P k v}"
proof -
  let ?xs = "filter (\<lambda>(k, v). P k v) (elems m)"
  have "distinct (map fst ?xs)"
    using elems_distinct [OF assms] by (rule distinct_map_filter)
  then have "length ?xs = card (set (map fst ?xs))"
    by (metis distinct_card length_map)
  moreover have "set (map fst ?xs) = {k. \<exists>v. find m k = Some v \<and> P k v}"
    using elems_find [OF assms] by (auto simp: image_iff)
  ultimately show ?thesis by (simp add: num_entries_def)
qed

lemma finite_found:
  assumes "ok m"
  shows "finite {k. \<exists>v. find m k = Some v \<and> P k v}"
proof -
  have "{k. \<exists>v. find m k = Some v \<and> P k v} \<subseteq> fst ` set (elems m)"
    using elems_find [OF assms] by (force simp: image_iff)
  then show ?thesis by (rule finite_subset) simp
qed

lemma num_cong:
  assumes "ok m" and "ok m'" and "\<And>k v. find m k = Some v \<Longrightarrow> P k v \<Longrightarrow> \<exists>v'. find m' k = Some v' \<and> Q k v'"
    and "\<And>k v. find m' k = Some v \<Longrightarrow> Q k v \<Longrightarrow> \<exists>v'. find m k = Some v' \<and> P k v'"
  shows "num_entries P (elems m) = num_entries Q (elems m')"
proof -
  have "{k. \<exists>v. find m k = Some v \<and> P k v} = {k. \<exists>v. find m' k = Some v \<and> Q k v}"
    using assms(3,4) by blast
  with assms(1,2) show ?thesis by (simp add: num_card)
qed

lemma num_mono:
  assumes "ok m" and "ok m'" and "\<And>k v. find m' k = Some v \<Longrightarrow> P k v \<Longrightarrow> \<exists>v'. find m k = Some v' \<and> P k v'"
  shows "num_entries P (elems m') \<le> num_entries P (elems m)"
  unfolding num_card [OF assms(1)] num_card [OF assms(2)]
  using assms(3) by (intro card_mono finite_found [OF assms(1)]) blast

lemma num_erase:
  assumes "ok m" and "find m k = Some v"
  shows "num_entries P (elems m) = num_entries P (elems (erase k m)) + of_bool (P k v)"
proof -
  let ?A = "{k. \<exists>v. find m k = Some v \<and> P k v}"
  have "{k'. \<exists>v. find (erase k m) k' = Some v \<and> P k' v} = ?A - {k}"
    by (auto simp: find_erase)
  moreover have "card ?A = card (?A - {k}) + of_bool (P k v)"
  proof (cases "P k v")
    case True
    with assms(2) have "k \<in> ?A" by simp
    with True card.remove [OF finite_found [OF assms(1)]] show ?thesis by simp
  next
    case False
    with assms(2) have "?A - {k} = ?A" by auto
    with False show ?thesis by simp
  qed
  ultimately show ?thesis
    using assms by (simp add: num_card ok_erase)
qed

lemma num_erase_None:
  assumes "ok m" and "find m k = None"
  shows "num_entries P (elems (erase k m)) = num_entries P (elems m)"
  using assms by (intro num_cong) (auto simp: ok_erase find_erase split: if_splits)

lemma num_put_new:
  assumes "ok m" and "find m k = None"
  shows "num_entries P (elems (put k v m)) = num_entries P (elems m) + of_bool (P k v)"
proof -
  have "num_entries P (elems (put k v m)) =
      num_entries P (elems (erase k (put k v m))) + of_bool (P k v)"
    using assms by (intro num_erase) (auto simp: ok_put find_put)
  also have "num_entries P (elems (erase k (put k v m))) = num_entries P (elems m)"
    using assms by (intro num_cong) (auto simp: ok_put ok_erase find_put find_erase split: if_splits)
  finally show ?thesis .
qed

lemma num_put_old:
  assumes "ok m" and "find m k = Some w"
  shows "num_entries P (elems (put k v m)) + of_bool (P k w) =
    num_entries P (elems m) + of_bool (P k v)"
proof -
  have "num_entries P (elems (put k v m)) =
      num_entries P (elems (erase k (put k v m))) + of_bool (P k v)"
    using assms by (intro num_erase) (auto simp: ok_put find_put)
  moreover have "num_entries P (elems (erase k (put k v m))) = num_entries P (elems (erase k m))"
    using assms by (intro num_cong) (auto simp: ok_put ok_erase find_put find_erase split: if_splits)
  moreover note num_erase [OF assms, of P]
  ultimately show ?thesis by simp
qed

lemma num_zero_iff:
  assumes "ok m"
  shows "num_entries P (elems m) = 0 \<longleftrightarrow> (\<forall>k v. find m k = Some v \<longrightarrow> \<not> P k v)"
  using finite_found [OF assms] by (auto simp: num_card [OF assms])

end

section \<open>Counters that follow a table\<close>

text \<open>
  A counter kept beside a table is right when it is the number of the entries of one
  kind. It stays right if it is increased with each new entry of that kind and decreased with
  each one erased, as long as it does not reach the bound of its type.
\<close>

locale census = hash_table +
  fixes tally :: "'c \<Rightarrow> nat"
    and inc :: "'c \<Rightarrow> 'c"
    and dec :: "'c \<Rightarrow> 'c"
    and bound :: nat
  assumes tally_inc: "tally c + 1 < bound \<Longrightarrow> tally (inc c) = tally c + 1"
    and tally_dec: "0 < tally c \<Longrightarrow> tally (dec c) = tally c - 1"
begin

lemma put_counted:
  assumes "ok m" and "find m k = None" and "P k v"
    and "tally c = num_entries P (elems m)" and "tally c + 1 < bound"
  shows "tally (inc c) = num_entries P (elems (put k v m))"
  using num_put_new [OF assms(1,2), of P v] tally_inc [OF assms(5)] assms(3,4) by simp

lemma erase_counted:
  assumes "ok m" and "find m k = Some v" and "P k v" and "tally c = num_entries P (elems m)"
  shows "0 < tally c" "tally (dec c) = num_entries P (elems (erase k m))"
  using num_erase [OF assms(1,2), of P] tally_dec [of c] assms(3,4) by simp_all

end

section \<open>The association list provides it\<close>

lemma um_find_simps [um_simps]:
  "um_find (um_set k v m) = (um_find m)(k \<mapsto> v)"
  "um_find (um_emplace k v m) =
    (case um_find m k of None \<Rightarrow> (um_find m)(k \<mapsto> v) | Some _ \<Rightarrow> um_find m)"
  "um_find (um_modify k f m) = (um_find m)(k := map_option f (um_find m k))"
  "um_find (um_erase k m) = (um_find m)(k := None)"
  by (auto simp: um_find_def um_set_def um_emplace_def um_modify_def um_erase_def fun_eq_iff
      update_conv' delete_conv' map_of_map_entry map_add_def split: option.split)

lemma um_ok_simps [um_simps]:
  "um_ok m \<Longrightarrow> um_ok (um_set k v m)"
  "um_ok m \<Longrightarrow> um_ok (um_emplace k v m)"
  "um_ok m \<Longrightarrow> um_ok (um_modify k f m)"
  "um_ok m \<Longrightarrow> um_ok (um_erase k m)"
  "um_ok []"
  by (auto simp: um_ok_def um_set_def um_emplace_def um_modify_def um_erase_def um_find_def
      distinct_update distinct_delete distinct_map_entry map_of_eq_None_iff
      split: option.split)

lemma um_find_Nil [um_simps]: "um_find [] k = None"
  by (simp add: um_find_def)

lemma um_find_elems: "um_ok m \<Longrightarrow> (k, v) \<in> set m \<longleftrightarrow> um_find m k = Some v"
  by (simp add: um_ok_def um_find_def map_of_eq_Some_iff)

interpretation um: hash_table um_find um_set um_emplace um_modify um_erase "\<lambda>m. m" um_ok
  by unfold_locales (auto simp: um_simps um_find_elems, simp add: um_ok_def)

end
