(* ===== verification/Watched_Stack_Trace_Info.thy ===== *)
theory Watched_Stack_Trace_Info
  imports Stack_Trace Cpp_Float Unordered_Map
begin

text \<open>
  \<^verbatim>\<open>alloc-counter/watched-stack-trace-info.h\<close>: the statistics kept for one stack trace, the
  verdict drawn from them, the decision whether to watch one more allocation, and the
  estimates the leak report prints. The counters keep their C++ widths. The static member
  \<^verbatim>\<open>countLiveCloselyWatchedAllocationsAllTraces\<close> is an argument.
\<close>

datatype Trilean = TUnknown | TTrue | TFalse

record WatchedStackTraceInfo =
  stackTrace :: StackTrace
  countTotalCloselyWatchedAllocationsEverCreated :: uint32
  countLiveCloselyWatchedAllocations :: uint32
  countLeakedCloselyWatchedAllocations :: uint32
  countTotalLeakedMemory :: uint64
  countSkippedAllocations :: uint64

definition WatchedStackTraceInfo_construct :: "StackTrace \<Rightarrow> WatchedStackTraceInfo" where
  "WatchedStackTraceInfo_construct st = \<lparr>stackTrace = st,
     countTotalCloselyWatchedAllocationsEverCreated = 0,
     countLiveCloselyWatchedAllocations = 0,
     countLeakedCloselyWatchedAllocations = 0,
     countTotalLeakedMemory = 0,
     countSkippedAllocations = 0\<rparr>"

definition countFinishedWatchedAllocations :: "WatchedStackTraceInfo \<Rightarrow> uint32" where
  "countFinishedWatchedAllocations w =
     countTotalCloselyWatchedAllocationsEverCreated w - countLiveCloselyWatchedAllocations w"

definition countTotalAllocations :: "WatchedStackTraceInfo \<Rightarrow> uint32" where
  "countTotalAllocations w = to_uint32
     (countSkippedAllocations w + to_uint64 (countTotalCloselyWatchedAllocationsEverCreated w))"

definition leakRatio :: "WatchedStackTraceInfo \<Rightarrow> cpp_float" where
  "leakRatio w = fdiv (float_of_nat (unat (countLeakedCloselyWatchedAllocations w)))
     (float_of_nat (unat (countFinishedWatchedAllocations w)))"

definition hasLeaks :: "Environment \<Rightarrow> WatchedStackTraceInfo \<Rightarrow> Trilean" where
  "hasLeaks env w =
     (if 0 < countLeakedCloselyWatchedAllocations w then TTrue
      else if enoughSamplesToProveNoLeak env \<le> countFinishedWatchedAllocations w then TFalse
      else TUnknown)"

definition needsMoreCloselyWatchedAllocations ::
  "Environment \<Rightarrow> uint32 \<Rightarrow> WatchedStackTraceInfo \<Rightarrow> bool" where
  "needsMoreCloselyWatchedAllocations env liveAllTraces w =
     (if maxLiveCloselyWatchedAllocationsPerTrace env \<le> countLiveCloselyWatchedAllocations w
      then False
      else if globalMaxLiveCloselyWatchedAllocations env \<le> liveAllTraces then False
      else hasLeaks env w \<noteq> TFalse)"

definition lostAllocationsEstimated :: "WatchedStackTraceInfo \<Rightarrow> cpp_float" where
  "lostAllocationsEstimated w =
     (if countFinishedWatchedAllocations w = 0 then Fin 0
      else fmul (float_of_nat (unat (countTotalAllocations w))) (leakRatio w))"

definition watchRate :: "WatchedStackTraceInfo \<Rightarrow> cpp_float" where
  "watchRate w = fdiv (float_of_nat (unat (countTotalCloselyWatchedAllocationsEverCreated w)))
     (float_of_nat (unat (countTotalAllocations w)))"

definition lostBytesEstimated :: "WatchedStackTraceInfo \<Rightarrow> cpp_float" where
  "lostBytesEstimated w = fdiv (float_of_nat (unat (countTotalLeakedMemory w))) (watchRate w)"

text \<open>
  The updates the allocation table makes on these counters: an allocation that is watched, one
  that is skipped, a watched one that is freed, and a watched one that is declared a leak.
\<close>

definition count_watched :: "WatchedStackTraceInfo \<Rightarrow> WatchedStackTraceInfo" where
  "count_watched w = w\<lparr>
     countLiveCloselyWatchedAllocations := countLiveCloselyWatchedAllocations w + 1,
     countTotalCloselyWatchedAllocationsEverCreated :=
       countTotalCloselyWatchedAllocationsEverCreated w + 1\<rparr>"

definition count_skipped :: "WatchedStackTraceInfo \<Rightarrow> WatchedStackTraceInfo" where
  "count_skipped w = w\<lparr>countSkippedAllocations := countSkippedAllocations w + 1\<rparr>"

definition count_freed :: "WatchedStackTraceInfo \<Rightarrow> WatchedStackTraceInfo" where
  "count_freed w = w\<lparr>
     countLiveCloselyWatchedAllocations := countLiveCloselyWatchedAllocations w - 1\<rparr>"

definition count_leaked :: "uint32 \<Rightarrow> WatchedStackTraceInfo \<Rightarrow> WatchedStackTraceInfo" where
  "count_leaked requested w = w\<lparr>
     countLeakedCloselyWatchedAllocations := countLeakedCloselyWatchedAllocations w + 1,
     countLiveCloselyWatchedAllocations := countLiveCloselyWatchedAllocations w - 1,
     countTotalLeakedMemory := countTotalLeakedMemory w + to_uint64 requested\<rparr>"

section \<open>Consistent counters\<close>

text \<open>
  Every allocation ever watched is live, leaked or freed: the three counts fit together
  without wrapping.
\<close>

definition info_ok :: "WatchedStackTraceInfo \<Rightarrow> bool" where
  "info_ok w \<longleftrightarrow> unat (countLeakedCloselyWatchedAllocations w)
     + unat (countLiveCloselyWatchedAllocations w)
     \<le> unat (countTotalCloselyWatchedAllocationsEverCreated w)"

definition freed_count :: "WatchedStackTraceInfo \<Rightarrow> nat" where
  "freed_count w = unat (countTotalCloselyWatchedAllocationsEverCreated w)
     - unat (countLeakedCloselyWatchedAllocations w) - unat (countLiveCloselyWatchedAllocations w)"

lemma info_ok_construct [simp]: "info_ok (WatchedStackTraceInfo_construct st)"
  by (simp add: info_ok_def WatchedStackTraceInfo_construct_def)

lemma finished_split:
  assumes "info_ok w"
  shows "unat (countFinishedWatchedAllocations w)
    = unat (countLeakedCloselyWatchedAllocations w) + freed_count w"
proof -
  have "unat (countFinishedWatchedAllocations w)
      = unat (countTotalCloselyWatchedAllocationsEverCreated w) - unat (countLiveCloselyWatchedAllocations w)"
    using assms unfolding countFinishedWatchedAllocations_def info_ok_def
    by (intro unat_sub) (simp add: word_le_nat_alt)
  with assms show ?thesis by (simp add: info_ok_def freed_count_def)
qed

lemma info_ok_watched:
  assumes "info_ok w" and "unat (countTotalCloselyWatchedAllocationsEverCreated w) + 1 < 2 ^ 32"
  shows "info_ok (count_watched w)"
  using assms by (auto simp: info_ok_def count_watched_def word_nat)

lemma info_ok_skipped: "info_ok w \<Longrightarrow> info_ok (count_skipped w)"
  by (simp add: info_ok_def count_skipped_def)

lemma info_ok_freed:
  "info_ok w \<Longrightarrow> 0 < unat (countLiveCloselyWatchedAllocations w) \<Longrightarrow> info_ok (count_freed w)"
  by (auto simp: info_ok_def count_freed_def word_nat)

lemma info_ok_leaked:
  assumes "info_ok w" and "0 < unat (countLiveCloselyWatchedAllocations w)"
  shows "info_ok (count_leaked n w)"
proof -
  have "unat (countLeakedCloselyWatchedAllocations w) + 1 < 2 ^ 32"
    using assms unat_lt_32 [of "countTotalCloselyWatchedAllocationsEverCreated w"]
    by (simp add: info_ok_def)
  with assms show ?thesis by (simp add: info_ok_def count_leaked_def word_nat)
qed

lemma live_after:
  "unat (countLiveCloselyWatchedAllocations w) + 1 < 2 ^ 32 \<Longrightarrow>
     unat (countLiveCloselyWatchedAllocations (count_watched w))
       = unat (countLiveCloselyWatchedAllocations w) + 1"
  "countLiveCloselyWatchedAllocations (count_skipped w) = countLiveCloselyWatchedAllocations w"
  "0 < unat (countLiveCloselyWatchedAllocations w) \<Longrightarrow>
     unat (countLiveCloselyWatchedAllocations (count_freed w))
       = unat (countLiveCloselyWatchedAllocations w) - 1"
  "0 < unat (countLiveCloselyWatchedAllocations w) \<Longrightarrow>
     unat (countLiveCloselyWatchedAllocations (count_leaked n w))
       = unat (countLiveCloselyWatchedAllocations w) - 1"
  by (simp_all add: count_watched_def count_skipped_def count_freed_def count_leaked_def word_nat)

lemma stackTrace_after [simp]:
  "stackTrace (count_watched w) = stackTrace w" "stackTrace (count_skipped w) = stackTrace w"
  "stackTrace (count_freed w) = stackTrace w" "stackTrace (count_leaked n w) = stackTrace w"
  "stackTrace (WatchedStackTraceInfo_construct st) = st"
  by (simp_all add: count_watched_def count_skipped_def count_freed_def count_leaked_def
      WatchedStackTraceInfo_construct_def)

section \<open>Verdicts and estimates\<close>

text \<open>
  The verdict on a stack trace follows the watched allocations that are over: leaky as
  soon as one leaked, not leaky exactly when none leaked and at least the configured number
  was freed, open otherwise.
\<close>

theorem hasLeaks_verdict:
  assumes "info_ok w"
  shows "hasLeaks env w =
    (if countLeakedCloselyWatchedAllocations w \<noteq> 0 then TTrue
     else if unat (enoughSamplesToProveNoLeak env) \<le> freed_count w then TFalse
     else TUnknown)"
  using finished_split [OF assms]
  by (auto simp: hasLeaks_def word_le_nat_alt word_neq_0_conv [symmetric])

definition sample_trace :: StackTrace where
  "sample_trace = \<lparr>m_returnAddresses = [4198400], m_hash = 4198400\<rparr>"

theorem hasLeaks_verdict_witness:
  "hasLeaks sample_env (WatchedStackTraceInfo_construct sample_trace
      \<lparr>countTotalCloselyWatchedAllocationsEverCreated := 7, countLiveCloselyWatchedAllocations := 2\<rparr>)
    = TFalse"
  by (subst hasLeaks_verdict)
    (simp_all add: info_ok_def freed_count_def WatchedStackTraceInfo_construct_def sample_env_def)

lemma leakRatio_cases:
  assumes "info_ok w"
  shows "(countFinishedWatchedAllocations w = 0 \<longrightarrow> is_nan (leakRatio w))
    \<and> (countFinishedWatchedAllocations w \<noteq> 0 \<longrightarrow>
        (\<exists>r. leakRatio w = Fin r \<and> 0 \<le> r \<and> r \<le> 1
          \<and> (r = 0 \<longleftrightarrow> countLeakedCloselyWatchedAllocations w = 0)
          \<and> (freed_count w = 0 \<longrightarrow> r = 1)))"
proof (intro conjI impI)
  let ?l = "unat (countLeakedCloselyWatchedAllocations w)"
  let ?f = "unat (countFinishedWatchedAllocations w)"
  note split = finished_split [OF assms]
  show "is_nan (leakRatio w)" if "countFinishedWatchedAllocations w = 0"
    using that split by (simp add: leakRatio_def float_of_nat_def is_nan_def)
  assume "countFinishedWatchedAllocations w \<noteq> 0"
  then have f: "0 < ?f" by (simp add: unat_gt_0)
  obtain r where r: "leakRatio w = Fin r" "0 \<le> r" "r \<le> 1" "r = 0 \<longleftrightarrow> ?l = 0"
    using float_div_ratio [of ?l ?f] f split unfolding leakRatio_def by auto
  moreover have "r = 1" if "freed_count w = 0"
  proof -
    have "fl single_prec (of_nat ?f) > 0" using f by (rule fl_nat_positive) simp
    then have "leakRatio w = Fin (fl single_prec 1)"
      using that split by (simp add: leakRatio_def float_of_nat_def)
    then show ?thesis using r(1) fl_of_nat [of 1 single_prec] by simp
  qed
  ultimately show "\<exists>r. leakRatio w = Fin r \<and> 0 \<le> r \<and> r \<le> 1
      \<and> (r = 0 \<longleftrightarrow> countLeakedCloselyWatchedAllocations w = 0)
      \<and> (freed_count w = 0 \<longrightarrow> r = 1)"
    by (auto simp: unat_eq_0)
qed

text \<open>
  The leak ratio is NaN exactly when no watched allocation is over; otherwise it is a
  number between 0 and 1 that is 0 exactly when none leaked and is 1 when none was freed,
  whatever the rounding of the float division does.
\<close>

theorem leakRatio_range:
  assumes "info_ok w"
  shows "(countFinishedWatchedAllocations w = 0 \<longrightarrow> is_nan (leakRatio w))
    \<and> (countFinishedWatchedAllocations w \<noteq> 0 \<longrightarrow>
        (\<exists>r. leakRatio w = Fin r \<and> 0 \<le> r \<and> r \<le> 1
          \<and> (r = 0 \<longleftrightarrow> countLeakedCloselyWatchedAllocations w = 0)
          \<and> (freed_count w = 0 \<longrightarrow> r = 1)))"
  by (rule leakRatio_cases [OF assms])

text \<open>The example of the documentation: 90 allocations of 1 MiB, 30 watched, half of them leaked.\<close>

definition readme_info :: WatchedStackTraceInfo where
  "readme_info = \<lparr>stackTrace = sample_trace, countTotalCloselyWatchedAllocationsEverCreated = 30,
     countLiveCloselyWatchedAllocations = 0, countLeakedCloselyWatchedAllocations = 15,
     countTotalLeakedMemory = 15728640, countSkippedAllocations = 60\<rparr>"

theorem leakRatio_range_witness:
  "\<exists>r. leakRatio readme_info = Fin r \<and> 0 \<le> r \<and> r \<le> 1 \<and> r \<noteq> 0"
  using leakRatio_range [of readme_info]
  by (auto simp: info_ok_def readme_info_def countFinishedWatchedAllocations_def)

text \<open>
  The extrapolation of the documentation's example: of 90 allocations of 1 MiB only 30
  are watched and 15 of those leak; the report estimates 45 lost allocations and 45 MiB.
\<close>

theorem readme_extrapolation:
  "lostAllocationsEstimated readme_info = Fin 45
   \<and> lostBytesEstimated readme_info = Fin (45 * 1024 * 1024)"
proof -
  have small: "fl single_prec 15 = 15" "fl single_prec 30 = 30" "fl single_prec 90 = 90"
    "fl single_prec 15728640 = 15728640" "fl single_prec (1 / 2) = 1 / 2" "fl single_prec 45 = 45"
    by code_simp+
  have third: "fl single_prec (1 / 3) = 11184811 / 33554432" by code_simp
  have quotient: "fl single_prec (527765581332480 / 11184811) = 47185920" by code_simp
  show ?thesis
    by (simp add: lostAllocationsEstimated_def lostBytesEstimated_def leakRatio_def watchRate_def
        countTotalAllocations_def countFinishedWatchedAllocations_def readme_info_def
        float_of_nat_def small third quotient)
qed

text \<open>
  C33. The total the estimates are scaled with is kept in 32 bits: when the watched and
  the skipped allocations of a trace add up to a multiple of 2 to the power 32, both estimates are zero, however
  much memory was found to leak.
\<close>

theorem estimates_lost_to_truncation:
  assumes "unat (countSkippedAllocations w)
      + unat (countTotalCloselyWatchedAllocationsEverCreated w) = m * 2 ^ 32"
    and "m < 2 ^ 32" and "countTotalCloselyWatchedAllocationsEverCreated w \<noteq> 0" and "info_ok w"
  shows "lostBytesEstimated w = Fin 0 \<and> lostAllocationsEstimated w = Fin 0"
proof -
  let ?s = "countSkippedAllocations w + to_uint64 (countTotalCloselyWatchedAllocationsEverCreated w)"
  have "unat ?s = m * 2 ^ 32"
    using assms(1,2) by (subst unat_add_no_wrap) simp_all
  then have "unat (to_uint32 ?s) = 0" by (simp add: unat_to_uint32)
  then have total: "countTotalAllocations w = 0"
    by (simp add: countTotalAllocations_def unat_eq_0)
  have "0 < fl single_prec (of_nat (unat (countTotalCloselyWatchedAllocationsEverCreated w)))"
    using assms(3) by (intro fl_nat_positive) (simp_all add: unat_gt_0)
  then have "watchRate w = Infinity"
    by (simp add: watchRate_def total float_of_nat_def)
  moreover have "lostAllocationsEstimated w = Fin 0"
    using leakRatio_cases [OF assms(4)]
    by (auto simp: lostAllocationsEstimated_def total float_of_nat_def)
  ultimately show ?thesis by (simp add: lostBytesEstimated_def float_of_nat_def)
qed

theorem estimates_lost_to_truncation_witness:
  "lostBytesEstimated (readme_info\<lparr>countSkippedAllocations := 4294967266\<rparr>) = Fin 0"
  using estimates_lost_to_truncation [of "readme_info\<lparr>countSkippedAllocations := 4294967266\<rparr>" 1]
  by (simp add: readme_info_def info_ok_def)

end
