(* ===== verification/Callstack_Fingerprint.thy ===== *)
theory Callstack_Fingerprint
  imports Prelude
begin

text \<open>
  \<^verbatim>\<open>alloc-counter/callstack-fingerprint.h\<close>: the 32-bit number that stands for a call path,
  computed from the stack pointer, the return address and the class of the requested size.
\<close>

type_synonym CallstackFingerprint = uint32

definition pointerToInt :: "ptr \<Rightarrow> uint32" where
  "pointerToInt p = to_uint32 p"

definition sizeClass :: "uint32 \<Rightarrow> uint32" where
  "sizeClass allocationSize =
     (if allocationSize < 100 then allocationSize
      else if allocationSize < 2048 then 769
      else 49157)"

definition computeCallstackFingerprint :: "ptr \<Rightarrow> ptr \<Rightarrow> uint32 \<Rightarrow> CallstackFingerprint" where
  "computeCallstackFingerprint approximateStackPointer returnAddress allocationSize =
     (push_bit 1 (pointerToInt approximateStackPointer) XOR pointerToInt returnAddress)
       XOR (sizeClass allocationSize * 786433)"

section \<open>Which call paths share a fingerprint\<close>

lemma xor_left_cancel: "a XOR b = a XOR c \<longleftrightarrow> b = (c :: 'a::len word)"
  by (metis xor.assoc xor_self_eq xor.left_neutral)

lemma xor_right_cancel: "a XOR c = b XOR c \<longleftrightarrow> a = (b :: 'a::len word)"
  by (metis xor.commute xor_left_cancel)

text \<open>The multiplier is odd, so multiplying by it loses nothing: it has an inverse.\<close>

lemma multiplier_inverse: "(x * 786433) * 4294180865 = (x :: uint32)"
proof -
  have "(786433 * 4294180865 :: uint32) = 1" by simp
  then show ?thesis by (metis mult.assoc mult.right_neutral)
qed

lemma multiplier_cancel: "x * 786433 = y * 786433 \<longleftrightarrow> x = (y :: uint32)"
  by (metis multiplier_inverse)

lemma sizeClass_eq_iff:
  "sizeClass n = sizeClass m \<longleftrightarrow>
     n = m \<or> (100 \<le> n \<and> n < 2048 \<and> 100 \<le> m \<and> m < 2048) \<or> (2048 \<le> n \<and> 2048 \<le> m)"
  by (auto simp: sizeClass_def word_less_nat_alt word_le_nat_alt)

text \<open>
  On one call path (same stack pointer and return address) two requests share a
  fingerprint exactly when they are equal, or both lie in the middle class (100 to 2047), or
  both in the large class: the two arbitrary class numbers collide with no small size
  and the final mixing loses nothing.
\<close>

theorem fingerprint_size_classes:
  "computeCallstackFingerprint sp ra n = computeCallstackFingerprint sp ra m \<longleftrightarrow>
     n = m \<or> (100 \<le> n \<and> n < 2048 \<and> 100 \<le> m \<and> m < 2048) \<or> (2048 \<le> n \<and> 2048 \<le> m)"
  by (simp add: computeCallstackFingerprint_def xor_left_cancel multiplier_cancel sizeClass_eq_iff)

lemma push_bit_1_eq_iff:
  "push_bit 1 (to_uint32 p) = push_bit 1 (to_uint32 q) \<longleftrightarrow> take_bit 31 p = take_bit 31 q"
proof
  assume eq: "push_bit 1 (to_uint32 p) = push_bit 1 (to_uint32 q)"
  show "take_bit 31 p = take_bit 31 q"
  proof (rule bit_word_eqI)
    fix n assume "n < LENGTH(64)"
    have "bit (push_bit 1 (to_uint32 p)) (Suc n) = bit (push_bit 1 (to_uint32 q)) (Suc n)"
      by (simp only: eq)
    then show "bit (take_bit 31 p) n = bit (take_bit 31 q) n"
      unfolding bit_push_bit_iff by (auto simp: bit_simps)
  qed
next
  assume eq: "take_bit 31 p = take_bit 31 q"
  show "push_bit 1 (to_uint32 p) = push_bit 1 (to_uint32 q)"
  proof (rule bit_word_eqI)
    fix n assume "n < LENGTH(32)"
    have "bit (take_bit 31 p) (n - 1) = bit (take_bit 31 q) (n - 1)" using eq by simp
    then show "bit (push_bit 1 (to_uint32 p)) n = bit (push_bit 1 (to_uint32 q)) n"
      unfolding bit_push_bit_iff using \<open>n < LENGTH(32)\<close> by (auto simp: bit_simps)
  qed
qed

text \<open>
  How much of an address survives: two stack pointers give the same fingerprint exactly
  when their low 31 bits agree, two return addresses exactly when their low 32 bits agree.
\<close>

theorem fingerprint_address_bits:
  "(computeCallstackFingerprint sp ra n = computeCallstackFingerprint sp' ra n
      \<longleftrightarrow> take_bit 31 sp = take_bit 31 sp')
   \<and> (computeCallstackFingerprint sp ra n = computeCallstackFingerprint sp ra' n
      \<longleftrightarrow> to_uint32 ra = to_uint32 ra')"
  unfolding computeCallstackFingerprint_def pointerToInt_def xor_left_cancel xor_right_cancel
    push_bit_1_eq_iff by simp

end
