(* ===== verification/Allocation_Stats.thy ===== *)
theory Allocation_Stats
  imports Cpp_Float
begin

text \<open>
  \<^verbatim>\<open>alloc-counter/allocation-stats.h\<close> and \<^verbatim>\<open>allocation-stats.cpp\<close>: the global counters and the
  time at which tracking started. The counters are unsigned long (64 bits).
\<close>

record AllocationStats =
  allocationCount :: uint64
  allocationWithSuspiciousFingerprintCount :: uint64
  freeCount :: uint64
  reallocCount :: uint64
  timeWatchEnabled :: rat
  stats_enabled :: bool

definition initialStats :: AllocationStats where
  "initialStats = \<lparr>allocationCount = 0, allocationWithSuspiciousFingerprintCount = 0,
     freeCount = 0, reallocCount = 0, timeWatchEnabled = -1, stats_enabled = False\<rparr>"

text \<open>
  The clock reading (seconds, nanoseconds) of CLOCK_MONOTONIC as a double.
\<close>

definition getTime :: "nat \<Rightarrow> nat \<Rightarrow> rat" where
  "getTime tv_sec tv_nsec =
     fl double_prec (fl double_prec (of_nat tv_sec) + fl double_prec (fl double_prec (of_nat tv_nsec) / 10 ^ 9))"

definition ensureEnabled :: "rat \<Rightarrow> AllocationStats \<Rightarrow> AllocationStats" where
  "ensureEnabled now s =
     (if \<not> stats_enabled s then s\<lparr>stats_enabled := True, timeWatchEnabled := now\<rparr> else s)"

lemma ensureEnabled_idem [simp]:
  "ensureEnabled t' (ensureEnabled t s) = ensureEnabled t s"
  by (simp add: ensureEnabled_def)

lemma ensureEnabled_simps [simp]:
  "allocationCount (ensureEnabled t s) = allocationCount s"
  "allocationWithSuspiciousFingerprintCount (ensureEnabled t s)
     = allocationWithSuspiciousFingerprintCount s"
  "freeCount (ensureEnabled t s) = freeCount s"
  "reallocCount (ensureEnabled t s) = reallocCount s"
  "stats_enabled (ensureEnabled t s)"
  by (simp_all add: ensureEnabled_def)


end
