(* ===== verification/Library_Context.thy ===== *)
theory Library_Context
  imports Prelude
begin

text \<open>
  \<^verbatim>\<open>common/library-context.h\<close>: a thread-local flag that is set while an object of the class
  lives. The model passes the flag of the calling thread; the constructor and the destructor
  are the two transitions, with their assertions.
\<close>

definition inLibrary :: "bool \<Rightarrow> bool" where
  "inLibrary flag = flag"

definition LibraryContext_construct :: "bool \<Rightarrow> bool outcome" where
  "LibraryContext_construct flag = andThen (check (\<not> flag) AssertionFailed) (\<lambda>_. Inr True)"

definition LibraryContext_destroy :: "bool \<Rightarrow> bool outcome" where
  "LibraryContext_destroy flag = andThen (check flag AssertionFailed) (\<lambda>_. Inr False)"

text \<open>The scope of a local object: constructor, body, destructor.\<close>

definition in_scope :: "bool \<Rightarrow> (bool \<Rightarrow> 'a outcome) \<Rightarrow> ('a \<times> bool) outcome" where
  "in_scope flag body =
     andThen (LibraryContext_construct flag) (\<lambda>f.
     andThen (body f) (\<lambda>r.
     andThen (LibraryContext_destroy f) (\<lambda>f'. Inr (r, f'))))"

lemma in_scope_simps [simp]:
  "in_scope False body = andThen (body True) (\<lambda>r. Inr (r, False))"
  "in_scope True body = Inl AssertionFailed"
  by (simp_all add: in_scope_def LibraryContext_construct_def LibraryContext_destroy_def)

text \<open>
  Library contexts do not nest: opening one inside another fails its assertion, and a
  scope entered from outside runs its body with the flag set and leaves the flag clear.
\<close>

theorem library_context_nesting:
  "in_scope flag (\<lambda>f. in_scope f body) = Inl AssertionFailed
    \<and> in_scope flag body' = (if flag then Inl AssertionFailed
        else andThen (body' True) (\<lambda>r. Inr (r, False)))"
  by (cases flag) simp_all

end
