(* ===== verification/Comm_Memory.thy ===== *)
theory Comm_Memory
  imports Prelude
begin

text \<open>
  \<^verbatim>\<open>alloc-counter/comm-memory.h\<close>, \<^verbatim>\<open>alloc-counter/comm-memory.cpp\<close> and the command
  \<^verbatim>\<open>alloc-counter-start\<close>: the four-byte file through which the user switches tracking on.
  The results of open, write, mmap, fopen and fwrite are arguments. The enumeration has the
  underlying type int32, so the cell can hold any 32-bit value.
\<close>

type_synonym WatchState = "32 word"

abbreviation (input) NotWatching :: WatchState where "NotWatching \<equiv> 0"
abbreviation (input) Watching :: WatchState where "Watching \<equiv> 1"

datatype CommPointer = DummyArray | MappedFile | BadPointer

record CommMemory =
  dummyCommMemory :: WatchState
  commFile :: "WatchState option"
  commPointer :: CommPointer

definition initialCommMemory :: "WatchState option \<Rightarrow> CommMemory" where
  "initialCommMemory oldFile =
     \<lparr>dummyCommMemory = NotWatching, commFile = oldFile, commPointer = DummyArray\<rparr>"

definition getWatchState :: "CommMemory \<Rightarrow> WatchState outcome" where
  "getWatchState c =
     (case commPointer c of
        DummyArray \<Rightarrow> Inr (dummyCommMemory c)
      | MappedFile \<Rightarrow> (case commFile c of None \<Rightarrow> Inl NullAccess | Some w \<Rightarrow> Inr w)
      | BadPointer \<Rightarrow> Inl NullAccess)"

definition MAP_FAILED :: ptr where
  "MAP_FAILED = - 1"

definition initCommMemory :: "int \<Rightarrow> int \<Rightarrow> ptr \<Rightarrow> CommMemory \<Rightarrow> CommMemory outcome" where
  "initCommMemory fd written mapped c =
     (if fd = -1 then Inl Aborted
      else if written \<noteq> 4 then Inl Aborted
      else let c' = c\<lparr>commFile := Some NotWatching,
                      commPointer := (if mapped = MAP_FAILED then BadPointer else MappedFile)\<rparr>
           in if mapped = nullptr then Inl Exited else Inr c')"

definition allocCounterStart :: "bool \<Rightarrow> int \<Rightarrow> CommMemory \<Rightarrow> CommMemory outcome" where
  "allocCounterStart opened written c =
     (if \<not> opened then Inl Exited
      else if written \<noteq> 1 then Inl Exited
      else Inr (c\<lparr>commFile := Some 1\<rparr>))"

text \<open>
  The start signal arrives: once the library is initialised on a successful mapping, the
  watch state reads NotWatching, and after a successful run of the start command in another
  process it reads Watching.
\<close>

theorem start_signal:
  assumes "initCommMemory fd written mapped c = Inr c1" and "mapped \<noteq> MAP_FAILED"
    and "allocCounterStart True 1 c1 = Inr c2"
  shows "getWatchState c1 = Inr NotWatching \<and> getWatchState c2 = Inr Watching"
  using assms
  by (auto simp: initCommMemory_def allocCounterStart_def getWatchState_def Let_def
      split: if_splits)

theorem start_signal_witness:
  "getWatchState (initialCommMemory None\<lparr>commFile := Some 0, commPointer := MappedFile\<rparr>)
      = Inr NotWatching
   \<and> getWatchState (initialCommMemory None\<lparr>commFile := Some 1, commPointer := MappedFile\<rparr>)
      = Inr Watching"
  by (rule start_signal [where fd = 3 and written = 4 and mapped = 4096
        and c = "initialCommMemory None"])
    (simp_all add: initCommMemory_def allocCounterStart_def initialCommMemory_def MAP_FAILED_def)

text \<open>
  A failed mapping goes unnoticed: mmap reports failure with MAP_FAILED, the code compares
  with the null pointer, so initialisation succeeds and the next read of the watch state, in
  the next allocation of the program, is an invalid access.
\<close>

theorem init_map_failed:
  "initCommMemory 3 4 MAP_FAILED c = Inr (c\<lparr>commFile := Some NotWatching, commPointer := BadPointer\<rparr>)
   \<and> getWatchState (c\<lparr>commFile := Some NotWatching, commPointer := BadPointer\<rparr>) = Inl NullAccess"
  by (simp add: initCommMemory_def getWatchState_def MAP_FAILED_def)

end
