(* ===== verification/C_Heap.thy ===== *)
theory C_Heap
  imports Prelude
begin

text \<open>
  The memory the wrapped allocation functions hand out: the live blocks with their sizes and
  the bytes of the address space. The C library's memory functions the program calls, bzero
  and memcpy, act on the bytes and are undefined outside a live block. The allocation functions
  themselves (glibc's) are not defined here: they are arguments of the model, state
  transformers on this heap, and what the proofs use of them are the predicates below. The
  field \<open>errorCode\<close> is the local variable of that name in the posix_memalign wrapper, which the
  allocation function it passes on captures by reference.
\<close>

record heap =
  blocks :: "ptr \<rightharpoonup> nat"
  bytes :: "ptr \<Rightarrow> 8 word"
  errorCode :: int

type_synonym allocator = "heap \<Rightarrow> ptr \<times> heap"

definition in_block :: "heap \<Rightarrow> ptr \<Rightarrow> nat \<Rightarrow> bool" where
  "in_block h p n = (case blocks h p of None \<Rightarrow> False | Some s \<Rightarrow> n \<le> s)"

fun set_bytes :: "ptr \<Rightarrow> 8 word list \<Rightarrow> (ptr \<Rightarrow> 8 word) \<Rightarrow> ptr \<Rightarrow> 8 word" where
  "set_bytes p [] f = f"
| "set_bytes p (b # bs) f = set_bytes (p + 1) bs (f(p := b))"

definition get_bytes :: "ptr \<Rightarrow> nat \<Rightarrow> (ptr \<Rightarrow> 8 word) \<Rightarrow> 8 word list" where
  "get_bytes p n f = map (\<lambda>i. f (p + of_nat i)) [0..<n]"

definition bzero :: "ptr \<Rightarrow> nat \<Rightarrow> heap \<Rightarrow> heap outcome" where
  "bzero p n h =
     (if p = nullptr then Inl NullAccess
      else if \<not> in_block h p n then Inl OutOfBounds
      else Inr (h\<lparr>bytes := set_bytes p (replicate n 0) (bytes h)\<rparr>))"

definition memcpy :: "ptr \<Rightarrow> ptr \<Rightarrow> nat \<Rightarrow> heap \<Rightarrow> heap outcome" where
  "memcpy dst src n h =
     (if dst = nullptr \<or> src = nullptr then Inl NullAccess
      else if \<not> in_block h dst n \<or> \<not> in_block h src n then Inl OutOfBounds
      else Inr (h\<lparr>bytes := set_bytes dst (get_bytes src n (bytes h)) (bytes h)\<rparr>))"

text \<open>
  What the C standard and the manual page promise of an allocation call of \<open>n\<close> bytes: it fails
  with a null pointer and no effect, or it returns a pointer to a new block of at least
  \<open>n\<close> bytes that was not live before; no other block changes.
\<close>

definition allocates :: "nat \<Rightarrow> allocator \<Rightarrow> bool" where
  "allocates n f \<longleftrightarrow> (\<forall>h. let (p, h') = f h in
     (p = nullptr \<and> blocks h' = blocks h) \<or>
     (p \<noteq> nullptr \<and> blocks h p = None \<and> (\<exists>s \<ge> n. blocks h' = (blocks h)(p \<mapsto> s))))"

definition reallocates :: "nat \<Rightarrow> ptr \<Rightarrow> allocator \<Rightarrow> bool" where
  "reallocates n old f \<longleftrightarrow> (\<forall>h. let (p, h') = f h in
     (p = nullptr \<and> blocks h' = blocks h) \<or>
     (p \<noteq> nullptr \<and> (p = old \<or> blocks h p = None)
       \<and> (\<exists>s \<ge> n. blocks h' = (blocks h)(old := None, p \<mapsto> s))))"

definition frees :: "ptr \<Rightarrow> (heap \<Rightarrow> 'r \<times> heap) \<Rightarrow> bool" where
  "frees p f \<longleftrightarrow> (\<forall>h. blocks (snd (f h)) = (blocks h)(p := None))"

lemma allocates_cases:
  assumes "allocates n f" and "f h = (p, h')"
  obtains "p = nullptr" "blocks h' = blocks h"
  | s where "p \<noteq> nullptr" "blocks h p = None" "n \<le> s" "blocks h' = (blocks h)(p \<mapsto> s)"
proof -
  from assms(1) have "let (p, h') = f h in (p = nullptr \<and> blocks h' = blocks h) \<or>
     (p \<noteq> nullptr \<and> blocks h p = None \<and> (\<exists>s \<ge> n. blocks h' = (blocks h)(p \<mapsto> s)))"
    unfolding allocates_def by (rule spec)
  with assms(2) that show ?thesis by auto
qed

lemma reallocates_cases:
  assumes "reallocates n old f" and "f h = (p, h')"
  obtains "p = nullptr" "blocks h' = blocks h"
  | s where "p \<noteq> nullptr" "p = old \<or> blocks h p = None" "n \<le> s"
      "blocks h' = (blocks h)(old := None, p \<mapsto> s)"
proof -
  from assms(1) have "let (p, h') = f h in (p = nullptr \<and> blocks h' = blocks h) \<or>
     (p \<noteq> nullptr \<and> (p = old \<or> blocks h p = None)
       \<and> (\<exists>s \<ge> n. blocks h' = (blocks h)(old := None, p \<mapsto> s)))"
    unfolding reallocates_def by (rule spec)
  with assms(2) that show ?thesis by auto
qed

lemma blocks_bzero: "bzero p n h = Inr h' \<Longrightarrow> blocks h' = blocks h"
  by (auto simp: bzero_def split: if_splits)

lemma blocks_memcpy: "memcpy d s n h = Inr h' \<Longrightarrow> blocks h' = blocks h"
  by (auto simp: memcpy_def split: if_splits)

lemma set_bytes_apply:
  "length bs \<le> 2 ^ 64 \<Longrightarrow>
     set_bytes p bs f a = (if unat (a - p) < length bs then bs ! unat (a - p) else f a)"
proof (induction p bs f rule: set_bytes.induct)
  case (2 p b bs f)
  have step: "set_bytes p (b # bs) f a =
      (if unat (a - (p + 1)) < length bs then bs ! unat (a - (p + 1)) else (f(p := b)) a)"
    using 2 by (simp del: fun_upd_apply)
  show ?case
  proof (cases "a = p")
    case True
    have "unat (p - (p + 1)) = 2 ^ 64 - 1" by (simp add: unsigned_minus_1_eq_mask mask_eq_exp_minus_1)
    then have "\<not> unat (p - (p + 1)) < length bs" using 2(2) by simp
    with True show ?thesis unfolding step by simp
  next
    case False
    then have "0 < unat (a - p)" by (simp add: unat_gt_0)
    then have "unat (a - p) = Suc (unat (a - p - 1))" by (simp add: unat_pred)
    then have "unat (a - p) = Suc (unat (a - (p + 1)))" by (simp add: diff_diff_eq)
    with False show ?thesis unfolding step by simp
  qed
qed simp

lemma bzero_zeroes:
  assumes "bzero p n h = Inr h'" and "i < n" and "n \<le> 2 ^ 64"
  shows "bytes h' (p + of_nat i) = 0"
proof -
  have "unat (of_nat i :: ptr) = i" using assms(2,3) by (simp add: unsigned_of_nat take_bit_nat_eq_self)
  with assms show ?thesis by (auto simp: bzero_def set_bytes_apply split: if_splits)
qed

text \<open>A first-fit instance, used where a concrete allocator is needed.\<close>

definition alloc_at :: "ptr \<Rightarrow> nat \<Rightarrow> allocator" where
  "alloc_at p n h = (if p \<noteq> nullptr \<and> blocks h p = None
     then (p, h\<lparr>blocks := (blocks h)(p \<mapsto> n)\<rparr>) else (nullptr, h))"

lemma allocates_alloc_at: "allocates n (alloc_at p n)"
  by (auto simp: allocates_def alloc_at_def)

definition realloc_at :: "ptr \<Rightarrow> ptr \<Rightarrow> nat \<Rightarrow> allocator" where
  "realloc_at old p n h = (if p \<noteq> nullptr \<and> (p = old \<or> blocks h p = None)
     then (p, h\<lparr>blocks := (blocks h)(old := None, p \<mapsto> n)\<rparr>) else (nullptr, h))"

lemma reallocates_realloc_at: "reallocates n old (realloc_at old p n)"
  by (auto simp: reallocates_def realloc_at_def)

definition release :: "ptr \<Rightarrow> heap \<Rightarrow> unit \<times> heap" where
  "release p h = ((), h\<lparr>blocks := (blocks h)(p := None)\<rparr>)"

lemma frees_release: "frees p (release p)"
  by (simp add: frees_def release_def)

end
