(* ===== verification/Allocation_Table.thy ===== *)
theory Allocation_Table
  imports Watched_Stack_Trace_Info Callstack_Fingerprint Allocation_Stats Library_Context
    Comm_Memory C_Heap
begin

text \<open>
  \<^verbatim>\<open>alloc-counter/allocation-table.h\<close>: the table of tracked allocations and the operations the
  malloc wrappers and the patrol thread call on it. Each operation runs with the table's mutex
  held, so it is one state transformer. A reference to a WatchedStackTraceInfo is the pair of
  keys under which the object lives in the two nested maps, whose elements are never removed
  and never move. The preferred allocator, reallocator and free function are
  arguments, as in the code; memalign, the two clocks and the captured stack trace come from
  the record of the calling thread's surroundings.
\<close>

section \<open>Data\<close>

type_synonym InfoRef = "CallstackFingerprint \<times> StackTrace"

record Allocation =
  alloc_memory :: ptr
  requestedSize :: uint32
  deadline :: uint32

record LightAllocation = Allocation +
  fingerprint :: CallstackFingerprint

datatype WatchedState = NotYetSuspicious | Suspicious

record CloselyWatchedAllocation = Allocation +
  watched_state :: WatchedState
  allocationTime :: uint32
  watchedStackTraceInfo :: InfoRef

definition actualSize :: "Environment \<Rightarrow> CloselyWatchedAllocation \<Rightarrow> uint32" where
  "actualSize env a = roundUpToPageMultiple env (requestedSize a)"

type_synonym SuspiciousStackTracesTable = "(StackTrace, WatchedStackTraceInfo) unordered_map"

definition getOrCreate :: "StackTrace \<Rightarrow> SuspiciousStackTracesTable \<Rightarrow> SuspiciousStackTracesTable" where
  "getOrCreate trace t = um_emplace trace (WatchedStackTraceInfo_construct trace) t"

type_synonym SuspiciousFingerprintTable =
  "(CallstackFingerprint, SuspiciousStackTracesTable) unordered_map"

definition addSuspiciousFingerprint ::
  "CallstackFingerprint \<Rightarrow> SuspiciousFingerprintTable \<Rightarrow> SuspiciousFingerprintTable" where
  "addSuspiciousFingerprint fp sus = um_emplace fp [] sus"

definition getSuspiciousStackTracesTable ::
  "CallstackFingerprint \<Rightarrow> SuspiciousFingerprintTable \<Rightarrow> SuspiciousStackTracesTable option" where
  "getSuspiciousStackTracesTable fp sus = um_find sus fp"

datatype ZeroFill = Unnecessary | Needed

definition NoAlignment :: uint32 where
  "NoAlignment = 1"

record AllocationTable =
  m_lightAllocationsByAddress :: "(ptr, LightAllocation) unordered_map"
  m_closelyWatchedAllocationsByAddress :: "(ptr, CloselyWatchedAllocation) unordered_map"
  m_suspiciousFingerprints :: SuspiciousFingerprintTable
  m_stats :: AllocationStats
  countLiveCloselyWatchedAllocationsAllTraces :: uint32

definition emptyTable :: AllocationTable where
  "emptyTable = \<lparr>m_lightAllocationsByAddress = [], m_closelyWatchedAllocationsByAddress = [],
     m_suspiciousFingerprints = [], m_stats = initialStats,
     countLiveCloselyWatchedAllocationsAllTraces = 0\<rparr>"

definition deref_info :: "AllocationTable \<Rightarrow> InfoRef \<Rightarrow> WatchedStackTraceInfo option" where
  "deref_info T r = (case um_find (m_suspiciousFingerprints T) (fst r) of None \<Rightarrow> None
     | Some traces \<Rightarrow> um_find traces (snd r))"

definition update_info ::
  "InfoRef \<Rightarrow> (WatchedStackTraceInfo \<Rightarrow> WatchedStackTraceInfo) \<Rightarrow> AllocationTable \<Rightarrow> AllocationTable" where
  "update_info r f T = T\<lparr>m_suspiciousFingerprints :=
     um_modify (fst r) (um_modify (snd r) f) (m_suspiciousFingerprints T)\<rparr>"

record Surroundings =
  environment :: Environment
  watchState :: WatchState
  time_now :: uint64
  clock_now :: rat
  current_trace :: StackTrace
  real_memalign_call :: "uint64 \<Rightarrow> uint64 \<Rightarrow> allocator"

record Process =
  table :: AllocationTable
  proc_heap :: heap
  thread_inLibrary :: bool

section \<open>Allocation\<close>

definition count_allocation :: "rat \<Rightarrow> AllocationTable \<Rightarrow> AllocationTable" where
  "count_allocation now T = (let s = ensureEnabled now (m_stats T)
     in T\<lparr>m_stats := s\<lparr>allocationCount := allocationCount s + 1\<rparr>\<rparr>)"

definition count_suspicious_allocation :: "AllocationTable \<Rightarrow> AllocationTable" where
  "count_suspicious_allocation T = T\<lparr>m_stats := (m_stats T)\<lparr>allocationWithSuspiciousFingerprintCount
     := allocationWithSuspiciousFingerprintCount (m_stats T) + 1\<rparr>\<rparr>"

definition track_light ::
  "Surroundings \<Rightarrow> ptr \<Rightarrow> uint32 \<Rightarrow> CallstackFingerprint \<Rightarrow> AllocationTable \<Rightarrow> AllocationTable" where
  "track_light w memory requested fp T = T\<lparr>m_lightAllocationsByAddress := um_set memory
     \<lparr>alloc_memory = memory, requestedSize = requested,
      deadline = to_uint32 (time_now w
        + to_uint64 (timeForAllocationToBecomeSuspicious (environment w))),
      fingerprint = fp\<rparr> (m_lightAllocationsByAddress T)\<rparr>"

definition track_closely ::
  "Surroundings \<Rightarrow> ptr \<Rightarrow> uint32 \<Rightarrow> InfoRef \<Rightarrow> AllocationTable \<Rightarrow> AllocationTable" where
  "track_closely w memory requested r T =
     (let T1 = update_info r count_watched T;
          T2 = T1\<lparr>countLiveCloselyWatchedAllocationsAllTraces :=
                 countLiveCloselyWatchedAllocationsAllTraces T1 + 1\<rparr>
      in T2\<lparr>m_closelyWatchedAllocationsByAddress := um_set memory
           \<lparr>alloc_memory = memory, requestedSize = requested,
            deadline = to_uint32 (time_now w) + timeForAllocationToBecomeSuspicious (environment w),
            watched_state = NotYetSuspicious, allocationTime = to_uint32 (time_now w),
            watchedStackTraceInfo = r\<rparr> (m_closelyWatchedAllocationsByAddress T2)\<rparr>)"

definition allocate_closely ::
  "Surroundings \<Rightarrow> uint32 \<Rightarrow> uint32 \<Rightarrow> ZeroFill \<Rightarrow> InfoRef \<Rightarrow> AllocationTable \<Rightarrow> heap \<Rightarrow>
     (ptr \<times> AllocationTable \<times> heap) outcome" where
  "allocate_closely w requested alignment zeroFill r T h =
     (let (memory, h1) = real_memalign_call w
            (to_uint64 (max alignment (pageSize (environment w))))
            (to_uint64 (roundUpToPageMultiple (environment w) requested)) h
      in if memory = nullptr then Inr (nullptr, T, h1)
         else andThen (if zeroFill = Needed then bzero memory (unat requested) h1 else Inr h1)
           (\<lambda>h2. Inr (memory, track_closely w memory requested r T, h2)))"

definition allocate_locked ::
  "Surroundings \<Rightarrow> uint32 \<Rightarrow> uint32 \<Rightarrow> CallstackFingerprint \<Rightarrow> allocator \<Rightarrow> ZeroFill \<Rightarrow>
     AllocationTable \<Rightarrow> heap \<Rightarrow> (ptr \<times> AllocationTable \<times> heap) outcome" where
  "allocate_locked w requested alignment fp preferredAllocator zeroFill T h =
     (let T1 = count_allocation (clock_now w) T in
      case getSuspiciousStackTracesTable fp (m_suspiciousFingerprints T1) of
        None \<Rightarrow>
          (let (memory, h1) = preferredAllocator h
           in if memory = nullptr then Inr (nullptr, T1, h1)
              else Inr (memory, track_light w memory requested fp T1, h1))
      | Some _ \<Rightarrow>
          (let T2 = count_suspicious_allocation T1;
               r = (fp, current_trace w);
               T3 = T2\<lparr>m_suspiciousFingerprints :=
                 um_modify fp (getOrCreate (current_trace w)) (m_suspiciousFingerprints T2)\<rparr>
           in case deref_info T3 r of
                None \<Rightarrow> Inl DanglingReference
              | Some info \<Rightarrow>
                  if \<not> needsMoreCloselyWatchedAllocations (environment w)
                         (countLiveCloselyWatchedAllocationsAllTraces T3) info
                  then (let T4 = update_info r count_skipped T3;
                            (memory, h1) = preferredAllocator h
                        in Inr (memory, T4, h1))
                  else allocate_closely w requested alignment zeroFill r T3 h))"

definition run_locked ::
  "(AllocationTable \<Rightarrow> heap \<Rightarrow> ('a \<times> AllocationTable \<times> heap) outcome) \<Rightarrow> Process \<Rightarrow>
     ('a \<times> Process) outcome" where
  "run_locked body p =
     andThen (in_scope (thread_inLibrary p) (\<lambda>_. body (table p) (proc_heap p)))
       (\<lambda>((r, T, h), flag). Inr (r, p\<lparr>table := T, proc_heap := h, thread_inLibrary := flag\<rparr>))"

definition bypass :: "Surroundings \<Rightarrow> Process \<Rightarrow> bool" where
  "bypass w p \<longleftrightarrow> inLibrary (thread_inLibrary p) \<or> watchState w = NotWatching"

definition call_directly :: "(heap \<Rightarrow> 'a \<times> heap) \<Rightarrow> Process \<Rightarrow> ('a \<times> Process) outcome" where
  "call_directly f p = (let (r, h) = f (proc_heap p) in Inr (r, p\<lparr>proc_heap := h\<rparr>))"

definition instrumentedAllocate ::
  "Surroundings \<Rightarrow> uint32 \<Rightarrow> uint32 \<Rightarrow> CallstackFingerprint \<Rightarrow> allocator \<Rightarrow> ZeroFill \<Rightarrow> Process \<Rightarrow>
     (ptr \<times> Process) outcome" where
  "instrumentedAllocate w requested alignment fp preferredAllocator zeroFill p =
     (if bypass w p then call_directly preferredAllocator p
      else run_locked (allocate_locked w requested alignment fp preferredAllocator zeroFill) p)"

section \<open>Reallocation\<close>

definition count_realloc :: "rat \<Rightarrow> AllocationTable \<Rightarrow> AllocationTable" where
  "count_realloc now T = (let s = ensureEnabled now (m_stats T)
     in T\<lparr>m_stats := s\<lparr>reallocCount := reallocCount s + 1\<rparr>\<rparr>)"

definition move_entry ::
  "ptr \<Rightarrow> ptr \<Rightarrow> ('a Allocation_scheme) \<Rightarrow> (ptr, 'a Allocation_scheme) unordered_map \<Rightarrow>
     (ptr, 'a Allocation_scheme) unordered_map" where
  "move_entry oldMemory newMemory a m =
     um_erase oldMemory (um_emplace newMemory a (um_modify oldMemory (\<lambda>_. a) m))"

definition reallocate_light ::
  "ptr \<Rightarrow> uint64 \<Rightarrow> allocator \<Rightarrow> LightAllocation \<Rightarrow> AllocationTable \<Rightarrow> heap \<Rightarrow>
     (ptr \<times> AllocationTable \<times> heap) outcome" where
  "reallocate_light oldMemory newRequestedSize preferredReallocator a T h =
     (let a1 = a\<lparr>requestedSize := to_uint32 newRequestedSize\<rparr>;
          light1 = um_modify oldMemory (\<lambda>_. a1) (m_lightAllocationsByAddress T);
          (newMemory, h1) = preferredReallocator h
      in if newMemory \<noteq> oldMemory
         then Inr (newMemory, T\<lparr>m_lightAllocationsByAddress :=
                move_entry oldMemory newMemory (a1\<lparr>alloc_memory := newMemory\<rparr>) light1\<rparr>, h1)
         else Inr (newMemory, T\<lparr>m_lightAllocationsByAddress := light1\<rparr>, h1))"

definition reallocate_closely ::
  "Surroundings \<Rightarrow> ptr \<Rightarrow> uint64 \<Rightarrow> CloselyWatchedAllocation \<Rightarrow> AllocationTable \<Rightarrow> heap \<Rightarrow>
     (ptr \<times> AllocationTable \<times> heap) outcome" where
  "reallocate_closely w oldMemory newRequestedSize a T h =
     (let env = environment w;
          oldActualSize = to_uint64 (roundUpToPageMultiple env (requestedSize a));
          newActualSize = to_uint64 (roundUpToPageMultiple env (to_uint32 newRequestedSize))
      in if newActualSize \<noteq> oldActualSize
         then (let (newMemory, h1) =
                     real_memalign_call w (to_uint64 (pageSize env)) newActualSize h
               in andThen (memcpy newMemory oldMemory (unat (requestedSize a)) h1) (\<lambda>h2.
                  let a1 = a\<lparr>requestedSize := to_uint32 newRequestedSize, alloc_memory := newMemory\<rparr>
                  in Inr (newMemory, T\<lparr>m_closelyWatchedAllocationsByAddress :=
                       move_entry oldMemory newMemory a1 (m_closelyWatchedAllocationsByAddress T)\<rparr>, h2)))
         else Inr (oldMemory, T\<lparr>m_closelyWatchedAllocationsByAddress :=
                um_modify oldMemory (\<lambda>a. a\<lparr>requestedSize := to_uint32 newRequestedSize\<rparr>)
                  (m_closelyWatchedAllocationsByAddress T)\<rparr>, h))"

definition reallocate_locked ::
  "Surroundings \<Rightarrow> ptr \<Rightarrow> uint64 \<Rightarrow> allocator \<Rightarrow> AllocationTable \<Rightarrow> heap \<Rightarrow>
     (ptr \<times> AllocationTable \<times> heap) outcome" where
  "reallocate_locked w oldMemory newRequestedSize preferredReallocator T h =
     (let T1 = count_realloc (clock_now w) T in
      case um_find (m_lightAllocationsByAddress T1) oldMemory of
        Some a \<Rightarrow> reallocate_light oldMemory newRequestedSize preferredReallocator a T1 h
      | None \<Rightarrow>
          (case um_find (m_closelyWatchedAllocationsByAddress T1) oldMemory of
             Some a \<Rightarrow> reallocate_closely w oldMemory newRequestedSize a T1 h
           | None \<Rightarrow> (let (m, h1) = preferredReallocator h in Inr (m, T1, h1))))"

definition instrumentedReallocate ::
  "Surroundings \<Rightarrow> ptr \<Rightarrow> uint64 \<Rightarrow> allocator \<Rightarrow> Process \<Rightarrow> (ptr \<times> Process) outcome" where
  "instrumentedReallocate w oldMemory newRequestedSize preferredReallocator p =
     (if bypass w p then call_directly preferredReallocator p
      else run_locked (reallocate_locked w oldMemory newRequestedSize preferredReallocator) p)"

section \<open>Freeing\<close>

definition count_free :: "rat \<Rightarrow> AllocationTable \<Rightarrow> AllocationTable" where
  "count_free now T = (let s = ensureEnabled now (m_stats T)
     in T\<lparr>m_stats := s\<lparr>freeCount := freeCount s + 1\<rparr>\<rparr>)"

definition untrack_closely :: "ptr \<Rightarrow> CloselyWatchedAllocation \<Rightarrow> AllocationTable \<Rightarrow> AllocationTable outcome" where
  "untrack_closely memory a T =
     (case deref_info T (watchedStackTraceInfo a) of
        None \<Rightarrow> Inl DanglingReference
      | Some _ \<Rightarrow>
          (let T1 = update_info (watchedStackTraceInfo a) count_freed T
           in Inr (T1\<lparr>countLiveCloselyWatchedAllocationsAllTraces :=
                        countLiveCloselyWatchedAllocationsAllTraces T1 - 1,
                      m_closelyWatchedAllocationsByAddress :=
                        um_erase memory (m_closelyWatchedAllocationsByAddress T1)\<rparr>)))"

definition untrack :: "ptr \<Rightarrow> AllocationTable \<Rightarrow> AllocationTable outcome" where
  "untrack memory T =
     (case um_find (m_lightAllocationsByAddress T) memory of
        Some _ \<Rightarrow> Inr (T\<lparr>m_lightAllocationsByAddress :=
                      um_erase memory (m_lightAllocationsByAddress T)\<rparr>)
      | None \<Rightarrow>
          (case um_find (m_closelyWatchedAllocationsByAddress T) memory of
             Some a \<Rightarrow> untrack_closely memory a T
           | None \<Rightarrow> Inr T))"

definition free_locked ::
  "Surroundings \<Rightarrow> ptr \<Rightarrow> (heap \<Rightarrow> 'r \<times> heap) \<Rightarrow> AllocationTable \<Rightarrow> heap \<Rightarrow>
     ('r \<times> AllocationTable \<times> heap) outcome" where
  "free_locked w memory freeFunction T h =
     andThen (untrack memory (count_free (clock_now w) T)) (\<lambda>T1.
       let (r, h1) = freeFunction h in Inr (r, T1, h1))"

text \<open>
  The free function captures a variable in which it may leave a result; the model returns that
  result, or None when the function was not called.
\<close>

definition instrumentedFree ::
  "Surroundings \<Rightarrow> ptr \<Rightarrow> (heap \<Rightarrow> 'r \<times> heap) \<Rightarrow> Process \<Rightarrow> ('r option \<times> Process) outcome" where
  "instrumentedFree w memory freeFunction p =
     (if memory = nullptr then Inr (None, p)
      else andThen
        (if bypass w p then call_directly freeFunction p
         else run_locked (free_locked w memory freeFunction) p)
        (\<lambda>(r, p'). Inr (Some r, p')))"

section \<open>The patrol thread's update\<close>

record FoundLeak =
  leak_stackTrace :: StackTrace
  leak_memory :: ptr
  leak_size :: uint32

fun patrol_light ::
  "uint32 \<Rightarrow> (ptr \<times> LightAllocation) list \<Rightarrow> SuspiciousFingerprintTable \<Rightarrow>
     (ptr, LightAllocation) unordered_map \<times> SuspiciousFingerprintTable" where
  "patrol_light now [] sus = ([], sus)"
| "patrol_light now ((k, a) # rest) sus =
     (if deadline a < now
      then patrol_light now rest (addSuspiciousFingerprint (fingerprint a) sus)
      else let (kept, sus') = patrol_light now rest sus in ((k, a) # kept, sus'))"

definition declare_leak :: "CloselyWatchedAllocation \<Rightarrow> AllocationTable \<Rightarrow> AllocationTable" where
  "declare_leak a T =
     (let T1 = update_info (watchedStackTraceInfo a) (count_leaked (requestedSize a)) T
      in T1\<lparr>countLiveCloselyWatchedAllocationsAllTraces :=
              countLiveCloselyWatchedAllocationsAllTraces T1 - 1\<rparr>)"

fun patrol_closely ::
  "Environment \<Rightarrow> uint32 \<Rightarrow> (ptr \<times> CloselyWatchedAllocation) list \<Rightarrow> AllocationTable \<Rightarrow> FoundLeak list \<Rightarrow>
     ((ptr, CloselyWatchedAllocation) unordered_map \<times> AllocationTable \<times> FoundLeak list) outcome" where
  "patrol_closely env now [] T leaks = Inr ([], T, leaks)"
| "patrol_closely env now ((k, a) # rest) T leaks =
     (if deadline a < now
      then (case watched_state a of
          NotYetSuspicious \<Rightarrow>
            andThen (patrol_closely env now rest T leaks) (\<lambda>(kept, T', leaks').
              Inr ((k, a\<lparr>watched_state := Suspicious,
                         deadline := now + closelyWatchedAllocationsAccessMaxInterval env\<rparr>) # kept,
                   T', leaks'))
        | Suspicious \<Rightarrow>
            (case deref_info T (watchedStackTraceInfo a) of
               None \<Rightarrow> Inl DanglingReference
             | Some info \<Rightarrow> patrol_closely env now rest (declare_leak a T)
                 (leaks @ [\<lparr>leak_stackTrace = stackTrace info, leak_memory = alloc_memory a,
                           leak_size = requestedSize a\<rparr>])))
      else andThen (patrol_closely env now rest T leaks) (\<lambda>(kept, T', leaks').
             Inr ((k, a) # kept, T', leaks')))"

definition patrolThreadUpdateAllocationStates ::
  "Environment \<Rightarrow> uint64 \<Rightarrow> AllocationTable \<Rightarrow> ((AllocationStats \<times> FoundLeak list) \<times> AllocationTable) outcome" where
  "patrolThreadUpdateAllocationStates env time T =
     (let now = to_uint32 time;
          (light, sus) = patrol_light now (m_lightAllocationsByAddress T) (m_suspiciousFingerprints T);
          T1 = T\<lparr>m_lightAllocationsByAddress := light, m_suspiciousFingerprints := sus\<rparr>
      in andThen (patrol_closely env now (m_closelyWatchedAllocationsByAddress T1) T1 [])
           (\<lambda>(kept, T2, leaks).
             let T3 = T2\<lparr>m_closelyWatchedAllocationsByAddress := kept\<rparr>
             in Inr ((m_stats T3, leaks), T3)))"

end
