(* ===== verification/Table_Invariant.thy ===== *)
theory Table_Invariant
  imports Allocation_Table
begin

text \<open>
  The invariant of the allocation table and its preservation by every operation of
  \<^verbatim>\<open>alloc-counter/allocation-table.h\<close>: entries are stored under their own address, references
  to statistics objects are never dangling, and every counter of live watched allocations (one
  per stack trace and the global one) is the number of table entries it stands for.
\<close>

section \<open>The invariant\<close>

text \<open>References are pairs of keys; quantifiers over them stay quantifiers over references.\<close>

declare split_paired_All [simp del] split_paired_Ex [simp del]

abbreviation light :: "AllocationTable \<Rightarrow> (ptr, LightAllocation) unordered_map" where
  "light \<equiv> m_lightAllocationsByAddress"

abbreviation closely :: "AllocationTable \<Rightarrow> (ptr, CloselyWatchedAllocation) unordered_map" where
  "closely \<equiv> m_closelyWatchedAllocationsByAddress"

abbreviation suspicious :: "AllocationTable \<Rightarrow> SuspiciousFingerprintTable" where
  "suspicious \<equiv> m_suspiciousFingerprints"

abbreviation live_count :: "WatchedStackTraceInfo \<Rightarrow> nat" where
  "live_count w \<equiv> unat (countLiveCloselyWatchedAllocations w)"

abbreviation global_count :: "AllocationTable \<Rightarrow> nat" where
  "global_count T \<equiv> unat (countLiveCloselyWatchedAllocationsAllTraces T)"

abbreviation has_ref :: "InfoRef \<Rightarrow> ptr \<Rightarrow> CloselyWatchedAllocation \<Rightarrow> bool" where
  "has_ref r k a \<equiv> watchedStackTraceInfo a = r"

definition maps_ok :: "AllocationTable \<Rightarrow> bool" where
  "maps_ok T \<longleftrightarrow> um_ok (light T) \<and> um_ok (closely T) \<and> um_ok (suspicious T)
     \<and> (\<forall>fp t. um_find (suspicious T) fp = Some t \<longrightarrow> um_ok t)"

definition keys_ok :: "AllocationTable \<Rightarrow> bool" where
  "keys_ok T \<longleftrightarrow> (\<forall>k a. um_find (light T) k = Some a \<longrightarrow> alloc_memory a = k)
     \<and> (\<forall>k a. um_find (closely T) k = Some a \<longrightarrow>
          alloc_memory a = k \<and> deref_info T (watchedStackTraceInfo a) \<noteq> None)"

definition census_ok :: "AllocationTable \<Rightarrow> bool" where
  "census_ok T \<longleftrightarrow>
     (\<forall>r info. deref_info T r = Some info \<longrightarrow> info_ok info \<and> stackTrace info = snd r
        \<and> live_count info = num_entries (has_ref r) (closely T))
     \<and> global_count T = num_entries (\<lambda>_ _. True) (closely T)"

definition table_ok :: "AllocationTable \<Rightarrow> bool" where
  "table_ok T \<longleftrightarrow> maps_ok T \<and> keys_ok T \<and> census_ok T"

lemmas table_ok_defs = table_ok_def maps_ok_def keys_ok_def census_ok_def

lemma table_ok_empty: "table_ok emptyTable"
  by (simp add: table_ok_defs emptyTable_def um_simps deref_info_def num_entries_def)

section \<open>Counters as censuses of the table\<close>

interpretation global: census um_find um_set um_emplace um_modify um_erase "\<lambda>m. m" um_ok
  unat "\<lambda>c :: uint32. c + 1" "\<lambda>c. c - 1" "2 ^ 32"
  by unfold_locales (simp_all add: word_nat)

interpretation freed: census um_find um_set um_emplace um_modify um_erase "\<lambda>m. m" um_ok
  live_count count_watched count_freed "2 ^ 32"
  by unfold_locales (simp_all add: live_after)

interpretation leaked: census um_find um_set um_emplace um_modify um_erase "\<lambda>m. m" um_ok
  live_count count_watched "count_leaked n" "2 ^ 32" for n
  by unfold_locales (simp_all add: live_after)

section \<open>References\<close>

lemma deref_update:
  "deref_info (update_info r f T) = (deref_info T)(r := map_option f (deref_info T r))"
  by (rule ext) (auto simp: deref_info_def update_info_def um_simps prod_eq_iff split: option.split)

lemma update_info_frame [simp]:
  "light (update_info r f T) = light T" "closely (update_info r f T) = closely T"
  "m_stats (update_info r f T) = m_stats T"
  "countLiveCloselyWatchedAllocationsAllTraces (update_info r f T)
     = countLiveCloselyWatchedAllocationsAllTraces T"
  by (simp_all add: update_info_def)

lemma deref_info_frame [simp]:
  "deref_info (T\<lparr>m_lightAllocationsByAddress := l\<rparr>) = deref_info T"
  "deref_info (T\<lparr>m_closelyWatchedAllocationsByAddress := c\<rparr>) = deref_info T"
  "deref_info (T\<lparr>m_stats := s\<rparr>) = deref_info T"
  "deref_info (T\<lparr>countLiveCloselyWatchedAllocationsAllTraces := n\<rparr>) = deref_info T"
  by (auto simp: deref_info_def fun_eq_iff)

lemma maps_ok_update: "maps_ok T \<Longrightarrow> maps_ok (update_info r f T)"
  by (auto simp: maps_ok_def update_info_def um_simps split: if_splits)

lemma counted_info:
  "table_ok T \<Longrightarrow> deref_info T r = Some info \<Longrightarrow>
     info_ok info \<and> stackTrace info = snd r \<and> live_count info = num_entries (has_ref r) (closely T)"
  unfolding table_ok_def census_ok_def by blast

lemma closely_entry:
  assumes "table_ok T" and "um_find (closely T) k = Some a"
  obtains info where "alloc_memory a = k" "deref_info T (watchedStackTraceInfo a) = Some info"
proof -
  from assms have "alloc_memory a = k \<and> deref_info T (watchedStackTraceInfo a) \<noteq> None"
    unfolding table_ok_def keys_ok_def by blast
  with that show ?thesis by blast
qed

lemma table_okI:
  assumes "maps_ok T" and "keys_ok T" and "global_count T = num_entries (\<lambda>_ _. True) (closely T)"
    and "\<And>r info. deref_info T r = Some info \<Longrightarrow> info_ok info \<and> stackTrace info = snd r
      \<and> live_count info = num_entries (has_ref r) (closely T)"
  shows "table_ok T"
  using assms unfolding table_ok_def census_ok_def by blast

lemma unreferenced_new:
  assumes "table_ok T" and "deref_info T r = None"
  shows "num_entries (has_ref r) (closely T) = 0"
proof -
  have "um_ok (closely T)" using assms(1) by (simp add: table_ok_defs)
  moreover have "\<forall>k a. um_find (closely T) k = Some a \<longrightarrow> watchedStackTraceInfo a \<noteq> r"
    using assms by (auto elim: closely_entry)
  ultimately show ?thesis by (simp add: um.num_zero_iff)
qed

section \<open>Counting statistics changes nothing\<close>

lemma count_frame [simp]:
  "light (count_allocation t T) = light T" "light (count_realloc t T) = light T"
  "light (count_free t T) = light T" "light (count_suspicious_allocation T) = light T"
  "closely (count_allocation t T) = closely T" "closely (count_realloc t T) = closely T"
  "closely (count_free t T) = closely T" "closely (count_suspicious_allocation T) = closely T"
  "suspicious (count_allocation t T) = suspicious T" "suspicious (count_realloc t T) = suspicious T"
  "suspicious (count_free t T) = suspicious T"
  "suspicious (count_suspicious_allocation T) = suspicious T"
  "global_count (count_allocation t T) = global_count T" "global_count (count_realloc t T) = global_count T"
  "global_count (count_free t T) = global_count T"
  "global_count (count_suspicious_allocation T) = global_count T"
  by (simp_all add: count_allocation_def count_realloc_def count_free_def
      count_suspicious_allocation_def Let_def)

lemma deref_count [simp]:
  "deref_info (count_allocation t T) = deref_info T" "deref_info (count_realloc t T) = deref_info T"
  "deref_info (count_free t T) = deref_info T"
  "deref_info (count_suspicious_allocation T) = deref_info T"
  by (simp_all add: count_allocation_def count_realloc_def count_free_def
      count_suspicious_allocation_def Let_def)

lemma table_ok_count [simp]:
  "table_ok (count_allocation t T) = table_ok T" "table_ok (count_realloc t T) = table_ok T"
  "table_ok (count_free t T) = table_ok T" "table_ok (count_suspicious_allocation T) = table_ok T"
  by (simp_all add: table_ok_defs)

section \<open>Each change of the table\<close>

lemma table_ok_light_set:
  assumes "table_ok T" and "alloc_memory a = k"
  shows "table_ok (T\<lparr>m_lightAllocationsByAddress := um_set k a (light T)\<rparr>)"
  using assms by (auto simp: table_ok_defs um_simps)

lemma table_ok_light_erase:
  assumes "table_ok T"
  shows "table_ok (T\<lparr>m_lightAllocationsByAddress := um_erase k (light T)\<rparr>)"
  using assms by (auto simp: table_ok_defs um_simps split: if_splits)

lemma table_ok_getOrCreate:
  fixes st :: StackTrace
  assumes "table_ok T" and "um_find (suspicious T) fp = Some traces"
  defines "T' \<equiv> T\<lparr>m_suspiciousFingerprints := um_modify fp (getOrCreate st) (suspicious T)\<rparr>"
  shows "table_ok T'" and "\<exists>info. deref_info T' (fp, st) = Some info"
    and "deref_info T' = (deref_info T)((fp, st) := Some (case deref_info T (fp, st) of
            None \<Rightarrow> WatchedStackTraceInfo_construct st | Some info \<Rightarrow> info))"
proof -
  show D: "deref_info T' = (deref_info T)((fp, st) := Some (case deref_info T (fp, st) of
            None \<Rightarrow> WatchedStackTraceInfo_construct st | Some info \<Rightarrow> info))"
    using assms(2)
    by (intro ext) (auto simp: deref_info_def T'_def um_simps getOrCreate_def prod_eq_iff split: option.split)
  then show "\<exists>info. deref_info T' (fp, st) = Some info" by simp
  have maps: "maps_ok T'"
    using assms(1,2) by (auto simp: T'_def table_ok_def maps_ok_def um_simps getOrCreate_def split: if_splits)
  have zero: "num_entries (has_ref (fp, st)) (closely T) = 0" if "deref_info T (fp, st) = None"
    using unreferenced_new [OF assms(1) that] .
  show "table_ok T'"
  proof (rule table_okI [OF maps])
    show "keys_ok T'"
      using assms(1) unfolding table_ok_def keys_ok_def D by (auto simp: T'_def)
    show "global_count T' = num_entries (\<lambda>_ _. True) (closely T')"
      using assms(1) by (simp add: T'_def table_ok_defs)
    fix r info assume r: "deref_info T' r = Some info"
    show "info_ok info \<and> stackTrace info = snd r \<and> live_count info = num_entries (has_ref r) (closely T')"
    proof (cases "deref_info T r")
      case None
      with r D have "r = (fp, st)" "info = WatchedStackTraceInfo_construct st"
        by (auto split: if_splits option.splits)
      with zero None show ?thesis by (simp add: T'_def WatchedStackTraceInfo_construct_def info_ok_def)
    next
      case (Some i)
      with r D have "info = i" by (auto split: if_splits)
      with counted_info [OF assms(1) Some] show ?thesis by (simp add: T'_def)
    qed
  qed
qed

lemma table_ok_update_info:
  assumes "table_ok T" and "\<And>info. info_ok info \<Longrightarrow> info_ok (f info)"
    and "\<And>info. stackTrace (f info) = stackTrace info"
    and "\<And>info. countLiveCloselyWatchedAllocations (f info) = countLiveCloselyWatchedAllocations info"
  shows "table_ok (update_info r f T)"
  using assms maps_ok_update [of T r f]
  unfolding table_ok_def keys_ok_def census_ok_def deref_update
  by (auto split: if_splits)

lemma table_ok_track_closely:
  assumes T: "table_ok T" and "deref_info T r = Some info" and "um_find (closely T) k = None"
    and "unat (countTotalCloselyWatchedAllocationsEverCreated info) + 1 < 2 ^ 32"
    and "live_count info + 1 < 2 ^ 32" and "global_count T + 1 < 2 ^ 32"
  shows "table_ok (track_closely w k n r T)"
proof -
  let ?T = "track_closely w k n r T"
  let ?e = "\<lparr>alloc_memory = k, requestedSize = n,
    deadline = to_uint32 (time_now w) + timeForAllocationToBecomeSuspicious (environment w),
    watched_state = NotYetSuspicious, allocationTime = to_uint32 (time_now w),
    watchedStackTraceInfo = r\<rparr>"
  have ok: "um_ok (closely T)" using T by (simp add: table_ok_defs)
  have C: "closely ?T = um_set k ?e (closely T)"
    and G: "countLiveCloselyWatchedAllocationsAllTraces ?T = countLiveCloselyWatchedAllocationsAllTraces T + 1"
    and L: "light ?T = light T"
    by (simp_all add: track_closely_def Let_def)
  have D: "deref_info ?T = (deref_info T)(r \<mapsto> count_watched info)"
    using assms(2) by (simp add: track_closely_def Let_def deref_update)
  note counted = counted_info [OF T]
  have "maps_ok ?T"
    using T maps_ok_update [of T r count_watched] ok
    by (auto simp: table_ok_def maps_ok_def track_closely_def Let_def um_simps)
  moreover have "keys_ok ?T"
    using T unfolding table_ok_def keys_ok_def D C L by (auto simp: um_simps)
  moreover have "global_count ?T = num_entries (\<lambda>_ _. True) (closely ?T)"
    unfolding C G using T ok assms(3,6)
    by (intro global.put_counted) (simp_all add: table_ok_defs)
  moreover have "info_ok i \<and> stackTrace i = snd r'
      \<and> live_count i = num_entries (has_ref r') (closely ?T)" if "deref_info ?T r' = Some i" for r' i
  proof (cases "r' = r")
    case True
    with that D have i: "i = count_watched info" by simp
    have "live_count i = num_entries (has_ref r) (closely ?T)"
      unfolding i C using counted [OF assms(2)] ok assms(3,5) by (intro freed.put_counted) simp_all
    with True i counted [OF assms(2)] assms(4) show ?thesis by (simp add: info_ok_watched)
  next
    case False
    with that D have "deref_info T r' = Some i" by simp
    from counted [OF this] False um.num_put_new [OF ok assms(3), of "has_ref r'" ?e] show ?thesis
      by (simp add: C)
  qed
  ultimately show ?thesis unfolding table_ok_def census_ok_def by blast
qed

text \<open>
  Removing a watched entry together with the counts it stood for, by a free or by a leak.
\<close>

lemma table_ok_drop_closely:
  assumes T: "table_ok T" and a: "um_find (closely T) k = Some a"
    and r: "deref_info T (watchedStackTraceInfo a) = Some info"
    and T': "light T' = light T" "closely T' = um_erase k (closely T)"
      "deref_info T' = (deref_info T)(watchedStackTraceInfo a \<mapsto> f info)" "maps_ok T'"
      "countLiveCloselyWatchedAllocationsAllTraces T' = countLiveCloselyWatchedAllocationsAllTraces T - 1"
    and f: "info_ok (f info)" "stackTrace (f info) = stackTrace info"
      "live_count (f info) = num_entries (has_ref (watchedStackTraceInfo a)) (um_erase k (closely T))"
  shows "table_ok T'"
proof -
  have ok: "um_ok (closely T)" using T by (simp add: table_ok_defs)
  have "keys_ok T'"
    using T unfolding table_ok_def keys_ok_def T' by (auto simp: um_simps split: if_splits)
  moreover have "global_count T' = num_entries (\<lambda>_ _. True) (closely T')"
    unfolding T' using T ok a
    by (intro global.erase_counted(2)) (simp_all add: table_ok_defs)
  moreover have "info_ok i \<and> stackTrace i = snd r'
      \<and> live_count i = num_entries (has_ref r') (closely T')" if "deref_info T' r' = Some i" for r' i
  proof (cases "r' = watchedStackTraceInfo a")
    case True
    with that f counted_info [OF T r] show ?thesis by (simp add: T')
  next
    case False
    with that have "deref_info T r' = Some i" by (simp add: T')
    from counted_info [OF T this] False um.num_erase [OF ok a, of "has_ref r'"] show ?thesis
      by (auto simp: T')
  qed
  ultimately show ?thesis using T'(4) unfolding table_ok_def census_ok_def by blast
qed

lemma erase_counts:
  assumes T: "table_ok T" and a: "um_find (closely T) k = Some a"
    and r: "deref_info T (watchedStackTraceInfo a) = Some info"
  shows "0 < live_count info"
    "live_count (count_freed info) = num_entries (has_ref (watchedStackTraceInfo a)) (um_erase k (closely T))"
    "live_count (count_leaked n info) = num_entries (has_ref (watchedStackTraceInfo a)) (um_erase k (closely T))"
proof -
  have ok: "um_ok (closely T)" using T by (simp add: table_ok_defs)
  have c: "live_count info = num_entries (has_ref (watchedStackTraceInfo a)) (closely T)"
    using counted_info [OF T r] by simp
  show "0 < live_count info"
    by (rule freed.erase_counted(1) [OF ok a _ c]) simp
  show "live_count (count_freed info) = num_entries (has_ref (watchedStackTraceInfo a)) (um_erase k (closely T))"
    by (rule freed.erase_counted(2) [OF ok a _ c]) simp
  show "live_count (count_leaked n info) = num_entries (has_ref (watchedStackTraceInfo a)) (um_erase k (closely T))"
    by (rule leaked.erase_counted(2) [OF ok a _ c]) simp
qed

lemma untrack_ok:
  assumes "table_ok T"
  shows "\<exists>T'. untrack k T = Inr T' \<and> table_ok T'
    \<and> um_find (light T') = (if um_find (light T) k = None then um_find (light T)
         else (um_find (light T))(k := None))
    \<and> um_find (closely T') = (if um_find (light T) k = None then (um_find (closely T))(k := None)
         else um_find (closely T))"
proof (cases "um_find (light T) k")
  case (Some a)
  with assms show ?thesis by (simp add: untrack_def table_ok_light_erase um_simps)
next
  case None
  show ?thesis
  proof (cases "um_find (closely T) k")
    case none: None
    with None assms show ?thesis by (auto simp: untrack_def fun_eq_iff)
  next
    case (Some a)
    with assms obtain info where info: "deref_info T (watchedStackTraceInfo a) = Some info"
      by (rule closely_entry)
    let ?T = "(update_info (watchedStackTraceInfo a) count_freed T)
        \<lparr>countLiveCloselyWatchedAllocationsAllTraces := countLiveCloselyWatchedAllocationsAllTraces T - 1,
         m_closelyWatchedAllocationsByAddress := um_erase k (closely T)\<rparr>"
    have "untrack k T = Inr ?T"
      using None Some info by (simp add: untrack_def untrack_closely_def Let_def)
    moreover have "table_ok ?T"
    proof (rule table_ok_drop_closely [OF assms Some info, where f = count_freed])
      show "maps_ok ?T"
        using assms maps_ok_update [of T "watchedStackTraceInfo a" count_freed]
        by (auto simp: table_ok_def maps_ok_def um_simps)
      show "info_ok (count_freed info)"
        using counted_info [OF assms info] erase_counts(1) [OF assms Some info]
        by (simp add: info_ok_freed)
    qed (use erase_counts [OF assms Some info] info in \<open>simp_all add: deref_update\<close>)
    ultimately show ?thesis using None by (simp add: um_simps)
  qed
qed

section \<open>The patrol loops\<close>

definition expired :: "uint32 \<Rightarrow> ('a Allocation_scheme) \<Rightarrow> bool" where
  "expired now a \<longleftrightarrow> deadline a < now"

definition leaks_at :: "uint32 \<Rightarrow> CloselyWatchedAllocation \<Rightarrow> bool" where
  "leaks_at now a \<longleftrightarrow> expired now a \<and> watched_state a = Suspicious"

definition patrolled :: "Environment \<Rightarrow> uint32 \<Rightarrow> CloselyWatchedAllocation \<Rightarrow> CloselyWatchedAllocation" where
  "patrolled env now a =
     (if expired now a then a\<lparr>watched_state := Suspicious,
        deadline := now + closelyWatchedAllocationsAccessMaxInterval env\<rparr> else a)"

definition found_leak :: "CloselyWatchedAllocation \<Rightarrow> FoundLeak" where
  "found_leak a = \<lparr>leak_stackTrace = snd (watchedStackTraceInfo a), leak_memory = alloc_memory a,
     leak_size = requestedSize a\<rparr>"

lemma patrolled_simps [simp]:
  "watchedStackTraceInfo (patrolled env now a) = watchedStackTraceInfo a"
  "alloc_memory (patrolled env now a) = alloc_memory a"
  "requestedSize (patrolled env now a) = requestedSize a"
  "allocationTime (patrolled env now a) = allocationTime a"
  by (simp_all add: patrolled_def)

lemma patrol_light_result:
  "patrol_light now xs sus = (filter (\<lambda>(k, a). \<not> expired now a) xs,
     foldl (\<lambda>s (k, a). addSuspiciousFingerprint (fingerprint a) s) sus (filter (\<lambda>(k, a). expired now a) xs))"
  by (induction now xs sus rule: patrol_light.induct) (auto simp: expired_def split: prod.splits)

lemma find_addSuspicious:
  "um_find (addSuspiciousFingerprint fp sus) fp' =
     (if fp' = fp \<and> um_find sus fp = None then Some [] else um_find sus fp')"
  by (auto simp: addSuspiciousFingerprint_def um_simps split: option.split)

lemma find_addSuspicious_fold:
  "um_find (foldl (\<lambda>s (k, a). addSuspiciousFingerprint (fingerprint a) s) sus xs) fp =
     (if um_find sus fp = None \<and> fp \<in> fingerprint ` snd ` set xs then Some [] else um_find sus fp)"
  by (induction xs arbitrary: sus) (auto simp: find_addSuspicious split: if_splits)

lemma um_ok_addSuspicious_fold:
  "um_ok sus \<Longrightarrow> um_ok (foldl (\<lambda>s (k, a). addSuspiciousFingerprint (fingerprint a) s) sus xs)"
  by (induction xs arbitrary: sus) (auto simp: addSuspiciousFingerprint_def um_simps)

lemma um_find_filter:
  assumes "um_ok m"
  shows "um_find (filter (\<lambda>(k, v). P v) m) k =
    (case um_find m k of Some v \<Rightarrow> if P v then Some v else None | None \<Rightarrow> None)"
  using assms
proof (induction m)
  case (Cons x m)
  have "um_find (filter (\<lambda>(k, v). P v) m) (fst x) = None"
    using Cons.prems by (auto simp: um_ok_def um_find_def map_of_eq_None_iff)
  with Cons show ?case by (cases x) (auto simp: um_ok_def um_find_def split: option.split)
qed (simp add: um_find_def)

lemma um_ok_filter: "um_ok m \<Longrightarrow> um_ok (filter P m)"
  by (simp add: um_ok_def distinct_map_filter)

lemma um_find_map_values:
  "um_find (map (\<lambda>(k, v). (k, f v)) m) k = map_option f (um_find m k)"
  unfolding um_find_def by (induction m) auto

lemma um_ok_map_values: "um_ok (map (\<lambda>(k, v). (k, f v)) m) = um_ok m"
proof -
  have "map fst (map (\<lambda>(k, v). (k, f v)) m) = map fst m" by (induction m) auto
  then show ?thesis by (simp only: um_ok_def)
qed

lemma num_entries_map_values:
  assumes "\<And>k v. P k (f v) = P k v"
  shows "num_entries P (map (\<lambda>(k, v). (k, f v)) m) = num_entries P m"
  by (induction m) (auto simp: num_entries_def assms)

text \<open>
  The loop over the watched entries, for a table whose counters count a base plus the
  entries still to be visited.
\<close>

definition loop_census ::
  "(InfoRef \<Rightarrow> nat) \<Rightarrow> nat \<Rightarrow> (ptr \<times> CloselyWatchedAllocation) list \<Rightarrow> AllocationTable \<Rightarrow> bool" where
  "loop_census base gbase xs T \<longleftrightarrow>
     (\<forall>r info. deref_info T r = Some info \<longrightarrow> info_ok info \<and> stackTrace info = snd r
        \<and> live_count info = base r + num_entries (has_ref r) xs)
     \<and> global_count T = gbase + length xs
     \<and> (\<forall>(k, a) \<in> set xs. deref_info T (watchedStackTraceInfo a) \<noteq> None)"

lemma loop_census_skip:
  assumes "loop_census base gbase ((k, a) # xs) T"
  shows "loop_census (\<lambda>r. base r + of_bool (watchedStackTraceInfo a = r)) (Suc gbase) xs T"
  using assms by (auto simp: loop_census_def num_entries_def)

lemma loop_census_leak:
  assumes "loop_census base gbase ((k, a) # xs) T" and "deref_info T (watchedStackTraceInfo a) = Some info"
  shows "loop_census base gbase xs (declare_leak a T)"
proof -
  let ?r = "watchedStackTraceInfo a"
  have "info_ok info" "stackTrace info = snd ?r"
    and live: "live_count info = base ?r + num_entries (has_ref ?r) ((k, a) # xs)"
    using assms unfolding loop_census_def by blast+
  then have "0 < live_count info" by (simp add: num_entries_def)
  then have L: "info_ok (count_leaked (requestedSize a) info)"
    "live_count (count_leaked (requestedSize a) info) = base ?r + num_entries (has_ref ?r) xs"
    using \<open>info_ok info\<close> live by (simp_all add: info_ok_leaked live_after num_entries_def)
  have D: "deref_info (declare_leak a T) =
      (deref_info T)(?r \<mapsto> count_leaked (requestedSize a) info)"
    using assms(2) by (simp add: declare_leak_def Let_def deref_update)
  have "global_count (declare_leak a T) = gbase + length xs"
    using assms(1) by (simp add: declare_leak_def Let_def loop_census_def word_nat)
  moreover have "info_ok i \<and> stackTrace i = snd r \<and> live_count i = base r + num_entries (has_ref r) xs"
    if "deref_info (declare_leak a T) r = Some i" for r i
  proof (cases "r = ?r")
    case True
    with that D have "i = count_leaked (requestedSize a) info" by simp
    with True L \<open>stackTrace info = snd ?r\<close> show ?thesis by simp
  next
    case False
    with that D have "deref_info T r = Some i" by simp
    with assms(1) have "info_ok i \<and> stackTrace i = snd r
        \<and> live_count i = base r + num_entries (has_ref r) ((k, a) # xs)"
      unfolding loop_census_def by blast
    with False show ?thesis by (auto simp: num_entries_def)
  qed
  moreover have "\<forall>(k, a) \<in> set xs. deref_info (declare_leak a' T) (watchedStackTraceInfo a) \<noteq> None"
    if "a' = a" for a'
    using assms(1) that D unfolding loop_census_def by auto
  ultimately show ?thesis unfolding loop_census_def by blast
qed

lemma declare_leak_frame:
  "light (declare_leak a T) = light T" "closely (declare_leak a T) = closely T"
  "m_stats (declare_leak a T) = m_stats T" "maps_ok T \<Longrightarrow> maps_ok (declare_leak a T)"
  using maps_ok_update [of T] by (simp_all add: declare_leak_def Let_def maps_ok_def)

definition kept_entries ::
  "Environment \<Rightarrow> uint32 \<Rightarrow> (ptr \<times> CloselyWatchedAllocation) list \<Rightarrow> (ptr \<times> CloselyWatchedAllocation) list" where
  "kept_entries env now xs =
     map (\<lambda>(k, a). (k, patrolled env now a)) (filter (\<lambda>(k, a). \<not> leaks_at now a) xs)"

definition found_leaks :: "uint32 \<Rightarrow> (ptr \<times> CloselyWatchedAllocation) list \<Rightarrow> FoundLeak list" where
  "found_leaks now xs = map (\<lambda>(k, a). found_leak a) (filter (\<lambda>(k, a). leaks_at now a) xs)"

lemma kept_found_Cons:
  "kept_entries env now ((k, a) # xs) =
     (if leaks_at now a then kept_entries env now xs else (k, patrolled env now a) # kept_entries env now xs)"
  "found_leaks now ((k, a) # xs) = (if leaks_at now a then found_leak a # found_leaks now xs else found_leaks now xs)"
  "kept_entries env now [] = []" "found_leaks now [] = []"
  by (simp_all add: kept_entries_def found_leaks_def)

definition loop_post ::
  "(InfoRef \<Rightarrow> nat) \<Rightarrow> nat \<Rightarrow> Environment \<Rightarrow> uint32 \<Rightarrow> (ptr \<times> CloselyWatchedAllocation) list \<Rightarrow>
     AllocationTable \<Rightarrow> AllocationTable \<Rightarrow> bool" where
  "loop_post base gbase env now xs T T' \<longleftrightarrow> loop_census base gbase (kept_entries env now xs) T'
     \<and> maps_ok T' \<and> light T' = light T \<and> closely T' = closely T \<and> m_stats T' = m_stats T
     \<and> (\<forall>r. deref_info T' r = None \<longleftrightarrow> deref_info T r = None)"

lemma deref_declare_leak_None:
  "deref_info (declare_leak a T) r = None \<longleftrightarrow> deref_info T r = None"
  by (simp add: declare_leak_def Let_def deref_update)

lemma loop_post_leak:
  assumes "loop_post base gbase env now xs (declare_leak a T) T'" and "leaks_at now a"
  shows "loop_post base gbase env now ((k, a) # xs) T T'"
  using assms by (simp add: loop_post_def declare_leak_frame deref_declare_leak_None kept_found_Cons)

lemma loop_post_keep:
  assumes "loop_post (\<lambda>r. base r + of_bool (watchedStackTraceInfo a = r)) (Suc gbase) env now xs T T'"
    and "\<not> leaks_at now a" and "deref_info T (watchedStackTraceInfo a) \<noteq> None"
  shows "loop_post base gbase env now ((k, a) # xs) T T'"
proof -
  have "deref_info T' (watchedStackTraceInfo a) \<noteq> None"
    using assms(1,3) by (simp add: loop_post_def)
  moreover have "loop_census (\<lambda>r. base r + of_bool (watchedStackTraceInfo a = r)) (Suc gbase)
      (kept_entries env now xs) T'"
    using assms(1) unfolding loop_post_def by blast
  ultimately have "loop_census base gbase (kept_entries env now ((k, a) # xs)) T'"
    using assms(2) by (auto simp: kept_found_Cons loop_census_def num_entries_def)
  with assms(1) show ?thesis unfolding loop_post_def by blast
qed

lemma patrol_closely_result:
  assumes "loop_census base gbase xs T" and "maps_ok T"
  shows "\<exists>T'. patrol_closely env now xs T leaks =
      Inr (kept_entries env now xs, T', leaks @ found_leaks now xs)
    \<and> loop_post base gbase env now xs T T'"
  using assms
proof (induction xs arbitrary: base gbase T leaks)
  case Nil
  then show ?case by (simp add: kept_found_Cons loop_post_def)
next
  case (Cons x xs)
  obtain k a where x: "x = (k, a)" by (cases x)
  note census = Cons.prems(1) [unfolded x]
  then obtain info where info: "deref_info T (watchedStackTraceInfo a) = Some info"
    by (auto simp: loop_census_def)
  have trace: "stackTrace info = snd (watchedStackTraceInfo a)"
    using census info unfolding loop_census_def by blast
  show ?case
  proof (cases "leaks_at now a")
    case True
    from Cons.IH [OF loop_census_leak [OF census info] declare_leak_frame(4) [OF Cons.prems(2)],
        of "leaks @ [found_leak a]"]
    obtain T' where "patrol_closely env now xs (declare_leak a T) (leaks @ [found_leak a])
        = Inr (kept_entries env now xs, T', (leaks @ [found_leak a]) @ found_leaks now xs)"
      and "loop_post base gbase env now xs (declare_leak a T) T'" by blast
    with True info trace loop_post_leak show ?thesis
      by (auto simp: x leaks_at_def expired_def found_leak_def kept_found_Cons)
  next
    case False
    from Cons.IH [OF loop_census_skip [OF census] Cons.prems(2), of leaks]
    obtain T' where "patrol_closely env now xs T leaks
        = Inr (kept_entries env now xs, T', leaks @ found_leaks now xs)"
      and "loop_post (\<lambda>r. base r + of_bool (watchedStackTraceInfo a = r)) (Suc gbase) env now xs T T'"
      by blast
    with False info loop_post_keep [of base a gbase env now xs T T' k] show ?thesis
      by (auto simp: x leaks_at_def expired_def patrolled_def kept_found_Cons split: WatchedState.split)
  qed
qed

lemma um_find_kept:
  "um_ok m \<Longrightarrow> um_find (kept_entries env now m) k = (case um_find m k of None \<Rightarrow> None
     | Some a \<Rightarrow> if leaks_at now a then None else Some (patrolled env now a))"
  by (simp add: kept_entries_def um_find_map_values um_find_filter split: option.split)

text \<open>The whole update, in terms of lookups.\<close>

lemma patrol_result:
  assumes "table_ok T"
  shows "\<exists>T'. patrolThreadUpdateAllocationStates env time T =
      Inr ((m_stats T, found_leaks (to_uint32 time) (closely T)), T')
    \<and> table_ok T' \<and> m_stats T' = m_stats T
    \<and> light T' = filter (\<lambda>(k, a). \<not> expired (to_uint32 time) a) (light T)
    \<and> closely T' = kept_entries env (to_uint32 time) (closely T)
    \<and> (\<forall>r. deref_info T' r = None \<longleftrightarrow> deref_info T r = None)"
proof -
  let ?now = "to_uint32 time"
  define l where "l = filter (\<lambda>(k, a). \<not> expired ?now a) (light T)"
  define sus where "sus = foldl (\<lambda>s (k, a). addSuspiciousFingerprint (fingerprint a) s) (suspicious T)
    (filter (\<lambda>(k, a). expired ?now a) (light T))"
  let ?T1 = "T\<lparr>m_lightAllocationsByAddress := l, m_suspiciousFingerprints := sus\<rparr>"
  have D: "deref_info ?T1 = deref_info T"
    by (auto simp: fun_eq_iff deref_info_def sus_def find_addSuspicious_fold um_simps split: option.split)
  have maps: "maps_ok ?T1"
    using assms by (auto simp: table_ok_def maps_ok_def l_def sus_def um_ok_filter
        um_ok_addSuspicious_fold find_addSuspicious_fold um_simps split: if_splits)
  have "loop_census (\<lambda>_. 0) 0 (closely T) ?T1"
    using assms unfolding loop_census_def table_ok_def census_ok_def D
    by (auto simp: num_entries_def keys_ok_def maps_ok_def um_find_elems)
  from patrol_closely_result [OF this maps, of env ?now "[]"]
  obtain T2 where T2: "patrol_closely env ?now (closely T) ?T1 [] =
      Inr (kept_entries env ?now (closely T), T2, found_leaks ?now (closely T))"
    and post: "loop_post (\<lambda>_. 0) 0 env ?now (closely T) ?T1 T2" by auto
  let ?T3 = "T2\<lparr>m_closelyWatchedAllocationsByAddress := kept_entries env ?now (closely T)\<rparr>"
  have "um_ok (kept_entries env ?now (closely T))"
    using assms by (simp add: kept_entries_def um_ok_map_values um_ok_filter table_ok_defs)
  then have maps3: "maps_ok ?T3"
    using post by (auto simp: loop_post_def maps_ok_def)
  have "table_ok ?T3"
  proof (rule table_okI [OF maps3])
    show "global_count ?T3 = num_entries (\<lambda>_ _. True) (closely ?T3)"
      using post by (simp add: loop_post_def loop_census_def num_entries_def)
    fix r info assume "deref_info ?T3 r = Some info"
    then show "info_ok info \<and> stackTrace info = snd r \<and> live_count info = num_entries (has_ref r) (closely ?T3)"
      using post unfolding loop_post_def loop_census_def by auto
  next
    have "um_ok (light T)" "um_ok (closely T)" using assms by (simp_all add: table_ok_defs)
    moreover have "\<exists>info. deref_info T2 (watchedStackTraceInfo a) = Some info"
      if "um_find (closely T) k = Some a" for k a
      using closely_entry [OF assms that] post D by (metis loop_post_def not_Some_eq)
    moreover have "light T2 = l" using post by (simp add: loop_post_def)
    ultimately show "keys_ok ?T3"
      using assms by (auto simp: table_ok_def keys_ok_def um_find_kept um_find_filter l_def
          split: option.splits if_splits)
  qed
  then show ?thesis
    using post T2 by (auto simp: patrolThreadUpdateAllocationStates_def patrol_light_result Let_def
        l_def [symmetric] sus_def [symmetric] loop_post_def D)
qed

end
