(* ===== verification/Table_Safety.thy ===== *)
theory Table_Safety
  imports Table_Invariant
begin

text \<open>
  The operations of the allocation table against the memory they manage: no operation
  faults, the table only tracks live blocks, and the limits on watched allocations hold. The
  allocation functions are arguments; what is assumed of them is the documented contract of
  malloc, realloc, memalign and free stated by the predicates of C_Heap and the one below.
\<close>

section \<open>The system invariant\<close>

definition limits_ok :: "Environment \<Rightarrow> AllocationTable \<Rightarrow> bool" where
  "limits_ok env T \<longleftrightarrow>
     (\<forall>r info. deref_info T r = Some info \<longrightarrow>
        live_count info \<le> unat (maxLiveCloselyWatchedAllocationsPerTrace env))
     \<and> global_count T \<le> unat (globalMaxLiveCloselyWatchedAllocations env)"

definition memory_ok :: "Environment \<Rightarrow> nat \<Rightarrow> AllocationTable \<Rightarrow> heap \<Rightarrow> bool" where
  "memory_ok env k T h \<longleftrightarrow>
     (\<forall>p a. um_find (light T) p = Some a \<longrightarrow> p \<noteq> nullptr \<and> blocks h p \<noteq> None \<and> um_find (closely T) p = None)
     \<and> (\<forall>p a. um_find (closely T) p = Some a \<longrightarrow> p \<noteq> nullptr \<and>
          (\<exists>s. blocks h p = Some s \<and> unat (actualSize env a) \<le> s) \<and> unat (requestedSize a) + 2 ^ k \<le> 2 ^ 32)"

definition sys_ok :: "Environment \<Rightarrow> nat \<Rightarrow> AllocationTable \<Rightarrow> heap \<Rightarrow> bool" where
  "sys_ok env k T h \<longleftrightarrow> table_ok T \<and> limits_ok env T \<and> memory_ok env k T h"

definition memalign_ok :: "Surroundings \<Rightarrow> bool" where
  "memalign_ok w \<longleftrightarrow> (\<forall>al n. allocates (unat n) (real_memalign_call w al n))"

text \<open>
  The counter of watched allocations of a stack trace has 32 bits; the invariant needs that
  no trace has used all of them up.
\<close>

definition room :: "AllocationTable \<Rightarrow> bool" where
  "room T \<longleftrightarrow> (\<forall>r info. deref_info T r = Some info \<longrightarrow>
     unat (countTotalCloselyWatchedAllocationsEverCreated info) + 1 < 2 ^ 32)"

text \<open>What a caller of an allocation function may rely on.\<close>

definition allocated :: "nat \<Rightarrow> heap \<Rightarrow> ptr \<Rightarrow> heap \<Rightarrow> bool" where
  "allocated n h r h' \<longleftrightarrow>
     (r = nullptr \<and> blocks h' = blocks h) \<or>
     (r \<noteq> nullptr \<and> blocks h r = None \<and> (\<exists>s \<ge> n. blocks h' = (blocks h)(r \<mapsto> s)))"

lemma allocates_allocated: "allocates n f \<Longrightarrow> f h = (r, h') \<Longrightarrow> allocated n h r h'"
  by (erule allocates_cases, assumption) (auto simp: allocated_def)

lemma allocated_mono: "allocated n h r h' \<Longrightarrow> m \<le> n \<Longrightarrow> allocated m h r h'"
  by (auto simp: allocated_def intro: le_trans)

lemma sys_ok_count [simp]:
  "sys_ok env k (count_allocation t T) h = sys_ok env k T h"
  "sys_ok env k (count_realloc t T) h = sys_ok env k T h"
  "sys_ok env k (count_free t T) h = sys_ok env k T h"
  "sys_ok env k (count_suspicious_allocation T) h = sys_ok env k T h"
  by (simp_all add: sys_ok_def limits_ok_def memory_ok_def)

lemma room_count [simp]:
  "room (count_allocation t T) = room T" "room (count_suspicious_allocation T) = room T"
  by (simp_all add: room_def)

lemma memory_ok_grow:
  assumes "memory_ok env k T h" and "allocated n h r h'"
  shows "memory_ok env k T h'"
  using assms by (auto simp: memory_ok_def allocated_def) (metis option.distinct(1))+

lemma fresh_untracked:
  assumes "memory_ok env k T h" and "blocks h r = None"
  shows "um_find (light T) r = None" "um_find (closely T) r = None"
  using assms by (fastforce simp: memory_ok_def)+

lemma sys_ok_grow: "sys_ok env k T h \<Longrightarrow> allocated n h r h' \<Longrightarrow> sys_ok env k T h'"
  by (auto simp: sys_ok_def intro: memory_ok_grow)

section \<open>Allocation\<close>

lemma sys_ok_track_light:
  assumes "sys_ok env k T h" and "allocated n h r h'" and "r \<noteq> nullptr"
  shows "sys_ok env k (track_light w r m fp T) h'"
proof -
  have fresh: "um_find (light T) r = None" "um_find (closely T) r = None"
    using assms fresh_untracked by (auto simp: sys_ok_def allocated_def)
  have "table_ok (track_light w r m fp T)"
    using assms(1) by (simp add: track_light_def sys_ok_def table_ok_light_set)
  moreover have "limits_ok env (track_light w r m fp T)"
    using assms(1) by (simp add: track_light_def sys_ok_def limits_ok_def)
  moreover have "memory_ok env k (track_light w r m fp T) h'"
    using memory_ok_grow [OF _ assms(2), of env k T] assms fresh
    by (auto simp: track_light_def sys_ok_def memory_ok_def um_simps allocated_def)
  ultimately show ?thesis by (simp add: sys_ok_def)
qed

lemma sys_ok_skip:
  assumes "sys_ok env k T h"
  shows "sys_ok env k (update_info r count_skipped T) h"
  using assms
  by (auto simp: sys_ok_def limits_ok_def memory_ok_def deref_update info_ok_skipped live_after
      intro!: table_ok_update_info)

lemma sys_ok_getOrCreate:
  assumes "sys_ok env k T h" and "um_find (suspicious T) fp = Some t"
  shows "sys_ok env k (T\<lparr>m_suspiciousFingerprints := um_modify fp (getOrCreate st) (suspicious T)\<rparr>) h"
  using assms table_ok_getOrCreate [of T fp t st]
  by (auto simp: sys_ok_def limits_ok_def memory_ok_def WatchedStackTraceInfo_construct_def
      split: option.split)

lemma needsMore_limits:
  assumes "needsMoreCloselyWatchedAllocations env n info"
  shows "live_count info + 1 \<le> unat (maxLiveCloselyWatchedAllocationsPerTrace env)"
    "unat n + 1 \<le> unat (globalMaxLiveCloselyWatchedAllocations env)"
  using assms by (auto simp: needsMoreCloselyWatchedAllocations_def word_le_nat_alt split: if_splits)

lemma sys_ok_track_closely:
  assumes S: "sys_ok env k T h" and info: "deref_info T r = Some info" and room: "room T"
    and more: "needsMoreCloselyWatchedAllocations env (countLiveCloselyWatchedAllocationsAllTraces T) info"
    and al: "allocated (unat (roundUpToPageMultiple env n)) h p h'" and "p \<noteq> nullptr"
    and fits: "unat n + 2 ^ k \<le> 2 ^ 32"
  shows "sys_ok env k (track_closely w p n r T) h'"
proof -
  note limits = needsMore_limits [OF more]
  have fresh: "um_find (light T) p = None" "um_find (closely T) p = None"
    using assms fresh_untracked by (auto simp: sys_ok_def allocated_def)
  have b: "live_count info + 1 < 2 ^ 32" "global_count T + 1 < 2 ^ 32"
    using limits unat_lt_32 [of "maxLiveCloselyWatchedAllocationsPerTrace env"]
      unat_lt_32 [of "globalMaxLiveCloselyWatchedAllocations env"] by auto
  have T: "table_ok T" using S by (simp add: sys_ok_def)
  have "unat (countTotalCloselyWatchedAllocationsEverCreated info) + 1 < 2 ^ 32"
    using room info unfolding room_def by blast
  from table_ok_track_closely [OF T info fresh(2) this b]
  have "table_ok (track_closely w p n r T)" .
  moreover have "limits_ok env (track_closely w p n r T)"
    using S info limits b
    by (auto simp: limits_ok_def sys_ok_def track_closely_def Let_def deref_update live_after word_nat)
  moreover have "memory_ok env k (track_closely w p n r T) h'"
    using memory_ok_grow [OF _ al, of env k T] S al \<open>p \<noteq> nullptr\<close> fits fresh
    by (auto simp: track_closely_def Let_def sys_ok_def memory_ok_def um_simps allocated_def actualSize_def)
  ultimately show ?thesis by (simp add: sys_ok_def)
qed

lemma allocate_closely_safe:
  assumes "page_env (environment w) k" and "memalign_ok w" and S: "sys_ok (environment w) k T h"
    and "deref_info T r = Some info" and "room T"
    and "needsMoreCloselyWatchedAllocations (environment w)
      (countLiveCloselyWatchedAllocationsAllTraces T) info"
    and fits: "unat n + 2 ^ k \<le> 2 ^ 32"
  shows "\<exists>p T' h'. allocate_closely w n al zf r T h = Inr (p, T', h')
    \<and> sys_ok (environment w) k T' h' \<and> allocated (unat n) h p h'"
proof -
  let ?env = "environment w"
  obtain p h1 where p: "real_memalign_call w (to_uint64 (max al (pageSize ?env)))
      (to_uint64 (roundUpToPageMultiple ?env n)) h = (p, h1)" by force
  have al: "allocated (unat (roundUpToPageMultiple ?env n)) h p h1"
  proof (rule allocates_allocated)
    show "allocates (unat (roundUpToPageMultiple ?env n))
        (real_memalign_call w (to_uint64 (max al (pageSize ?env))) (to_uint64 (roundUpToPageMultiple ?env n)))"
      using assms(2) unfolding memalign_ok_def by (metis unat_to_uint64)
  qed (rule p)
  have n: "unat n \<le> unat (roundUpToPageMultiple ?env n)"
    using round_bounds(2) [OF assms(1) fits] by simp
  note al_n = allocated_mono [OF al n]
  show ?thesis
  proof (cases "p = nullptr")
    case True
    with p al_n sys_ok_grow [OF S al] show ?thesis by (auto simp: allocate_closely_def)
  next
    case False
    have "\<exists>h2. (if zf = Needed then bzero p (unat n) h1 else Inr h1) = Inr h2 \<and> blocks h2 = blocks h1"
      using False al_n by (auto simp: bzero_def in_block_def allocated_def)
    then obtain h2 where h2: "(if zf = Needed then bzero p (unat n) h1 else Inr h1) = Inr h2"
      and b2: "blocks h2 = blocks h1" by blast
    have "allocated (unat (roundUpToPageMultiple ?env n)) h p h2" "allocated (unat n) h p h2"
      using al al_n b2 by (simp_all add: allocated_def)
    with False p h2 sys_ok_track_closely [OF S assms(4,5,6) _ False fits, of h2 w] show ?thesis
      by (auto simp: allocate_closely_def)
  qed
qed

lemma room_getOrCreate:
  assumes "table_ok T" and "room T" and "um_find (suspicious T) fp = Some t"
  shows "room (T\<lparr>m_suspiciousFingerprints := um_modify fp (getOrCreate st) (suspicious T)\<rparr>)"
  using assms(2) unfolding room_def table_ok_getOrCreate(3) [OF assms(1,3)]
  by (auto simp: WatchedStackTraceInfo_construct_def split: option.split)

text \<open>
  The locked part of an allocation: from a consistent table over live memory it returns null or
  a new block of at least the requested size, and leaves a consistent table.
\<close>

lemma allocate_locked_safe:
  assumes "page_env (environment w) k" and "memalign_ok w" and "sys_ok (environment w) k T h"
    and "room T" and "unat n + 2 ^ k \<le> 2 ^ 32" and "allocates (unat n) preferredAllocator"
  shows "\<exists>p T' h'. allocate_locked w n al fp preferredAllocator zf T h = Inr (p, T', h')
    \<and> sys_ok (environment w) k T' h' \<and> allocated (unat n) h p h'"
proof -
  let ?env = "environment w" and ?T = "count_allocation (clock_now w) T"
  have S: "sys_ok ?env k ?T h" and R: "room ?T" using assms(3,4) by simp_all
  show ?thesis
  proof (cases "um_find (suspicious ?T) fp")
    case None
    obtain p h1 where p: "preferredAllocator h = (p, h1)" by force
    have al: "allocated (unat n) h p h1" by (rule allocates_allocated [OF assms(6) p])
    with None p sys_ok_grow [OF S al] sys_ok_track_light [OF S al] show ?thesis
      by (auto simp: allocate_locked_def Let_def getSuspiciousStackTracesTable_def)
  next
    case (Some t)
    let ?T2 = "count_suspicious_allocation ?T" and ?st = "current_trace w"
    let ?T3 = "?T2\<lparr>m_suspiciousFingerprints := um_modify fp (getOrCreate ?st) (suspicious ?T2)\<rparr>"
    have find: "um_find (suspicious ?T2) fp = Some t" using Some by simp
    have S2: "sys_ok ?env k ?T2 h" and R2: "room ?T2" using S R by simp_all
    have ok2: "table_ok ?T2" using S2 by (simp only: sys_ok_def)
    note S3 = sys_ok_getOrCreate [OF S2 find, of ?st]
    obtain info where info: "deref_info ?T3 (fp, ?st) = Some info"
      using table_ok_getOrCreate(2) [OF ok2 find] by blast
    show ?thesis
    proof (cases "needsMoreCloselyWatchedAllocations ?env
        (countLiveCloselyWatchedAllocationsAllTraces ?T3) info")
      case True
      from allocate_closely_safe [OF assms(1,2) S3 info room_getOrCreate [OF ok2 R2 find] True assms(5)]
      show ?thesis using Some info True
        by (simp add: allocate_locked_def Let_def getSuspiciousStackTracesTable_def)
    next
      case False
      obtain p h1 where p: "preferredAllocator h = (p, h1)" by force
      have al: "allocated (unat n) h p h1" by (rule allocates_allocated [OF assms(6) p])
      with Some info False p sys_ok_grow [OF sys_ok_skip [OF S3] al] show ?thesis
        by (simp add: allocate_locked_def Let_def getSuspiciousStackTracesTable_def)
    qed
  qed
qed

end
