(* ===== verification/Table_Steps.thy ===== *)
theory Table_Steps
  imports Table_Safety
begin

text \<open>
  The remaining operations of the table against the memory (free, realloc, the patrol's
  update), the operations as the wrappers call them, and the histories of a process as a step
  relation with the invariant of all reachable states.
\<close>

section \<open>The limits when the table shrinks\<close>

text \<open>Operations that only remove entries keep the limits: the counters count the entries.\<close>

lemma limits_ok_shrink:
  assumes "table_ok T" and "table_ok T'" and "limits_ok env T"
    and "\<And>r. deref_info T r = None \<Longrightarrow> deref_info T' r = None"
    and sub: "\<And>k a'. um_find (closely T') k = Some a' \<Longrightarrow>
      \<exists>a. um_find (closely T) k = Some a \<and> watchedStackTraceInfo a = watchedStackTraceInfo a'"
  shows "limits_ok env T'"
proof -
  have ok: "um_ok (closely T)" "um_ok (closely T')" using assms(1,2) by (simp_all add: table_ok_defs)
  have "global_count T' \<le> global_count T"
    using um.num_mono [OF ok, of "\<lambda>_ _. True"] sub assms(1,2)
    by (fastforce simp: table_ok_def census_ok_def)
  moreover have "live_count i' \<le> unat (maxLiveCloselyWatchedAllocationsPerTrace env)"
    if i': "deref_info T' r = Some i'" for r i'
  proof -
    from i' assms(4) obtain i where i: "deref_info T r = Some i" by fastforce
    have "num_entries (has_ref r) (closely T') \<le> num_entries (has_ref r) (closely T)"
      using um.num_mono [OF ok, of "has_ref r"] sub by fastforce
    with counted_info [OF assms(1) i] counted_info [OF assms(2) i']
    have "live_count i' \<le> live_count i" by simp
    also have "\<dots> \<le> unat (maxLiveCloselyWatchedAllocationsPerTrace env)"
      using assms(3) i unfolding limits_ok_def by blast
    finally show ?thesis .
  qed
  ultimately show ?thesis using assms(3) unfolding limits_ok_def by (meson le_trans)
qed

section \<open>Freeing\<close>

lemma untrack_refs:
  "untrack p T = Inr T' \<Longrightarrow> deref_info T' r = None \<longleftrightarrow> deref_info T r = None"
  by (auto simp: untrack_def untrack_closely_def Let_def deref_update split: option.splits if_splits)

lemma sys_ok_untrack:
  assumes "sys_ok env k T h" and "untrack p T = Inr T'"
    and "\<And>q. q \<noteq> p \<Longrightarrow> blocks h' q = blocks h q"
  shows "sys_ok env k T' h'" "um_find (light T') p = None" "um_find (closely T') p = None"
proof -
  have ok: "table_ok T" and M: "memory_ok env k T h" and L: "limits_ok env T"
    using assms(1) by (simp_all add: sys_ok_def)
  have disjoint: "um_find (closely T) q = None" if "um_find (light T) q = Some a" for q a
    using M that unfolding memory_ok_def by blast
  from untrack_ok [OF ok, of p] assms(2)
  have ok': "table_ok T'" and F: "um_find (light T') = (um_find (light T))(p := None)"
    "um_find (closely T') = (um_find (closely T))(p := None)"
    using disjoint by (auto simp: fun_eq_iff split: if_splits)
  then show "um_find (light T') p = None" "um_find (closely T') p = None" by simp_all
  have "memory_ok env k T' h'"
    using M F assms(3) unfolding memory_ok_def F by (auto split: if_splits)
  moreover have "limits_ok env T'"
    using ok ok' L by (rule limits_ok_shrink) (auto simp: untrack_refs [OF assms(2)] F split: if_splits)
  ultimately show "sys_ok env k T' h'" using ok' by (simp add: sys_ok_def)
qed

section \<open>The patrol's update\<close>

lemma patrol_safe:
  assumes "sys_ok env k T h"
  shows "\<exists>T'. patrolThreadUpdateAllocationStates env time T =
      Inr ((m_stats T, found_leaks (to_uint32 time) (closely T)), T') \<and> sys_ok env k T' h
    \<and> light T' = filter (\<lambda>(k, a). \<not> expired (to_uint32 time) a) (light T)
    \<and> closely T' = kept_entries env (to_uint32 time) (closely T)"
proof -
  have ok: "table_ok T" and M: "memory_ok env k T h" and L: "limits_ok env T"
    using assms by (simp_all add: sys_ok_def)
  have maps: "um_ok (light T)" "um_ok (closely T)" using ok by (simp_all add: table_ok_defs)
  from patrol_result [OF ok, of env time] obtain T' where
    T': "patrolThreadUpdateAllocationStates env time T =
      Inr ((m_stats T, found_leaks (to_uint32 time) (closely T)), T')"
    "light T' = filter (\<lambda>(k, a). \<not> expired (to_uint32 time) a) (light T)"
    "closely T' = kept_entries env (to_uint32 time) (closely T)"
    and ok': "table_ok T'" and refs: "\<And>r. deref_info T' r = None \<longleftrightarrow> deref_info T r = None"
    by blast
  have "limits_ok env T'"
    using ok ok' L by (rule limits_ok_shrink)
      (auto simp: refs T' um_find_kept [OF maps(2)] split: option.splits if_splits)
  moreover have "memory_ok env k T' h"
    using M by (auto simp: memory_ok_def T' um_find_filter [OF maps(1)] um_find_kept [OF maps(2)]
        actualSize_def split: option.splits if_splits)
  ultimately show ?thesis using T' ok' by (auto simp: sys_ok_def)
qed

section \<open>Reallocation\<close>

lemma find_move_entry:
  assumes "um_find m p = Some a0" and "um_find m r = None"
  shows "um_find (move_entry p r a m) = (um_find m)(p := None, r \<mapsto> a)"
  using assms by (auto simp: move_entry_def um_simps fun_eq_iff split: option.split)

lemma um_ok_move_entry: "um_ok m \<Longrightarrow> um_ok (move_entry p r a m)"
  by (simp add: move_entry_def um_simps)

lemma num_move_entry:
  assumes "um_ok m" and "um_find m p = Some a0" and "um_find m r = None"
    and "\<And>k. P k a = P p a0"
  shows "num_entries P (move_entry p r a m) = num_entries P m"
proof -
  let ?m1 = "um_set r a m"
  have find1: "um_find ?m1 p = Some a0" and ok1: "um_ok ?m1"
    using assms by (auto simp: um_simps)
  have "num_entries P (move_entry p r a m) = num_entries P (um_erase p ?m1)"
    using assms find_move_entry [OF assms(2,3), of a]
    by (intro um.num_cong) (auto simp: um_ok_move_entry um_simps split: if_splits)
  with um.num_erase [OF ok1 find1, of P] um.num_put_new [OF assms(1,3), of P a] assms(4)
  show ?thesis by simp
qed

lemma table_ok_light:
  assumes "table_ok T" and "um_ok l" and "\<And>k a. um_find l k = Some a \<Longrightarrow> alloc_memory a = k"
  shows "table_ok (T\<lparr>m_lightAllocationsByAddress := l\<rparr>)"
  using assms by (auto simp: table_ok_defs)

lemma table_ok_closely:
  assumes T: "table_ok T" and "um_ok c"
    and c: "\<And>k a. um_find c k = Some a \<Longrightarrow> alloc_memory a = k
      \<and> deref_info T (watchedStackTraceInfo a) \<noteq> None"
    and num: "\<And>P. (\<And>k k' a a'. watchedStackTraceInfo a = watchedStackTraceInfo a' \<Longrightarrow> P k a = P k' a') \<Longrightarrow>
      num_entries P c = num_entries P (closely T)"
  shows "table_ok (T\<lparr>m_closelyWatchedAllocationsByAddress := c\<rparr>)"
proof (rule table_okI)
  show "maps_ok (T\<lparr>m_closelyWatchedAllocationsByAddress := c\<rparr>)"
    using T \<open>um_ok c\<close> by (simp add: table_ok_def maps_ok_def)
  show "keys_ok (T\<lparr>m_closelyWatchedAllocationsByAddress := c\<rparr>)"
    using T c unfolding table_ok_def keys_ok_def by simp
  show "global_count (T\<lparr>m_closelyWatchedAllocationsByAddress := c\<rparr>) =
      num_entries (\<lambda>_ _. True) (closely (T\<lparr>m_closelyWatchedAllocationsByAddress := c\<rparr>))"
    using T num [of "\<lambda>_ _. True"] by (simp add: table_ok_def census_ok_def)
  fix r info
  assume "deref_info (T\<lparr>m_closelyWatchedAllocationsByAddress := c\<rparr>) r = Some info"
  with counted_info [OF T, of r info] num [of "has_ref r"]
  show "info_ok info \<and> stackTrace info = snd r \<and> live_count info =
      num_entries (has_ref r) (closely (T\<lparr>m_closelyWatchedAllocationsByAddress := c\<rparr>))"
    by simp
qed

lemma limits_ok_frame [simp]:
  "limits_ok env (T\<lparr>m_lightAllocationsByAddress := l\<rparr>) = limits_ok env T"
  "limits_ok env (T\<lparr>m_closelyWatchedAllocationsByAddress := c\<rparr>) = limits_ok env T"
  by (simp_all add: limits_ok_def)

lemma reallocate_light_safe:
  assumes S: "sys_ok env k T h" and a: "um_find (light T) p = Some a"
    and f: "reallocates n p f" "f h = (r, h')" and "r \<noteq> nullptr"
  shows "\<exists>T'. reallocate_light p sz f a T h = Inr (r, T', h') \<and> sys_ok env k T' h'
    \<and> um_find (light T') = (um_find (light T))(p := None,
        r \<mapsto> a\<lparr>requestedSize := to_uint32 sz, alloc_memory := r\<rparr>)"
proof -
  have ok: "table_ok T" and M: "memory_ok env k T h" and L: "limits_ok env T"
    using S by (simp_all add: sys_ok_def)
  have maps: "um_ok (light T)" and key: "alloc_memory a = p"
    using ok a by (auto simp: table_ok_defs)
  from f \<open>r \<noteq> nullptr\<close> obtain s where r: "r = p \<or> blocks h r = None"
    and h': "blocks h' = (blocks h)(p := None, r \<mapsto> s)"
    by (auto elim: reallocates_cases)
  let ?a = "a\<lparr>requestedSize := to_uint32 sz, alloc_memory := r\<rparr>"
  let ?l1 = "um_modify p (\<lambda>_. a\<lparr>requestedSize := to_uint32 sz\<rparr>) (light T)"
  define l where "l = (if r \<noteq> p then move_entry p r ?a ?l1 else ?l1)"
  have find1: "um_find ?l1 = (um_find (light T))(p \<mapsto> a\<lparr>requestedSize := to_uint32 sz\<rparr>)"
    using a by (simp add: um_simps)
  have F: "um_find l = (um_find (light T))(p := None, r \<mapsto> ?a)"
  proof (cases "r = p")
    case False
    with r fresh_untracked [OF M] have "um_find (light T) r = None" by blast
    with False have "um_find ?l1 r = None" by (simp add: find1)
    with False find_move_entry [of ?l1 p _ r ?a] show ?thesis by (simp add: l_def find1)
  next
    case True
    moreover have "a\<lparr>requestedSize := to_uint32 sz, alloc_memory := p\<rparr> = a\<lparr>requestedSize := to_uint32 sz\<rparr>"
      using key by (cases a) simp
    ultimately show ?thesis by (simp add: l_def find1)
  qed
  have closely_r: "um_find (closely T) r = None"
    using r a M fresh_untracked [OF M, of r] by (auto simp: memory_ok_def)
  have "um_ok l" using maps by (simp add: l_def um_ok_move_entry um_simps)
  then have "table_ok (T\<lparr>m_lightAllocationsByAddress := l\<rparr>)"
    by (rule table_ok_light [OF ok]) (use ok in \<open>auto simp: F table_ok_defs split: if_splits\<close>)
  moreover have "memory_ok env k (T\<lparr>m_lightAllocationsByAddress := l\<rparr>) h'"
    using M a closely_r \<open>r \<noteq> nullptr\<close> unfolding memory_ok_def
    by (fastforce simp: F h' split: if_splits)
  ultimately have "sys_ok env k (T\<lparr>m_lightAllocationsByAddress := l\<rparr>) h'"
    using L by (simp add: sys_ok_def)
  then show ?thesis
    using f(2) F by (auto simp: reallocate_light_def Let_def l_def)
qed

lemma reallocate_closely_in_place:
  assumes S: "sys_ok env k T h" and a: "um_find (closely T) p = Some a"
    and "roundUpToPageMultiple env (to_uint32 sz) = roundUpToPageMultiple env (requestedSize a)"
    and "unat (to_uint32 sz) + 2 ^ k \<le> 2 ^ 32" and "environment w = env"
  shows "\<exists>T'. reallocate_closely w p sz a T h = Inr (p, T', h) \<and> sys_ok env k T' h
    \<and> um_find (closely T') = (um_find (closely T))(p \<mapsto> a\<lparr>requestedSize := to_uint32 sz\<rparr>)"
proof -
  have ok: "table_ok T" and M: "memory_ok env k T h" and L: "limits_ok env T"
    using S by (simp_all add: sys_ok_def)
  let ?c = "um_modify p (\<lambda>a. a\<lparr>requestedSize := to_uint32 sz\<rparr>) (closely T)"
  have F: "um_find ?c = (um_find (closely T))(p \<mapsto> a\<lparr>requestedSize := to_uint32 sz\<rparr>)"
    using a by (simp add: um_simps)
  have okc: "um_ok (closely T)" using ok by (simp add: table_ok_defs)
  obtain info where key: "alloc_memory a = p" "deref_info T (watchedStackTraceInfo a) = Some info"
    using closely_entry [OF ok a] .
  have "table_ok (T\<lparr>m_closelyWatchedAllocationsByAddress := ?c\<rparr>)"
  proof (rule table_ok_closely [OF ok])
    show "um_ok ?c" using okc by (simp add: um_simps)
    show "alloc_memory b = q \<and> deref_info T (watchedStackTraceInfo b) \<noteq> None"
      if "um_find ?c q = Some b" for q b
      using that key closely_entry [OF ok, of q b] by (auto simp: F split: if_splits)
    fix P :: "ptr \<Rightarrow> CloselyWatchedAllocation \<Rightarrow> bool"
    assume P: "\<And>k k' a a'. watchedStackTraceInfo a = watchedStackTraceInfo a' \<Longrightarrow> P k a = P k' a'"
    have "P p (a\<lparr>requestedSize := to_uint32 sz\<rparr>) = P p a" by (rule P) simp
    then show "num_entries P ?c = num_entries P (closely T)"
      using okc a by (intro um.num_cong) (auto simp: F um_simps split: if_splits)
  qed
  moreover have "memory_ok env k (T\<lparr>m_closelyWatchedAllocationsByAddress := ?c\<rparr>) h"
    using M a assms(3,4) unfolding memory_ok_def
    by (auto simp: F actualSize_def split: if_splits)
  ultimately have "sys_ok env k (T\<lparr>m_closelyWatchedAllocationsByAddress := ?c\<rparr>) h"
    using L by (simp add: sys_ok_def)
  then show ?thesis using F assms(3,5) by (auto simp: reallocate_closely_def Let_def)
qed

lemma reallocate_closely_moves:
  assumes S: "sys_ok env k T h" and a: "um_find (closely T) p = Some a"
    and sizes: "roundUpToPageMultiple env (to_uint32 sz) \<noteq> roundUpToPageMultiple env (requestedSize a)"
      "requestedSize a \<le> roundUpToPageMultiple env (to_uint32 sz)"
    and fits: "page_env env k" "unat (to_uint32 sz) + 2 ^ k \<le> 2 ^ 32" and "environment w = env"
    and m: "memalign_ok w" "real_memalign_call w (to_uint64 (pageSize env))
      (to_uint64 (roundUpToPageMultiple env (to_uint32 sz))) h = (r, h1)" "r \<noteq> nullptr"
  shows "\<exists>T' h'. reallocate_closely w p sz a T h = Inr (r, T', h') \<and> sys_ok env k T' h'
    \<and> um_find (closely T') = (um_find (closely T))(p := None,
        r \<mapsto> a\<lparr>requestedSize := to_uint32 sz, alloc_memory := r\<rparr>)
    \<and> light T' = light T \<and> blocks h' = blocks h1 \<and> r \<noteq> p \<and> blocks h' p = blocks h p"
proof -
  have ok: "table_ok T" and M: "memory_ok env k T h" and L: "limits_ok env T"
    using S by (simp_all add: sys_ok_def)
  let ?n = "unat (roundUpToPageMultiple env (to_uint32 sz))"
  let ?a = "a\<lparr>requestedSize := to_uint32 sz, alloc_memory := r\<rparr>"
  let ?c = "move_entry p r ?a (closely T)"
  have "allocates ?n (real_memalign_call w (to_uint64 (pageSize env))
      (to_uint64 (roundUpToPageMultiple env (to_uint32 sz))))"
    using m(1) unfolding memalign_ok_def by (metis unat_to_uint64)
  from this m(2,3) obtain s where s: "?n \<le> s" and fresh: "blocks h r = None"
    and h1: "blocks h1 = (blocks h)(r \<mapsto> s)"
    by (auto elim: allocates_cases)
  from M a obtain s0 where p: "p \<noteq> nullptr" "blocks h p = Some s0" "unat (actualSize env a) \<le> s0"
    and req: "unat (requestedSize a) + 2 ^ k \<le> 2 ^ 32" "um_find (light T) p = None"
    unfolding memory_ok_def by (metis not_Some_eq)
  have rp: "r \<noteq> p" using fresh p(2) by auto
  have "unat (requestedSize a) \<le> s0"
    using round_bounds(2) [OF fits(1) req(1)] p(3) by (simp add: actualSize_def)
  moreover have "unat (requestedSize a) \<le> s"
    using sizes(2) s by (simp add: word_le_nat_alt)
  ultimately obtain h2 where h2: "memcpy r p (unat (requestedSize a)) h1 = Inr h2"
    and b2: "blocks h2 = blocks h1"
    using m(3) p(1,2) h1 rp by (auto simp: memcpy_def in_block_def)
  have new: "um_find (closely T) r = None" "um_find (light T) r = None"
    using fresh_untracked [OF M fresh] by auto
  note F = find_move_entry [OF a new(1), of ?a]
  have okc: "um_ok (closely T)" using ok by (simp add: table_ok_defs)
  obtain info where key: "deref_info T (watchedStackTraceInfo a) = Some info"
    using closely_entry [OF ok a] by blast
  have "table_ok (T\<lparr>m_closelyWatchedAllocationsByAddress := ?c\<rparr>)"
  proof (rule table_ok_closely [OF ok um_ok_move_entry [OF okc]])
    show "alloc_memory b = q \<and> deref_info T (watchedStackTraceInfo b) \<noteq> None"
      if "um_find ?c q = Some b" for q b
      using that key closely_entry [OF ok, of q b] by (auto simp: F split: if_splits)
    fix P :: "ptr \<Rightarrow> CloselyWatchedAllocation \<Rightarrow> bool"
    assume P: "\<And>k k' a a'. watchedStackTraceInfo a = watchedStackTraceInfo a' \<Longrightarrow> P k a = P k' a'"
    have "P k' ?a = P p a" for k' by (rule P) simp
    then show "num_entries P ?c = num_entries P (closely T)"
      by (rule num_move_entry [OF okc a new(1)])
  qed
  moreover have "memory_ok env k (T\<lparr>m_closelyWatchedAllocationsByAddress := ?c\<rparr>) h2"
    using M s new m(3) fits(2) unfolding memory_ok_def
    by (fastforce simp: F b2 h1 actualSize_def split: if_splits)
  ultimately have "sys_ok env k (T\<lparr>m_closelyWatchedAllocationsByAddress := ?c\<rparr>) h2"
    using L by (simp add: sys_ok_def)
  moreover have "reallocate_closely w p sz a T h = Inr (r, T\<lparr>m_closelyWatchedAllocationsByAddress := ?c\<rparr>, h2)"
    using sizes(1) m(2) h2 \<open>environment w = env\<close> by (auto simp: reallocate_closely_def Let_def)
  ultimately show ?thesis using F b2 rp h1 by auto
qed

end
