(* ===== verification/Sample_Processes.thy ===== *)
theory Sample_Processes
  imports Table_Steps
begin

text \<open>
  Small concrete processes, on which the properties of the table are instantiated: one that has
  tracked nothing, one with a lightly tracked block and one with a closely watched block, all
  with the default configuration, first-fit allocators and 4 KiB pages.
\<close>

definition sample_surroundings :: Surroundings where
  "sample_surroundings = \<lparr>environment = sample_env, watchState = Watching, time_now = 1000,
     clock_now = 5, current_trace = sample_trace,
     real_memalign_call = (\<lambda>al n. alloc_at 1048576 (unat n))\<rparr>"

definition empty_process :: Process where
  "empty_process = \<lparr>table = emptyTable, proc_heap = \<lparr>blocks = Map.empty, bytes = (\<lambda>_. 0), errorCode = 0\<rparr>,
     thread_inLibrary = False\<rparr>"

definition light_entry :: LightAllocation where
  "light_entry = \<lparr>alloc_memory = 65536, requestedSize = 100, deadline = 1030, fingerprint = 7\<rparr>"

definition light_process :: Process where
  "light_process = empty_process\<lparr>table := emptyTable\<lparr>m_lightAllocationsByAddress := [(65536, light_entry)]\<rparr>,
     proc_heap := \<lparr>blocks = [65536 \<mapsto> 100], bytes = (\<lambda>_. 0), errorCode = 0\<rparr>\<rparr>"

definition watched_entry :: CloselyWatchedAllocation where
  "watched_entry = \<lparr>alloc_memory = 65536, requestedSize = 5000, deadline = 1030,
     watched_state = NotYetSuspicious, allocationTime = 1000, watchedStackTraceInfo = (7, sample_trace)\<rparr>"

definition watched_info :: WatchedStackTraceInfo where
  "watched_info = count_watched (WatchedStackTraceInfo_construct sample_trace)"

definition watched_table :: AllocationTable where
  "watched_table = emptyTable\<lparr>m_closelyWatchedAllocationsByAddress := [(65536, watched_entry)],
     m_suspiciousFingerprints := [(7, [(sample_trace, watched_info)])],
     countLiveCloselyWatchedAllocationsAllTraces := 1\<rparr>"

definition watched_process :: Process where
  "watched_process = empty_process\<lparr>table := watched_table,
     proc_heap := \<lparr>blocks = [65536 \<mapsto> 8192], bytes = (\<lambda>_. 0), errorCode = 0\<rparr>\<rparr>"

lemma empty_frame [simp]:
  "light emptyTable = []" "closely emptyTable = []" "suspicious emptyTable = []"
  "countLiveCloselyWatchedAllocationsAllTraces emptyTable = 0" "deref_info emptyTable r = None"
  by (simp_all add: emptyTable_def deref_info_def um_simps)

lemma sys_ok_empty: "sys_ok env k emptyTable h"
  by (simp add: sys_ok_def table_ok_empty limits_ok_def memory_ok_def um_simps)

lemma sample_memalign: "memalign_ok sample_surroundings"
  by (simp add: memalign_ok_def sample_surroundings_def allocates_alloc_at)

lemma sample_surroundings_simps [simp]:
  "environment sample_surroundings = sample_env" "watchState sample_surroundings = Watching"
  "time_now sample_surroundings = 1000" "clock_now sample_surroundings = 5"
  "current_trace sample_surroundings = sample_trace"
  "real_memalign_call sample_surroundings al n = alloc_at 1048576 (unat n)"
  by (simp_all add: sample_surroundings_def)

lemma sample_not_bypass [simp]:
  "\<not> bypass sample_surroundings empty_process" "\<not> bypass sample_surroundings light_process"
  "\<not> bypass sample_surroundings watched_process"
  by (simp_all add: bypass_def inLibrary_def empty_process_def light_process_def watched_process_def)

lemma sample_tables [simp]:
  "um_find (light (table watched_process)) = Map.empty"
  "um_find (closely (table watched_process)) = [65536 \<mapsto> watched_entry]"
  "blocks (proc_heap watched_process) = [65536 \<mapsto> 8192]"
  "um_find (light (table light_process)) = [65536 \<mapsto> light_entry]"
  "blocks (proc_heap light_process) = [65536 \<mapsto> 100]"
  "blocks (proc_heap empty_process) = Map.empty"
  "table empty_process = emptyTable" "requestedSize watched_entry = 5000"
  by (simp_all add: watched_process_def watched_table_def light_process_def empty_process_def
      watched_entry_def um_find_def fun_eq_iff)

lemma sample_rounding [simp]:
  "roundUpToPageMultiple sample_env 5000 = 8192" "roundUpToPageMultiple sample_env 9000 = 12288"
  "roundUpToPageMultiple sample_env 100 = 4096"
  by (simp_all add: roundUpToPageMultiple_def sample_env_def)

lemma sample_room: "room emptyTable"
  by (simp add: room_def)

lemma um_find_single [simp]: "um_find [(k, v)] = [k \<mapsto> v]"
  by (auto simp: um_find_def)

lemma watched_table_deref: "deref_info watched_table = [(7, sample_trace) \<mapsto> watched_info]"
  by (auto simp: deref_info_def watched_table_def fun_eq_iff prod_eq_iff)

lemma sample_sys_ok:
  "sys_ok sample_env 12 (table empty_process) (proc_heap empty_process)"
  "sys_ok sample_env 12 (table light_process) (proc_heap light_process)"
  "sys_ok sample_env 12 (table watched_process) (proc_heap watched_process)"
proof -
  show "sys_ok sample_env 12 (table empty_process) (proc_heap empty_process)"
    by (simp add: empty_process_def sys_ok_empty)
  have "table_ok (table light_process)"
    using table_ok_light_set [OF table_ok_empty, of light_entry 65536]
    by (simp add: light_process_def light_entry_def um_set_def)
  then show "sys_ok sample_env 12 (table light_process) (proc_heap light_process)"
    by (simp add: sys_ok_def light_process_def limits_ok_def memory_ok_def um_simps)
  have "table_ok watched_table"
  proof (rule table_okI)
    show "maps_ok watched_table" by (simp add: maps_ok_def watched_table_def um_ok_def um_simps)
    show "keys_ok watched_table"
      unfolding keys_ok_def watched_table_deref
      by (simp add: watched_table_def watched_entry_def um_simps)
  qed (auto simp: watched_table_deref, auto simp: watched_table_def num_entries_def watched_entry_def
      watched_info_def info_ok_def count_watched_def WatchedStackTraceInfo_construct_def split: if_splits)
  then show "sys_ok sample_env 12 (table watched_process) (proc_heap watched_process)"
    unfolding sys_ok_def limits_ok_def memory_ok_def
    by (simp add: watched_process_def watched_table_deref)
      (simp add: watched_table_def watched_info_def watched_entry_def actualSize_def sample_env_def
        roundUpToPageMultiple_def count_watched_def WatchedStackTraceInfo_construct_def um_simps)
qed

end
