(* ===== verification/Table_Histories.thy ===== *)
theory Table_Histories
  imports Sample_Processes
begin

text \<open>
  The table's operations as the wrappers and the patrol thread call them, on the state of a
  process: what each guarantees, and the invariant of every state a process can reach. A
  history is a sequence of steps of any threads; the table's mutex makes each operation one
  step. The bound on its length keeps the 32-bit counters of watched allocations from wrapping.
\<close>

abbreviation system_ok :: "Environment \<Rightarrow> nat \<Rightarrow> Process \<Rightarrow> bool" where
  "system_ok env k p \<equiv> sys_ok env k (table p) (proc_heap p)"

definition untracked :: "ptr \<Rightarrow> Process \<Rightarrow> bool" where
  "untracked m p \<longleftrightarrow> um_find (light (table p)) m = None \<and> um_find (closely (table p)) m = None"

section \<open>Allocation and free\<close>

lemma run_locked_Inr:
  assumes "body (table p) (proc_heap p) = Inr (r, T, h)" and "\<not> thread_inLibrary p"
  shows "run_locked body p = Inr (r, p\<lparr>table := T, proc_heap := h, thread_inLibrary := False\<rparr>)"
  using assms by (simp add: run_locked_def)

lemma not_bypass: "\<not> bypass w p \<Longrightarrow> \<not> thread_inLibrary p"
  by (simp add: bypass_def inLibrary_def)

lemma instrumentedAllocate_safe:
  assumes "page_env (environment w) k" and "memalign_ok w" and "system_ok (environment w) k p"
    and "room (table p)" and "unat n + 2 ^ k \<le> 2 ^ 32" and "allocates (unat n) f"
  shows "\<exists>r p'. instrumentedAllocate w n al fp f zf p = Inr (r, p')
    \<and> system_ok (environment w) k p' \<and> allocated (unat n) (proc_heap p) r (proc_heap p')
    \<and> thread_inLibrary p' = thread_inLibrary p"
proof (cases "bypass w p")
  case True
  obtain r h where f: "f (proc_heap p) = (r, h)" by force
  have "allocated (unat n) (proc_heap p) r h" by (rule allocates_allocated [OF assms(6) f])
  with True f sys_ok_grow [OF assms(3) this] show ?thesis
    by (simp add: instrumentedAllocate_def call_directly_def)
next
  case False
  from allocate_locked_safe [OF assms] obtain r T h where
    body: "allocate_locked w n al fp f zf (table p) (proc_heap p) = Inr (r, T, h)"
    and ok: "sys_ok (environment w) k T h" "allocated (unat n) (proc_heap p) r h" by blast
  from body have "run_locked (allocate_locked w n al fp f zf) p
      = Inr (r, p\<lparr>table := T, proc_heap := h, thread_inLibrary := False\<rparr>)"
    using not_bypass [OF False] by (rule run_locked_Inr)
  with False ok not_bypass [OF False] show ?thesis
    by (simp add: instrumentedAllocate_def)
qed

lemma instrumentedFree_safe:
  assumes S: "system_ok env k p" and f: "frees m f" and "m \<noteq> nullptr"
    and "bypass w p \<Longrightarrow> untracked m p"
  shows "\<exists>p'. instrumentedFree w m f p = Inr (Some (fst (f (proc_heap p))), p')
    \<and> system_ok env k p' \<and> untracked m p' \<and> proc_heap p' = snd (f (proc_heap p))
    \<and> thread_inLibrary p' = thread_inLibrary p"
proof -
  obtain x h where fh: "f (proc_heap p) = (x, h)" by force
  with f have h: "blocks h = (blocks (proc_heap p))(m := None)"
    unfolding frees_def by (metis snd_conv)
  show ?thesis
  proof (cases "bypass w p")
    case True
    with assms(4) have U: "untracked m p" .
    then have "sys_ok env k (table p) h"
      using S by (auto simp: sys_ok_def memory_ok_def untracked_def h)
    with True fh U \<open>m \<noteq> nullptr\<close> show ?thesis
      by (simp add: instrumentedFree_def call_directly_def untracked_def)
  next
    case False
    let ?T = "count_free (clock_now w) (table p)"
    have S': "sys_ok env k ?T (proc_heap p)" using S by simp
    then have "table_ok ?T" by (simp only: sys_ok_def)
    from untrack_ok [OF this, of m] obtain T' where T': "untrack m ?T = Inr T'" by blast
    have ok: "sys_ok env k T' h" "um_find (light T') m = None" "um_find (closely T') m = None"
      by (rule sys_ok_untrack [OF S' T'], simp add: h)+
    have "free_locked w m f (table p) (proc_heap p) = Inr (x, T', h)"
      using T' fh by (simp add: free_locked_def)
    from run_locked_Inr [of "free_locked w m f", OF this not_bypass [OF False]]
      False ok fh \<open>m \<noteq> nullptr\<close> not_bypass [OF False] show ?thesis
      by (simp add: instrumentedFree_def untracked_def)
  qed
qed

text \<open>
  C2. Allocation never faults and keeps the invariant: from a consistent table over live
  memory, with allocators that keep their contract and a request that rounds to pages within
  32 bits, an allocation returns null or a new block of at least the requested size, and
  leaves a consistent table that tracks only live blocks and respects both limits.
\<close>

theorem allocate_safe:
  assumes "page_env (environment w) k" and "memalign_ok w" and "system_ok (environment w) k p"
    and "room (table p)" and "unat n + 2 ^ k \<le> 2 ^ 32" and "allocates (unat n) f"
  shows "\<exists>r p'. instrumentedAllocate w n al fp f zf p = Inr (r, p')
    \<and> system_ok (environment w) k p' \<and> allocated (unat n) (proc_heap p) r (proc_heap p')
    \<and> thread_inLibrary p' = thread_inLibrary p"
  using assms by (rule instrumentedAllocate_safe)

theorem allocate_safe_witness:
  "\<exists>r p'. instrumentedAllocate sample_surroundings 100 1 7 (alloc_at 65536 100) Needed empty_process = Inr (r, p')
    \<and> system_ok sample_env 12 p' \<and> allocated 100 (proc_heap empty_process) r (proc_heap p')"
  using allocate_safe [of sample_surroundings 12 empty_process 100 "alloc_at 65536 100" 1 7 Needed]
    sample_sys_ok(1) page_sample_env
  by (auto simp: sample_memalign sample_room allocates_alloc_at)

text \<open>
  C3. Freeing a block never faults, calls the wrapped free function exactly once, removes the
  block from the tables and keeps the invariant, whichever table tracked it. The one proviso is
  that a call that bypasses the tables must not concern a tracked block.
\<close>

theorem free_safe:
  assumes "system_ok env k p" and "frees m f" and "m \<noteq> nullptr"
    and "bypass w p \<Longrightarrow> untracked m p"
  shows "\<exists>p'. instrumentedFree w m f p = Inr (Some (fst (f (proc_heap p))), p')
    \<and> system_ok env k p' \<and> untracked m p' \<and> proc_heap p' = snd (f (proc_heap p))
    \<and> thread_inLibrary p' = thread_inLibrary p"
  using assms by (rule instrumentedFree_safe)

theorem free_safe_witness:
  "\<exists>p'. instrumentedFree sample_surroundings 65536 (release 65536) watched_process = Inr (Some (), p')
    \<and> system_ok sample_env 12 p' \<and> untracked 65536 p'"
  using free_safe [OF sample_sys_ok(3) frees_release, of 65536 sample_surroundings]
  by (auto simp: release_def)

lemma null_untracked: "sys_ok env k T h \<Longrightarrow> um_find (light T) nullptr = None"
  by (auto simp: sys_ok_def memory_ok_def)

section \<open>Reallocation\<close>

text \<open>When a reallocation is sound: the cases the code gets right.\<close>

definition realloc_fine :: "Surroundings \<Rightarrow> nat \<Rightarrow> ptr \<Rightarrow> uint64 \<Rightarrow> allocator \<Rightarrow> Process \<Rightarrow> bool" where
  "realloc_fine w k m sz f p \<longleftrightarrow> (bypass w p \<longrightarrow> untracked m p) \<and> (\<not> bypass w p \<longrightarrow>
     (um_find (light (table p)) m \<noteq> None \<longrightarrow> fst (f (proc_heap p)) \<noteq> nullptr)
     \<and> (case um_find (closely (table p)) m of None \<Rightarrow> True | Some a \<Rightarrow>
          let env = environment w; new = roundUpToPageMultiple env (to_uint32 sz)
          in unat (to_uint32 sz) + 2 ^ k \<le> 2 ^ 32
             \<and> (new \<noteq> roundUpToPageMultiple env (requestedSize a) \<longrightarrow> requestedSize a \<le> new
                \<and> fst (real_memalign_call w (to_uint64 (pageSize env)) (to_uint64 new) (proc_heap p)) \<noteq> nullptr)))"

lemma sys_ok_realloc_untracked:
  assumes S: "sys_ok env k T h" and u: "um_find (light T) m = None" "um_find (closely T) m = None"
    and f: "reallocates n m f" "f h = (r, h')"
  shows "sys_ok env k T h'"
proof -
  have M: "memory_ok env k T h" using S by (simp add: sys_ok_def)
  from f have "memory_ok env k T h'"
  proof (cases rule: reallocates_cases)
    case (2 s)
    with u fresh_untracked [OF M, of r] have r: "um_find (light T) r = None" "um_find (closely T) r = None"
      by auto
    from M u r show ?thesis unfolding memory_ok_def 2(4)
      by (metis fun_upd_other option.distinct(1))
  qed (use M in \<open>simp add: memory_ok_def\<close>)
  with S show ?thesis by (simp add: sys_ok_def)
qed

lemma reallocate_locked_safe:
  assumes env: "page_env (environment w) k" and "memalign_ok w" and "sys_ok (environment w) k T h"
    and f: "reallocates n m f" and "\<not> bypass w p" and "realloc_fine w k m sz f p"
    and "table p = T" "proc_heap p = h"
  shows "\<exists>r T' h'. reallocate_locked w m sz f T h = Inr (r, T', h') \<and> sys_ok (environment w) k T' h'
    \<and> (r \<noteq> nullptr \<longrightarrow> (um_find (light T') r = None \<longleftrightarrow> um_find (light T) m = None)
         \<and> (um_find (closely T') r = None \<longleftrightarrow> um_find (closely T) m = None))"
proof -
  let ?env = "environment w" and ?T = "count_realloc (clock_now w) T"
  have S: "sys_ok ?env k ?T h" using assms(3) by simp
  then have M: "memory_ok ?env k ?T h" by (simp only: sys_ok_def)
  obtain r h1 where fh: "f h = (r, h1)" by force
  show ?thesis
  proof (cases "um_find (light ?T) m")
    case (Some a)
    then have none: "um_find (closely ?T) m = None" using M by (auto simp: memory_ok_def)
    have "r \<noteq> nullptr" using assms(5-8) Some fh by (auto simp: realloc_fine_def)
    moreover have "um_find (closely ?T) r = None"
      using f fh none fresh_untracked [OF M, of r] \<open>r \<noteq> nullptr\<close> by (auto elim: reallocates_cases)
    ultimately show ?thesis
      using reallocate_light_safe [OF S Some f fh] Some none
      by (fastforce simp: reallocate_locked_def reallocate_light_def Let_def fh)
  next
    case light: None
    show ?thesis
    proof (cases "um_find (closely ?T) m")
      case None
      have "um_find (light ?T) r = None \<and> um_find (closely ?T) r = None" if "r \<noteq> nullptr"
        using f fh None light fresh_untracked [OF M, of r] that by (auto elim: reallocates_cases)
      with None light fh sys_ok_realloc_untracked [OF S light None f fh] show ?thesis
        by (auto simp: reallocate_locked_def)
    next
      case (Some a)
      let ?new = "roundUpToPageMultiple ?env (to_uint32 sz)"
      have fine: "unat (to_uint32 sz) + 2 ^ k \<le> 2 ^ 32"
        "?new \<noteq> roundUpToPageMultiple ?env (requestedSize a) \<Longrightarrow> requestedSize a \<le> ?new
          \<and> fst (real_memalign_call w (to_uint64 (pageSize ?env)) (to_uint64 ?new) h) \<noteq> nullptr"
        using assms(5-8) Some by (simp_all add: realloc_fine_def Let_def)
      show ?thesis
      proof (cases "?new = roundUpToPageMultiple ?env (requestedSize a)")
        case True
        from reallocate_closely_in_place [OF S Some True fine(1) refl]
        obtain T' where stays: "reallocate_closely w m sz a ?T h = Inr (m, T', h)"
          "sys_ok ?env k T' h" "um_find (closely T') m \<noteq> None" by auto
        then have "um_find (light T') m = None" by (auto simp: sys_ok_def memory_ok_def)
        with stays Some light show ?thesis by (auto simp: reallocate_locked_def)
      next
        case False
        obtain q h2 where q: "real_memalign_call w (to_uint64 (pageSize ?env)) (to_uint64 ?new) h = (q, h2)"
          by force
        from reallocate_closely_moves [OF S Some False _ env fine(1) refl assms(2) q] fine(2) [OF False] q
        obtain T' h' where moved: "reallocate_closely w m sz a ?T h = Inr (q, T', h')"
          "sys_ok ?env k T' h'" "um_find (closely T') q \<noteq> None" by auto
        then have "um_find (light T') q = None" by (auto simp: sys_ok_def memory_ok_def)
        with moved Some light show ?thesis by (auto simp: reallocate_locked_def)
      qed
    qed
  qed
qed

lemma instrumentedReallocate_safe:
  assumes "page_env (environment w) k" and "memalign_ok w" and "system_ok (environment w) k p"
    and "reallocates n m f" and "realloc_fine w k m sz f p"
  shows "\<exists>r p'. instrumentedReallocate w m sz f p = Inr (r, p') \<and> system_ok (environment w) k p'
    \<and> thread_inLibrary p' = thread_inLibrary p
    \<and> (r \<noteq> nullptr \<longrightarrow>
        (um_find (light (table p')) r = None \<longleftrightarrow> um_find (light (table p)) m = None)
        \<and> (um_find (closely (table p')) r = None \<longleftrightarrow> um_find (closely (table p)) m = None))"
proof (cases "bypass w p")
  case True
  obtain r h where fh: "f (proc_heap p) = (r, h)" by force
  have u: "um_find (light (table p)) m = None" "um_find (closely (table p)) m = None"
    using assms(5) True by (simp_all add: realloc_fine_def untracked_def)
  have "um_find (light (table p)) r = None \<and> um_find (closely (table p)) r = None" if "r \<noteq> nullptr"
    using assms(3,4) u fh that fresh_untracked [of "environment w" k "table p" "proc_heap p" r]
    by (auto simp: sys_ok_def elim: reallocates_cases)
  with True fh u sys_ok_realloc_untracked [OF assms(3) u assms(4) fh] show ?thesis
    by (simp add: instrumentedReallocate_def call_directly_def)
next
  case False
  from reallocate_locked_safe [OF assms(1-4) False assms(5) refl refl]
  obtain r T h where body: "reallocate_locked w m sz f (table p) (proc_heap p) = Inr (r, T, h)"
    and ok: "sys_ok (environment w) k T h" "r \<noteq> nullptr \<longrightarrow>
      (um_find (light T) r = None \<longleftrightarrow> um_find (light (table p)) m = None)
      \<and> (um_find (closely T) r = None \<longleftrightarrow> um_find (closely (table p)) m = None)"
    by (elim exE conjE) (rule that)
  from run_locked_Inr [of "reallocate_locked w m sz f", OF body not_bypass [OF False]]
    False ok not_bypass [OF False] show ?thesis
    by (simp add: instrumentedReallocate_def)
qed

text \<open>
  C24. Reallocation in the cases the code gets right (tracked lightly and the reallocator
  succeeds, watched and the size in pages unchanged or grown with memory available, or not
  tracked): it never faults, keeps the invariant, and the block it returns is tracked in the
  table the old one was tracked in.
\<close>

theorem realloc_safe:
  assumes "page_env (environment w) k" and "memalign_ok w" and "system_ok (environment w) k p"
    and "reallocates n m f" and "realloc_fine w k m sz f p"
  shows "\<exists>r p'. instrumentedReallocate w m sz f p = Inr (r, p') \<and> system_ok (environment w) k p'
    \<and> thread_inLibrary p' = thread_inLibrary p
    \<and> (r \<noteq> nullptr \<longrightarrow>
        (um_find (light (table p')) r = None \<longleftrightarrow> um_find (light (table p)) m = None)
        \<and> (um_find (closely (table p')) r = None \<longleftrightarrow> um_find (closely (table p)) m = None))"
  using assms by (rule instrumentedReallocate_safe)

lemma sample_realloc_fine:
  "realloc_fine sample_surroundings 12 65536 9000 (realloc_at 65536 65536 9000) watched_process"
  by (simp add: realloc_fine_def Let_def alloc_at_def)

theorem realloc_safe_witness:
  "\<exists>r p'. instrumentedReallocate sample_surroundings 65536 9000 (realloc_at 65536 65536 9000) watched_process
      = Inr (r, p') \<and> system_ok sample_env 12 p'"
  using realloc_safe [of sample_surroundings 12 watched_process 9000, OF _ sample_memalign _
      reallocates_realloc_at sample_realloc_fine] sample_sys_ok(3) page_sample_env
  by auto

text \<open>
  C25. Shrinking a watched allocation writes out of bounds: when the new size needs fewer pages
  than the old request has bytes, the code copies the old request's size into the new, smaller
  block; and when memalign fails it copies to the null pointer.
\<close>

theorem realloc_shrink_faults:
  assumes "\<not> bypass w p" and "um_find (light (table p)) m = None"
    and "um_find (closely (table p)) m = Some a" and "m \<noteq> nullptr"
    and "new = roundUpToPageMultiple (environment w) (to_uint32 sz)"
    and "new < requestedSize a" and "new \<noteq> roundUpToPageMultiple (environment w) (requestedSize a)"
    and "real_memalign_call w (to_uint64 (pageSize (environment w))) (to_uint64 new) (proc_heap p) = (r, h)"
    and "r = nullptr \<or> blocks h r = Some (unat new)"
  shows "instrumentedReallocate w m sz f p = Inl (if r = nullptr then NullAccess else OutOfBounds)"
  using assms
  by (auto simp: instrumentedReallocate_def run_locked_def reallocate_locked_def not_bypass
      reallocate_closely_def Let_def memcpy_def in_block_def word_less_nat_alt)

theorem realloc_shrink_faults_witness:
  "instrumentedReallocate sample_surroundings 65536 100 (realloc_at 65536 65536 100) watched_process = Inl OutOfBounds"
  using realloc_shrink_faults [of sample_surroundings watched_process 65536 watched_entry 4096 100 1048576
      "(proc_heap watched_process)\<lparr>blocks := (blocks (proc_heap watched_process))(1048576 \<mapsto> 4096)\<rparr>"
      "realloc_at 65536 65536 100"]
  by (simp add: alloc_at_def)

text \<open>
  C26. A failed realloc of a lightly tracked block loses it: the C contract keeps the old block
  alive when realloc returns null, but the table drops its entry and stores one for address 0,
  so the block can never become suspicious and the invariant is broken.
\<close>

theorem failed_realloc_untracks:
  assumes "system_ok env k p" and "\<not> bypass w p" and "um_find (light (table p)) m = Some a"
    and "f (proc_heap p) = (nullptr, proc_heap p)"
  shows "\<exists>p'. instrumentedReallocate w m sz f p = Inr (nullptr, p')
    \<and> blocks (proc_heap p') m \<noteq> None \<and> untracked m p'
    \<and> um_find (light (table p')) nullptr \<noteq> None \<and> \<not> system_ok env k p'"
proof -
  let ?T = "count_realloc (clock_now w) (table p)"
  let ?a = "a\<lparr>requestedSize := to_uint32 sz\<rparr>"
  have M: "memory_ok env k (table p) (proc_heap p)" using assms(1) by (simp add: sys_ok_def)
  then have m: "m \<noteq> nullptr" "blocks (proc_heap p) m \<noteq> None" "um_find (closely (table p)) m = None"
    and null: "um_find (light (table p)) nullptr = None"
    using assms(3) by (auto simp: memory_ok_def)
  let ?l1 = "um_modify m (\<lambda>_. ?a) (light (table p))"
  let ?l = "move_entry m nullptr (?a\<lparr>alloc_memory := nullptr\<rparr>) ?l1"
  have "um_find ?l1 nullptr = None" "um_find ?l1 m = Some ?a"
    using null assms(3) m by (simp_all add: um_simps)
  note F = find_move_entry [OF this(2,1)]
  have "reallocate_locked w m sz f (table p) (proc_heap p)
      = Inr (nullptr, ?T\<lparr>m_lightAllocationsByAddress := ?l\<rparr>, proc_heap p)"
    using assms(3,4) m by (simp add: reallocate_locked_def reallocate_light_def Let_def)
  from run_locked_Inr [of "reallocate_locked w m sz f", OF this not_bypass [OF assms(2)]]
  show ?thesis
    using assms(2) m F null_untracked [of env k] by (fastforce simp: instrumentedReallocate_def untracked_def)
qed

theorem failed_realloc_untracks_witness:
  "\<exists>p'. instrumentedReallocate sample_surroundings 65536 9000 (\<lambda>h. (nullptr, h)) light_process = Inr (nullptr, p')
    \<and> blocks (proc_heap p') 65536 \<noteq> None \<and> untracked 65536 p'"
  using failed_realloc_untracks [OF sample_sys_ok(2), of sample_surroundings 65536 light_entry "\<lambda>h. (nullptr, h)" 9000]
  by auto

text \<open>
  Moving a watched allocation leaks the old block: after a growing realloc of a watched
  block the old block is still live, is no longer tracked, and was not passed to any free
  function, although realloc promises to release it.
\<close>

theorem moved_realloc_keeps_old_block:
  assumes "system_ok (environment w) k p" and "page_env (environment w) k" and "memalign_ok w"
    and "\<not> bypass w p" and "um_find (closely (table p)) m = Some a"
    and "realloc_fine w k m sz f p"
    and "roundUpToPageMultiple (environment w) (to_uint32 sz)
      \<noteq> roundUpToPageMultiple (environment w) (requestedSize a)"
  shows "\<exists>r p'. instrumentedReallocate w m sz f p = Inr (r, p') \<and> r \<noteq> m \<and> r \<noteq> nullptr
    \<and> blocks (proc_heap p') m = blocks (proc_heap p) m \<and> blocks (proc_heap p') m \<noteq> None
    \<and> untracked m p'"
proof -
  let ?env = "environment w" and ?T = "count_realloc (clock_now w) (table p)"
  let ?new = "roundUpToPageMultiple ?env (to_uint32 sz)"
  have S: "sys_ok ?env k ?T (proc_heap p)" and a: "um_find (closely ?T) m = Some a"
    using assms(1,5) by simp_all
  from S have M: "memory_ok ?env k ?T (proc_heap p)" by (simp only: sys_ok_def)
  with a have light: "um_find (light ?T) m = None" and live: "blocks (proc_heap p) m \<noteq> None"
    by (force simp: memory_ok_def)+
  obtain r h where r: "real_memalign_call w (to_uint64 (pageSize ?env)) (to_uint64 ?new) (proc_heap p) = (r, h)"
    by force
  have fine: "unat (to_uint32 sz) + 2 ^ k \<le> 2 ^ 32" "requestedSize a \<le> ?new" "r \<noteq> nullptr"
    using assms(4-7) r by (simp_all add: realloc_fine_def Let_def)
  from reallocate_closely_moves [OF S a assms(7) fine(2) assms(2) fine(1) refl assms(3) r fine(3)]
  obtain T' h' where moved: "reallocate_closely w m sz a ?T (proc_heap p) = Inr (r, T', h')"
    "r \<noteq> m" "blocks h' m = blocks (proc_heap p) m"
    "um_find (closely T') m = None" "um_find (light T') m = None"
    using light by auto
  then have "reallocate_locked w m sz f (table p) (proc_heap p) = Inr (r, T', h')"
    using a light by (simp add: reallocate_locked_def)
  from run_locked_Inr [of "reallocate_locked w m sz f", OF this not_bypass [OF assms(4)]]
  show ?thesis
    using assms(4) moved live fine(3) by (auto simp: instrumentedReallocate_def untracked_def)
qed

theorem moved_realloc_keeps_old_block_witness:
  "\<exists>r p'. instrumentedReallocate sample_surroundings 65536 9000 (realloc_at 65536 65536 9000) watched_process
      = Inr (r, p') \<and> r \<noteq> 65536 \<and> blocks (proc_heap p') 65536 = Some 8192 \<and> untracked 65536 p'"
  using moved_realloc_keeps_old_block [of sample_surroundings 12 watched_process 65536 watched_entry 9000,
      OF _ _ sample_memalign _ _ sample_realloc_fine] sample_sys_ok(3) page_sample_env
  by auto

section \<open>Histories\<close>

text \<open>How many watched allocations a trace has had is at most the number of allocations.\<close>

definition ever_bound :: "nat \<Rightarrow> AllocationTable \<Rightarrow> bool" where
  "ever_bound n T \<longleftrightarrow> (\<forall>r info. deref_info T r = Some info \<longrightarrow>
     unat (countTotalCloselyWatchedAllocationsEverCreated info) \<le> n)"

lemma ever_bound_mono: "ever_bound n T \<Longrightarrow> n \<le> n' \<Longrightarrow> ever_bound n' T"
  by (meson ever_bound_def le_trans)

lemma ever_bound_count [simp]:
  "ever_bound n (count_allocation t T) = ever_bound n T" "ever_bound n (count_realloc t T) = ever_bound n T"
  "ever_bound n (count_free t T) = ever_bound n T"
  "ever_bound n (count_suspicious_allocation T) = ever_bound n T"
  by (simp_all add: ever_bound_def)

lemma ever_bound_light [simp]:
  "ever_bound n (T\<lparr>m_lightAllocationsByAddress := l\<rparr>) = ever_bound n T"
  "ever_bound n (T\<lparr>m_closelyWatchedAllocationsByAddress := c\<rparr>) = ever_bound n T"
  "ever_bound n (T\<lparr>countLiveCloselyWatchedAllocationsAllTraces := g\<rparr>) = ever_bound n T"
  by (simp_all add: ever_bound_def)

lemma ever_bound_update:
  assumes "ever_bound n T" and "\<And>info. unat (countTotalCloselyWatchedAllocationsEverCreated info) \<le> n \<Longrightarrow>
    unat (countTotalCloselyWatchedAllocationsEverCreated (f info)) \<le> n'" and "n \<le> n'"
  shows "ever_bound n' (update_info r f T)"
  using assms unfolding ever_bound_def deref_update by (auto intro: le_trans)

lemma unat_inc_le: "unat x \<le> n \<Longrightarrow> unat (x + 1 :: uint32) \<le> Suc n"
  by (cases "x + 1 = 0") (simp_all add: unat_word_ariths)

lemma ever_after [simp]:
  "countTotalCloselyWatchedAllocationsEverCreated (count_skipped i) = countTotalCloselyWatchedAllocationsEverCreated i"
  "countTotalCloselyWatchedAllocationsEverCreated (count_freed i) = countTotalCloselyWatchedAllocationsEverCreated i"
  "countTotalCloselyWatchedAllocationsEverCreated (count_leaked n i) = countTotalCloselyWatchedAllocationsEverCreated i"
  "countTotalCloselyWatchedAllocationsEverCreated (count_watched i) = countTotalCloselyWatchedAllocationsEverCreated i + 1"
  by (simp_all add: count_skipped_def count_freed_def count_leaked_def count_watched_def)

lemma ever_bound_getOrCreate:
  assumes "ever_bound n T"
  shows "ever_bound n (T\<lparr>m_suspiciousFingerprints := um_modify fp (getOrCreate st) (suspicious T)\<rparr>)"
  using assms unfolding ever_bound_def deref_info_def
  by (auto simp: um_simps getOrCreate_def WatchedStackTraceInfo_construct_def split: option.splits if_splits)

lemma ever_bound_allocate:
  assumes "allocate_locked w n al fp f zf T h = Inr (r, T', h')" and "ever_bound b T"
  shows "ever_bound (Suc b) T'"
proof -
  let ?T2 = "count_suspicious_allocation (count_allocation (clock_now w) T)"
  let ?T3 = "?T2\<lparr>m_suspiciousFingerprints := um_modify fp (getOrCreate (current_trace w)) (suspicious ?T2)\<rparr>"
  have "ever_bound b ?T3" by (rule ever_bound_getOrCreate) (simp add: assms(2))
  then have "ever_bound (Suc b) (update_info (fp, current_trace w) count_watched ?T3)"
    "ever_bound (Suc b) (update_info (fp, current_trace w) count_skipped ?T3)"
    "ever_bound (Suc b) ?T3"
    by (rule ever_bound_update ever_bound_mono; simp add: unat_inc_le)+
  with assms show ?thesis
    by (auto simp: allocate_locked_def allocate_closely_def track_light_def track_closely_def Let_def
        andThen_Inr_iff split: option.splits prod.splits if_splits intro: ever_bound_mono)
qed

lemma ever_bound_patrol_closely:
  "patrol_closely env now xs T leaks = Inr (kept, T', leaks') \<Longrightarrow> ever_bound b T \<Longrightarrow> ever_bound b T'"
proof (induction env now xs T leaks arbitrary: kept T' leaks' rule: patrol_closely.induct)
  case (2 env now k a rest T leaks)
  have "ever_bound b (declare_leak a T)"
    using \<open>ever_bound b T\<close> by (auto simp: declare_leak_def Let_def intro: ever_bound_update)
  with 2 show ?case
    by (auto simp: andThen_Inr_iff split: if_splits WatchedState.splits option.splits)
qed simp

lemma ever_bound_patrol:
  assumes "patrolThreadUpdateAllocationStates env time T = Inr (out, T')" and "ever_bound b T"
  shows "ever_bound b T'"
proof -
  let ?now = "to_uint32 time"
  define sus where "sus = snd (patrol_light ?now (light T) (suspicious T))"
  have "ever_bound b (T\<lparr>m_lightAllocationsByAddress := l, m_suspiciousFingerprints := sus\<rparr>)" for l
  proof -
    have "deref_info (T\<lparr>m_lightAllocationsByAddress := l, m_suspiciousFingerprints := sus\<rparr>) = deref_info T"
      by (auto simp: fun_eq_iff deref_info_def sus_def patrol_light_result find_addSuspicious_fold
          um_simps split: option.split)
    with assms(2) show ?thesis by (simp add: ever_bound_def)
  qed
  with assms(1) show ?thesis
    by (auto simp: patrolThreadUpdateAllocationStates_def Let_def andThen_Inr_iff sus_def
        split: prod.splits elim!: ever_bound_patrol_closely)
qed

lemma ever_bound_freed: "ever_bound b T \<Longrightarrow> ever_bound b (update_info r count_freed T)"
  by (erule ever_bound_update) simp_all

lemma ever_bound_untrack:
  "untrack m T = Inr T' \<Longrightarrow> ever_bound b T \<Longrightarrow> ever_bound b T'"
  by (auto simp: untrack_def untrack_closely_def Let_def ever_bound_freed split: option.splits)

lemma ever_bound_reallocate:
  "reallocate_locked w m sz f T h = Inr (r, T', h') \<Longrightarrow> ever_bound b T \<Longrightarrow> ever_bound b T'"
  by (auto simp: reallocate_locked_def reallocate_light_def reallocate_closely_def Let_def andThen_Inr_iff
      split: option.splits prod.splits if_splits)

text \<open>
  One step of a process: what any of its threads does next; writing to memory is a step too. The predicate \<open>clock\<close> restricts the
  readings of the wall clock, for the properties that depend on them.
\<close>

inductive step :: "Environment \<Rightarrow> nat \<Rightarrow> (uint64 \<Rightarrow> bool) \<Rightarrow> Process \<Rightarrow> Process \<Rightarrow> bool"
  for env k clock where
  step_allocate: "environment w = env \<Longrightarrow> clock (time_now w) \<Longrightarrow> memalign_ok w \<Longrightarrow> allocates (unat n) f \<Longrightarrow>
    unat n + 2 ^ k \<le> 2 ^ 32 \<Longrightarrow> instrumentedAllocate w n al fp f zf p = Inr (r, p') \<Longrightarrow> step env k clock p p'"
| step_free: "environment w = env \<Longrightarrow> frees m f \<Longrightarrow> (bypass w p \<Longrightarrow> untracked m p) \<Longrightarrow>
    instrumentedFree w m (f :: heap \<Rightarrow> unit \<times> heap) p = Inr (u, p') \<Longrightarrow> step env k clock p p'"
| step_realloc: "environment w = env \<Longrightarrow> memalign_ok w \<Longrightarrow> reallocates j m f \<Longrightarrow>
    realloc_fine w k m sz f p \<Longrightarrow> instrumentedReallocate w m sz f p = Inr (r, p') \<Longrightarrow> step env k clock p p'"
| step_patrol: "clock time \<Longrightarrow> patrolThreadUpdateAllocationStates env time (table p) = Inr (out, T') \<Longrightarrow>
    step env k clock p (p\<lparr>table := T'\<rparr>)"
| step_thread: "step env k clock p (p\<lparr>thread_inLibrary := flag\<rparr>)"
| step_write: "blocks h = blocks (proc_heap p) \<Longrightarrow> step env k clock p (p\<lparr>proc_heap := h\<rparr>)"

inductive_cases stepE: "step env k clock p p'"

inductive history :: "Environment \<Rightarrow> nat \<Rightarrow> (uint64 \<Rightarrow> bool) \<Rightarrow> nat \<Rightarrow> Process \<Rightarrow> bool"
  for env k clock where
  history_start: "table p = emptyTable \<Longrightarrow> history env k clock 0 p"
| history_step: "history env k clock n p \<Longrightarrow> step env k clock p p' \<Longrightarrow> history env k clock (Suc n) p'"

lemma room_ever_bound: "ever_bound n T \<Longrightarrow> Suc n < 2 ^ 32 \<Longrightarrow> room T"
  by (fastforce simp: ever_bound_def room_def)

lemma step_ever_bound:
  assumes "step env k clock p p'" and "ever_bound b (table p)"
  shows "ever_bound (Suc b) (table p')"
  using assms(1)
proof cases
  case (step_allocate w n f al fp zf r)
  then show ?thesis
    using assms(2) ever_bound_allocate
    by (auto simp: instrumentedAllocate_def call_directly_def run_locked_def in_scope_def andThen_Inr_iff
        split: if_splits prod.splits intro: ever_bound_mono)
next
  case (step_free w m f u)
  then have "ever_bound b (table p')"
    using assms(2) ever_bound_untrack
    by (cases "f (proc_heap p)") (auto simp: instrumentedFree_def call_directly_def run_locked_def in_scope_def free_locked_def
        andThen_Inr_iff split: if_splits prod.splits)
  then show ?thesis by (rule ever_bound_mono) simp
next
  case (step_realloc w j m f sz r)
  then have "ever_bound b (table p')"
    using assms(2) ever_bound_reallocate
    by (auto simp: instrumentedReallocate_def call_directly_def run_locked_def in_scope_def
        andThen_Inr_iff split: if_splits prod.splits)
  then show ?thesis by (rule ever_bound_mono) simp
next
  case (step_patrol time out T')
  then have "ever_bound b (table p')" using assms(2) by (simp add: ever_bound_patrol)
  then show ?thesis by (rule ever_bound_mono) simp
next
  case (step_thread flag)
  then show ?thesis using assms(2) by (auto intro: ever_bound_mono)
next
  case (step_write h)
  then show ?thesis using assms(2) by (auto intro: ever_bound_mono)
qed

lemma realloc_ok:
  assumes "page_env (environment w) k" and "memalign_ok w" and "system_ok (environment w) k p"
    and "reallocates n m f" and "realloc_fine w k m sz f p"
    and "instrumentedReallocate w m sz f p = Inr (r, p')"
  shows "system_ok (environment w) k p'"
proof (cases "bypass w p")
  case True
  have "um_find (light (table p)) m = None" "um_find (closely (table p)) m = None"
    using assms(5) True by (simp_all add: realloc_fine_def untracked_def)
  with True assms(6) sys_ok_realloc_untracked [OF assms(3) _ _ assms(4)] show ?thesis
    by (auto simp: instrumentedReallocate_def call_directly_def split: prod.splits)
next
  case False
  from reallocate_locked_safe [OF assms(1-4) False assms(5) refl refl] False assms(6) show ?thesis
    by (auto simp: instrumentedReallocate_def run_locked_def not_bypass)
qed

lemma sound_realloc_returns:
  assumes "page_env (environment w) k" and "memalign_ok w" and "system_ok (environment w) k p"
    and "reallocates n m f" and "realloc_fine w k m sz f p"
  shows "\<exists>r. instrumentedReallocate w m sz f p = Inr r"
proof (cases "bypass w p")
  case True
  then show ?thesis by (auto simp: instrumentedReallocate_def call_directly_def split: prod.splits)
next
  case False
  from reallocate_locked_safe [OF assms(1-4) False assms(5) refl refl] False show ?thesis
    by (auto simp: instrumentedReallocate_def run_locked_def not_bypass)
qed

lemma step_system_ok:
  assumes "step env k clock p p'" and "page_env env k" and "system_ok env k p" and "room (table p)"
  shows "system_ok env k p'"
  using assms(1)
proof cases
  case (step_allocate w n f al fp zf r)
  with instrumentedAllocate_safe [of w k p n f al fp zf] assms show ?thesis by auto
next
  case (step_free w m f u)
  show ?thesis
  proof (cases "m = nullptr")
    case True
    with step_free(4) assms(3) show ?thesis by (simp add: instrumentedFree_def)
  next
    case False
    with instrumentedFree_safe [of env k p m f w] step_free assms(3) show ?thesis by auto
  qed
next
  case (step_realloc w j m f sz r)
  with realloc_ok [of w k p j m f sz r p'] assms show ?thesis by simp
next
  case (step_patrol time out T')
  with patrol_safe [OF assms(3), of time] show ?thesis by auto
next
  case (step_write h)
  with assms(3) show ?thesis by (simp add: sys_ok_def memory_ok_def)
qed (use assms(3) in simp)

lemma history_ok:
  assumes "history env k clock n p" and "page_env env k" and "n < 2 ^ 32"
  shows "system_ok env k p \<and> ever_bound n (table p)"
  using assms(1,3)
proof (induction rule: history.induct)
  case (history_start p)
  then show ?case by (simp add: sys_ok_empty ever_bound_def)
next
  case (history_step n p p')
  then have IH: "system_ok env k p" "ever_bound n (table p)" and n: "Suc n < 2 ^ 32" by auto
  from step_system_ok [OF history_step.hyps(2) assms(2) IH(1) room_ever_bound [OF IH(2) n]]
    step_ever_bound [OF history_step.hyps(2) IH(2)] show ?case by blast
qed

text \<open>
  C1. The invariant of all reachable states. Start from an empty table and let any threads make fewer than 2 to the
  power 32 steps: allocations whose size rounds up to pages within 32 bits, frees (inside the library
  or before tracking starts only of blocks that are not tracked), reallocations that are sound (realloc_fine),
  patrols, and writes to memory, with functions that keep the contracts of malloc, free, realloc and
  memalign. Then every entry of the tables is stored under the address of a live block, in one
  table only; a watched entry's block is as large as its request rounded to pages, and its reference to the
  statistics of its stack trace does not dangle; for each stack trace the number of live watched
  allocations is the number of its entries, live and leaked ones together are at most the number ever
  watched, and the global number of live ones is that of all watched entries; both limits on watched
  allocations hold; and a further step of each of these kinds cannot fault. (The counters of
  skipped allocations, of bytes and of calls are not part of the invariant.)
\<close>

theorem history_invariant:
  assumes "history env k clock n p" and "page_env env k" and "Suc n < 2 ^ 32"
  shows "table_ok (table p) \<and> limits_ok env (table p) \<and> memory_ok env k (table p) (proc_heap p)
    \<and> (\<forall>w sz al fp f zf. environment w = env \<and> memalign_ok w \<and> unat sz + 2 ^ k \<le> 2 ^ 32
         \<and> allocates (unat sz) f \<longrightarrow> (\<exists>r. instrumentedAllocate w sz al fp f zf p = Inr r))
    \<and> (\<forall>w m (f :: heap \<Rightarrow> unit \<times> heap). frees m f \<and> (bypass w p \<longrightarrow> untracked m p) \<longrightarrow>
         (\<exists>r. instrumentedFree w m f p = Inr r))
    \<and> (\<forall>w m j sz f. environment w = env \<and> memalign_ok w \<and> reallocates j m f \<and> realloc_fine w k m sz f p \<longrightarrow>
         (\<exists>r. instrumentedReallocate w m sz f p = Inr r))
    \<and> (\<forall>time. \<exists>r. patrolThreadUpdateAllocationStates env time (table p) = Inr r)"
proof -
  from assms history_ok [of env k clock n p] have ok: "system_ok env k p" and "ever_bound n (table p)"
    by auto
  from this(2) have room: "room (table p)" using assms(3) by (rule room_ever_bound)
  have free: "\<exists>r. instrumentedFree w m f p = Inr r"
    if "frees m f" "bypass w p \<longrightarrow> untracked m p" for w m and f :: "heap \<Rightarrow> unit \<times> heap"
    using instrumentedFree_safe [OF ok that(1), of w] that(2)
    by (cases "m = nullptr") (auto simp: instrumentedFree_def)
  have alloc: "\<exists>r. instrumentedAllocate w sz al fp f zf p = Inr r"
    if "environment w = env" "memalign_ok w" "unat sz + 2 ^ k \<le> 2 ^ 32" "allocates (unat sz) f"
    for w sz al fp f zf
    using instrumentedAllocate_safe [of w k p sz f al fp zf] that assms(2) ok room by blast
  have realloc: "\<exists>r. instrumentedReallocate w m sz f p = Inr r"
    if "environment w = env" "memalign_ok w" "reallocates j m f" "realloc_fine w k m sz f p" for w m j sz f
    using that assms(2) ok by (intro sound_realloc_returns) auto
  have "\<exists>r. patrolThreadUpdateAllocationStates env time (table p) = Inr r" for time
    using patrol_safe [OF ok, of time] by blast
  with ok free alloc realloc show ?thesis unfolding sys_ok_def by blast
qed

end
