(* ===== verification/Leak_Detection.thy ===== *)
theory Leak_Detection
  imports Table_Histories
begin

text \<open>
  What the patrol's update does with the tracked allocations, and when a leak is declared: the
  bookkeeping of the leaks found, the times that must have passed, and that a block which is
  never freed is found.
\<close>

section \<open>The bookkeeping of the patrol\<close>

definition leaky :: "uint32 \<Rightarrow> InfoRef \<Rightarrow> (ptr, CloselyWatchedAllocation) unordered_map \<Rightarrow>
    CloselyWatchedAllocation list" where
  "leaky now r m = filter (\<lambda>a. leaks_at now a \<and> watchedStackTraceInfo a = r) (map snd m)"

definition leak_all :: "CloselyWatchedAllocation list \<Rightarrow> WatchedStackTraceInfo \<Rightarrow> WatchedStackTraceInfo" where
  "leak_all as info = foldl (\<lambda>i a. count_leaked (requestedSize a) i) info as"

lemma leak_all_simps [simp]:
  "leak_all [] info = info" "leak_all (a # as) info = leak_all as (count_leaked (requestedSize a) info)"
  by (simp_all add: leak_all_def)

lemma deref_declare_leak:
  "deref_info (declare_leak a T) r = map_option
     (if r = watchedStackTraceInfo a then count_leaked (requestedSize a) else id) (deref_info T r)"
  by (simp add: declare_leak_def Let_def deref_update option.map_id)

lemma suspicious_update:
  "um_find (suspicious (update_info r f T)) fp = None \<longleftrightarrow> um_find (suspicious T) fp = None"
  by (auto simp: update_info_def um_simps)

lemma suspicious_declare_leak:
  "um_find (suspicious (declare_leak a T)) fp = None \<longleftrightarrow> um_find (suspicious T) fp = None"
  by (simp add: declare_leak_def Let_def suspicious_update)

lemma patrol_closely_deref:
  "patrol_closely env now xs T leaks = Inr (kept, T', leaks') \<Longrightarrow>
     deref_info T' r = map_option (leak_all (leaky now r xs)) (deref_info T r)
     \<and> (um_find (suspicious T') fp = None \<longleftrightarrow> um_find (suspicious T) fp = None)"
proof (induction env now xs T leaks arbitrary: kept T' leaks' rule: patrol_closely.induct)
  case (1 env now T leaks)
  then show ?case by (simp add: leaky_def option.map_ident)
next
  case (2 env now k a rest T leaks)
  show ?case
  proof (cases "leaks_at now a")
    case True
    then have e: "deadline a < now" "watched_state a = Suspicious" by (auto simp: leaks_at_def expired_def)
    with 2 obtain info leaks1 where
      "patrol_closely env now rest (declare_leak a T) leaks1 = Inr (kept, T', leaks')"
      and info: "deref_info T (watchedStackTraceInfo a) = Some info"
      and IH: "deref_info T' r = map_option (leak_all (leaky now r rest)) (deref_info (declare_leak a T) r)"
        "um_find (suspicious T') fp = None \<longleftrightarrow> um_find (suspicious (declare_leak a T)) fp = None"
      by (auto split: option.splits)
    then show ?thesis using True
      by (cases "deref_info T r") (auto simp: leaky_def deref_declare_leak suspicious_declare_leak)
  next
    case False
    then have e: "deadline a < now \<Longrightarrow> watched_state a = NotYetSuspicious"
      by (cases "watched_state a") (auto simp: leaks_at_def expired_def)
    from 2(4) e obtain kept1 where r: "patrol_closely env now rest T leaks = Inr (kept1, T', leaks')"
      by (auto simp: andThen_Inr_iff split: if_splits)
    have "leaky now r ((k, a) # rest) = leaky now r rest" using False by (simp add: leaky_def)
    moreover have "deref_info T' r = map_option (leak_all (leaky now r rest)) (deref_info T r)
        \<and> (um_find (suspicious T') fp = None \<longleftrightarrow> um_find (suspicious T) fp = None)"
      using 2(1,3) e r by (cases "deadline a < now") auto
    ultimately show ?thesis by simp
  qed
qed

lemma patrol_infos:
  assumes "patrolThreadUpdateAllocationStates env time T = Inr (out, T')"
  shows "deref_info T' r = map_option (leak_all (leaky (to_uint32 time) r (closely T))) (deref_info T r)"
    and "um_find (suspicious T') fp \<noteq> None \<longleftrightarrow> um_find (suspicious T) fp \<noteq> None
      \<or> fp \<in> fingerprint ` snd ` set (filter (\<lambda>(k, a). expired (to_uint32 time) a) (light T))"
proof -
  let ?now = "to_uint32 time"
  define sus where "sus = snd (patrol_light ?now (light T) (suspicious T))"
  let ?T1 = "T\<lparr>m_lightAllocationsByAddress := fst (patrol_light ?now (light T) (suspicious T)),
    m_suspiciousFingerprints := sus\<rparr>"
  have D: "deref_info ?T1 = deref_info T"
    by (auto simp: fun_eq_iff deref_info_def sus_def patrol_light_result find_addSuspicious_fold
        um_simps split: option.split)
  obtain kept T2 leaks where
    "patrol_closely env ?now (closely T) ?T1 [] = Inr (kept, T2, leaks)"
    and T': "T' = T2\<lparr>m_closelyWatchedAllocationsByAddress := kept\<rparr>"
    using assms
    by (auto simp: patrolThreadUpdateAllocationStates_def Let_def andThen_Inr_iff sus_def split: prod.splits)
  note loop = patrol_closely_deref [OF this(1)]
  show "deref_info T' r = map_option (leak_all (leaky ?now r (closely T))) (deref_info T r)"
    using loop by (simp add: T' D)
  show "um_find (suspicious T') fp \<noteq> None \<longleftrightarrow> um_find (suspicious T) fp \<noteq> None
      \<or> fp \<in> fingerprint ` snd ` set (filter (\<lambda>(k, a). expired ?now a) (light T))"
    using loop by (simp add: T' sus_def patrol_light_result find_addSuspicious_fold)
qed

lemma leak_all_frame [simp]:
  "countTotalCloselyWatchedAllocationsEverCreated (leak_all as i) = countTotalCloselyWatchedAllocationsEverCreated i"
  "countSkippedAllocations (leak_all as i) = countSkippedAllocations i"
  "stackTrace (leak_all as i) = stackTrace i"
  by (induction as arbitrary: i) (simp_all add: count_leaked_def)

lemma leak_all_counts:
  assumes "info_ok i" and "length as \<le> live_count i"
  shows "live_count (leak_all as i) = live_count i - length as
    \<and> unat (countLeakedCloselyWatchedAllocations (leak_all as i))
        = unat (countLeakedCloselyWatchedAllocations i) + length as
    \<and> countTotalLeakedMemory (leak_all as i)
        = countTotalLeakedMemory i + (\<Sum>a\<leftarrow>as. to_uint64 (requestedSize a))"
  using assms
proof (induction as arbitrary: i)
  case (Cons a as)
  have pos: "0 < live_count i" using Cons.prems(2) by simp
  have "unat (countLeakedCloselyWatchedAllocations i) + 1 < 2 ^ 32"
    using Cons.prems(1) pos unat_lt_32 [of "countTotalCloselyWatchedAllocationsEverCreated i"]
    by (simp add: info_ok_def)
  then have leaked: "unat (countLeakedCloselyWatchedAllocations (count_leaked (requestedSize a) i))
      = unat (countLeakedCloselyWatchedAllocations i) + 1"
    by (simp add: count_leaked_def word_nat)
  have live: "live_count (count_leaked (requestedSize a) i) = live_count i - 1"
    using pos by (rule live_after)
  with Cons.prems Cons.IH [OF info_ok_leaked [OF Cons.prems(1) pos, of "requestedSize a"]] leaked
  show ?case by (simp add: count_leaked_def)
qed simp

lemma length_leaky: "length (leaky now r m) = num_entries (\<lambda>k a. leaks_at now a \<and> has_ref r k a) m"
  unfolding leaky_def num_entries_def by (induction m) auto

lemma num_entries_le: "(\<And>k a. P k a \<Longrightarrow> Q k a) \<Longrightarrow> num_entries P xs \<le> num_entries Q xs"
  unfolding num_entries_def by (induction xs) auto

text \<open>
  C12. One run of the patrol over consistent tables: it never faults; the leaks it returns are
  the watched entries that were already suspicious and whose deadline has passed; those are
  dropped, the other overdue watched entries become suspicious with a new deadline, overdue
  light entries are dropped and their fingerprints become suspicious; everything else stays.
\<close>

theorem patrol_update:
  fixes time :: uint64
  assumes "table_ok T"
  defines "now \<equiv> to_uint32 time"
  shows "\<exists>T'. patrolThreadUpdateAllocationStates env time T =
      Inr ((m_stats T, map (\<lambda>(k, a). \<lparr>leak_stackTrace = snd (watchedStackTraceInfo a), leak_memory = k,
         leak_size = requestedSize a\<rparr>)
         (filter (\<lambda>(k, a). deadline a < now \<and> watched_state a = Suspicious) (closely T))), T')
    \<and> table_ok T'
    \<and> (\<forall>p. um_find (light T') p = (case um_find (light T) p of None \<Rightarrow> None
         | Some a \<Rightarrow> if deadline a < now then None else Some a))
    \<and> (\<forall>p. um_find (closely T') p = (case um_find (closely T) p of None \<Rightarrow> None
         | Some a \<Rightarrow> if now \<le> deadline a then Some a
             else if watched_state a = Suspicious then None
             else Some (a\<lparr>watched_state := Suspicious,
                      deadline := now + closelyWatchedAllocationsAccessMaxInterval env\<rparr>)))
    \<and> (\<forall>fp. getSuspiciousStackTracesTable fp (suspicious T') \<noteq> None \<longleftrightarrow>
         getSuspiciousStackTracesTable fp (suspicious T) \<noteq> None
         \<or> (\<exists>p a. um_find (light T) p = Some a \<and> deadline a < now \<and> fingerprint a = fp))"
proof -
  have maps: "um_ok (light T)" "um_ok (closely T)" using assms(1) by (simp_all add: table_ok_defs)
  from patrol_result [OF assms(1), of env time] obtain T' where
    T': "patrolThreadUpdateAllocationStates env time T = Inr ((m_stats T, found_leaks now (closely T)), T')"
    "table_ok T'" "light T' = filter (\<lambda>(k, a). \<not> expired now a) (light T)"
    "closely T' = kept_entries env now (closely T)" unfolding now_def by blast
  have keys: "alloc_memory a = k" if "(k, a) \<in> set (closely T)" for k a
    using that assms(1) um_find_elems [OF maps(2)] unfolding table_ok_def keys_ok_def by blast
  have leaks: "found_leaks now (closely T) = map (\<lambda>(k, a). \<lparr>leak_stackTrace = snd (watchedStackTraceInfo a),
      leak_memory = k, leak_size = requestedSize a\<rparr>)
      (filter (\<lambda>(k, a). deadline a < now \<and> watched_state a = Suspicious) (closely T))"
    unfolding found_leaks_def leaks_at_def expired_def using keys
    by (intro map_cong) (auto simp: found_leak_def)
  have fps: "getSuspiciousStackTracesTable fp (suspicious T') \<noteq> None \<longleftrightarrow>
      getSuspiciousStackTracesTable fp (suspicious T) \<noteq> None
      \<or> (\<exists>p a. um_find (light T) p = Some a \<and> deadline a < now \<and> fingerprint a = fp)" for fp
    unfolding getSuspiciousStackTracesTable_def patrol_infos(2) [OF T'(1)]
    using um_find_elems [OF maps(1)] by (force simp: expired_def now_def)
  show ?thesis
    using T' fps
    by (intro exI [of _ T']) (auto simp: leaks um_find_filter [OF maps(1)] um_find_kept [OF maps(2)]
        expired_def leaks_at_def patrolled_def not_less split: option.split WatchedState.split)
qed

lemma patrol_accounts:
  assumes "table_ok T" and "deref_info T r = Some info"
    and "patrolThreadUpdateAllocationStates env time T = Inr (out, T')"
  defines "found \<equiv> filter (\<lambda>(k, a). deadline a < to_uint32 time \<and> watched_state a = Suspicious
      \<and> watchedStackTraceInfo a = r) (closely T)"
  shows "\<exists>info'. deref_info T' r = Some info'
    \<and> unat (countLeakedCloselyWatchedAllocations info')
        = unat (countLeakedCloselyWatchedAllocations info) + length found
    \<and> unat (countLiveCloselyWatchedAllocations info') + length found
        = unat (countLiveCloselyWatchedAllocations info)
    \<and> countTotalLeakedMemory info'
        = countTotalLeakedMemory info + (\<Sum>(k, a)\<leftarrow>found. to_uint64 (requestedSize a))
    \<and> countTotalCloselyWatchedAllocationsEverCreated info'
        = countTotalCloselyWatchedAllocationsEverCreated info
    \<and> countSkippedAllocations info' = countSkippedAllocations info \<and> stackTrace info' = stackTrace info"
proof -
  let ?now = "to_uint32 time"
  have as: "leaky ?now r (closely T) = map snd found"
    unfolding found_def leaky_def leaks_at_def expired_def
    by (induction "closely T") (auto simp: filter_map o_def intro!: arg_cong [where f = "map snd"] filter_cong)
  have "length (leaky ?now r (closely T)) \<le> live_count info"
  proof -
    have "length (leaky ?now r (closely T)) \<le> num_entries (has_ref r) (closely T)"
      unfolding length_leaky by (rule num_entries_le) simp
    with counted_info [OF assms(1,2)] show ?thesis by simp
  qed
  with counted_info [OF assms(1,2)] leak_all_counts [of info "leaky ?now r (closely T)"]
    patrol_infos(1) [OF assms(3), of r] assms(2)
  show ?thesis by (auto simp: as o_def case_prod_unfold)
qed

text \<open>
  C13. The accounts of each stack trace after a patrol: its leaked count grows by the number of
  leaks found for it, its live count falls by that number, its leaked bytes grow by the sum of
  their requested sizes, and nothing else changes; the 32-bit counters do not wrap.
\<close>

theorem patrol_accounting:
  assumes "table_ok T" and "deref_info T r = Some info"
    and "patrolThreadUpdateAllocationStates env time T = Inr (out, T')"
  defines "found \<equiv> filter (\<lambda>(k, a). deadline a < to_uint32 time \<and> watched_state a = Suspicious
      \<and> watchedStackTraceInfo a = r) (closely T)"
  shows "\<exists>info'. deref_info T' r = Some info'
    \<and> unat (countLeakedCloselyWatchedAllocations info')
        = unat (countLeakedCloselyWatchedAllocations info) + length found
    \<and> unat (countLiveCloselyWatchedAllocations info') + length found
        = unat (countLiveCloselyWatchedAllocations info)
    \<and> countTotalLeakedMemory info'
        = countTotalLeakedMemory info + (\<Sum>(k, a)\<leftarrow>found. to_uint64 (requestedSize a))
    \<and> countTotalCloselyWatchedAllocationsEverCreated info'
        = countTotalCloselyWatchedAllocationsEverCreated info
    \<and> countSkippedAllocations info' = countSkippedAllocations info \<and> stackTrace info' = stackTrace info"
  using assms(1-3) unfolding found_def by (rule patrol_accounts)

section \<open>No leak is declared early\<close>

text \<open>
  The deadlines of watched entries, read on the wall clock: while the clock and the
  configured intervals fit in 32 bits, the deadline of an entry follows its allocation by the
  time to become suspicious and, once suspicious, by the access interval as well.
\<close>

definition due_ok :: "Environment \<Rightarrow> CloselyWatchedAllocation \<Rightarrow> bool" where
  "due_ok env a \<longleftrightarrow>
     unat (allocationTime a) + unat (timeForAllocationToBecomeSuspicious env)
       + (if watched_state a = Suspicious
          then unat (closelyWatchedAllocationsAccessMaxInterval env) + 1 else 0) \<le> unat (deadline a)"

definition timely :: "Environment \<Rightarrow> AllocationTable \<Rightarrow> bool" where
  "timely env T \<longleftrightarrow> (\<forall>p a. um_find (closely T) p = Some a \<longrightarrow> due_ok env a)"

definition no_wrap :: "Environment \<Rightarrow> uint64 \<Rightarrow> bool" where
  "no_wrap env t \<longleftrightarrow> unat t + unat (timeForAllocationToBecomeSuspicious env)
     + unat (closelyWatchedAllocationsAccessMaxInterval env) < 2 ^ 32"

lemma timely_frame [simp]:
  "timely env (count_allocation t T) = timely env T" "timely env (count_realloc t T) = timely env T"
  "timely env (count_free t T) = timely env T" "timely env (count_suspicious_allocation T) = timely env T"
  "timely env (update_info r f T) = timely env T"
  "timely env (T\<lparr>m_lightAllocationsByAddress := l\<rparr>) = timely env T"
  "timely env (T\<lparr>m_suspiciousFingerprints := s\<rparr>) = timely env T"
  "timely env (T\<lparr>countLiveCloselyWatchedAllocationsAllTraces := n\<rparr>) = timely env T"
  by (simp_all add: timely_def)

lemma no_wrap_32:
  assumes "no_wrap env t"
  shows "unat (to_uint32 t) = unat t"
    "unat (to_uint32 t + timeForAllocationToBecomeSuspicious env)
       = unat t + unat (timeForAllocationToBecomeSuspicious env)"
    "unat (to_uint32 t + closelyWatchedAllocationsAccessMaxInterval env)
       = unat t + unat (closelyWatchedAllocationsAccessMaxInterval env)"
proof -
  show t: "unat (to_uint32 t) = unat t" using assms by (simp add: no_wrap_def unat_to_uint32)
  show "unat (to_uint32 t + timeForAllocationToBecomeSuspicious env)
       = unat t + unat (timeForAllocationToBecomeSuspicious env)"
    "unat (to_uint32 t + closelyWatchedAllocationsAccessMaxInterval env)
       = unat t + unat (closelyWatchedAllocationsAccessMaxInterval env)"
    using assms by (subst unat_add_no_wrap; simp add: t no_wrap_def)+
qed

lemma timely_track_closely:
  assumes "timely (environment w) T" and "no_wrap (environment w) (time_now w)"
  shows "timely (environment w) (track_closely w m n r T)"
  using assms(1) no_wrap_32 [OF assms(2)]
  by (simp add: timely_def due_ok_def track_closely_def Let_def um_simps)

lemma timely_allocate:
  assumes "allocate_locked w n al fp f zf T h = Inr (r, T', h')" and "timely (environment w) T"
    and "no_wrap (environment w) (time_now w)"
  shows "timely (environment w) T'"
  using assms
  by (auto simp: allocate_locked_def allocate_closely_def track_light_def Let_def
      andThen_Inr_iff split: option.splits prod.splits if_splits intro!: timely_track_closely)

lemma timely_erase:
  "timely env T \<Longrightarrow> timely env (T\<lparr>m_closelyWatchedAllocationsByAddress := um_erase m (closely T)\<rparr>)"
  by (auto simp: timely_def um_simps split: if_splits)

lemma timely_untrack: "untrack m T = Inr T' \<Longrightarrow> timely env T \<Longrightarrow> timely env T'"
  using timely_erase [of env "update_info r count_freed T" m for r]
  by (auto simp: untrack_def untrack_closely_def Let_def timely_def um_simps split: option.splits if_splits)

lemma timely_patrol:
  assumes "table_ok T" and "timely env T" and "no_wrap env time"
    and "patrolThreadUpdateAllocationStates env time T = Inr (out, T')"
  shows "timely env T'"
proof -
  have maps: "um_ok (closely T)" using assms(1) by (simp add: table_ok_defs)
  have C: "closely T' = kept_entries env (to_uint32 time) (closely T)"
    using patrol_result [OF assms(1), of env time] assms(4) by auto
  show ?thesis
    using assms(2) no_wrap_32 [OF assms(3)] unfolding timely_def C um_find_kept [OF maps]
    by (fastforce simp: due_ok_def patrolled_def leaks_at_def expired_def word_less_nat_alt split: option.splits if_splits)
qed

lemma due_ok_frame [simp]:
  "due_ok env (a\<lparr>requestedSize := n\<rparr>) = due_ok env a" "due_ok env (a\<lparr>alloc_memory := m\<rparr>) = due_ok env a"
  by (simp_all add: due_ok_def)

lemma timely_move:
  assumes "\<forall>p a. um_find c p = Some a \<longrightarrow> due_ok env a" and "due_ok env a"
    and "um_find (move_entry m r a c) p = Some b"
  shows "due_ok env b"
  using assms by (auto simp: move_entry_def um_simps split: if_splits option.splits)

lemma timely_reallocate:
  assumes "reallocate_locked w m sz f T h = Inr (r, T', h')" and "timely env T"
  shows "timely env T'"
proof (cases "um_find (light T) m = None \<and> um_find (closely T) m \<noteq> None")
  case True
  then obtain a where a: "um_find (closely T) m = Some a" "due_ok env a"
    using assms(2) by (auto simp: timely_def)
  let ?a = "a\<lparr>requestedSize := to_uint32 sz\<rparr>"
  from True a assms have "closely T' = um_modify m (\<lambda>a. a\<lparr>requestedSize := to_uint32 sz\<rparr>) (closely T)
      \<or> closely T' = move_entry m r (?a\<lparr>alloc_memory := r\<rparr>) (closely T)"
    by (auto simp: reallocate_locked_def reallocate_closely_def Let_def andThen_Inr_iff
        split: prod.splits if_splits)
  then show ?thesis
  proof
    assume "closely T' = um_modify m (\<lambda>a. a\<lparr>requestedSize := to_uint32 sz\<rparr>) (closely T)"
    with assms(2) a show ?thesis by (auto simp: timely_def um_simps split: if_splits)
  next
    assume C: "closely T' = move_entry m r (?a\<lparr>alloc_memory := r\<rparr>) (closely T)"
    show ?thesis
      unfolding timely_def C using timely_move [of "closely T" env "?a\<lparr>alloc_memory := r\<rparr>" m r] assms(2) a(2)
      by (simp add: timely_def)
  qed
next
  case False
  then have "closely T' = closely T" using assms(1)
    by (auto simp: reallocate_locked_def reallocate_light_def Let_def split: option.splits prod.splits if_splits)
  with assms(2) show ?thesis by (simp add: timely_def)
qed

lemma step_timely:
  assumes "step env k (no_wrap env) p p'" and "timely env (table p)" and "system_ok env k p"
  shows "timely env (table p')"
  using assms(1)
proof cases
  case (step_allocate w n f al fp zf r)
  then show ?thesis
    using assms(2) timely_allocate
    by (auto simp: instrumentedAllocate_def call_directly_def run_locked_def in_scope_def andThen_Inr_iff
        split: if_splits prod.splits)
next
  case (step_free w m f u)
  then show ?thesis
    using assms(2) timely_untrack
    by (cases "f (proc_heap p)") (auto simp: instrumentedFree_def call_directly_def run_locked_def in_scope_def
        free_locked_def andThen_Inr_iff split: if_splits prod.splits)
next
  case (step_realloc w j m f sz r)
  then show ?thesis
    using assms(2) timely_reallocate
    by (auto simp: instrumentedReallocate_def call_directly_def run_locked_def in_scope_def
        andThen_Inr_iff split: if_splits prod.splits)
next
  case (step_patrol time out T')
  with timely_patrol [of "table p" env time out T'] assms(2,3) show ?thesis by (simp add: sys_ok_def)
next
  case (step_thread flag)
  then show ?thesis using assms(2) by simp
next
  case (step_write h)
  then show ?thesis using assms(2) by simp
qed

lemma history_timely:
  assumes "history env k (no_wrap env) n p" and "page_env env k" and "n < 2 ^ 32"
  shows "timely env (table p)"
  using assms(1,3)
proof (induction rule: history.induct)
  case (history_start p)
  then show ?case by (simp add: timely_def um_simps)
next
  case (history_step n p p')
  then have "system_ok env k p" using history_ok [OF history_step.hyps(1) assms(2)] by simp
  with history_step step_timely show ?case by simp
qed

text \<open>
  A report bounds the recorded allocation time of its entry. (A reallocation keeps that time; where the
  entry comes from is shown in Leak_Origin.)
\<close>

lemma leak_not_early:
  assumes "history env k (no_wrap env) n p" and "page_env env k" and "n < 2 ^ 32" and "no_wrap env t"
    and "patrolThreadUpdateAllocationStates env t (table p) = Inr ((stats, leaks), T')"
    and "leak \<in> set leaks"
  shows "\<exists>a. um_find (closely (table p)) (leak_memory leak) = Some a
    \<and> leak_stackTrace leak = snd (watchedStackTraceInfo a)
    \<and> requestedSize a = leak_size leak \<and> blocks (proc_heap p) (leak_memory leak) \<noteq> None
    \<and> unat (allocationTime a) + unat (timeForAllocationToBecomeSuspicious env)
        + unat (closelyWatchedAllocationsAccessMaxInterval env) + 2 \<le> unat t"
proof -
  have S: "system_ok env k p" using history_ok [OF assms(1-3)] by simp
  then have ok: "table_ok (table p)" and M: "memory_ok env k (table p) (proc_heap p)"
    by (simp_all add: sys_ok_def)
  from assms(6) patrol_result [OF ok, of env t] assms(5)
  obtain q a where a: "(q, a) \<in> set (closely (table p))" "leaks_at (to_uint32 t) a" "leak = found_leak a"
    by (auto simp: found_leaks_def)
  have "um_find (closely (table p)) q = Some a"
    using a(1) ok by (simp add: um_find_elems table_ok_defs)
  moreover from closely_entry [OF ok this] have "leak_memory leak = q" using a(3) by (auto simp: found_leak_def)
  moreover have "due_ok env a"
    using history_timely [OF assms(1-3)] calculation by (auto simp: timely_def)
  moreover have "blocks (proc_heap p) q \<noteq> None"
    using M calculation unfolding memory_ok_def by blast
  ultimately show ?thesis
    using a no_wrap_32(1) [OF assms(4)]
    by (auto simp: due_ok_def leaks_at_def expired_def word_less_nat_alt found_leak_def)
qed

text \<open>
  The life of a leak in the default configuration: a first allocation of a call site is tracked
  lightly and outlives its deadline, the next allocation of the same call site is watched, becomes
  suspicious at a patrol and is a leak at the next.
\<close>

definition run1 :: Process where
  "run1 = empty_process\<lparr>table := (count_allocation 5 emptyTable)\<lparr>m_lightAllocationsByAddress := [(65536, light_entry)]\<rparr>,
     proc_heap := (proc_heap empty_process)\<lparr>blocks := [65536 \<mapsto> 100]\<rparr>\<rparr>"

definition run2 :: Process where
  "run2 = run1\<lparr>table := (table run1)\<lparr>m_lightAllocationsByAddress := [], m_suspiciousFingerprints := [(7, [])]\<rparr>\<rparr>"

definition run_entry :: CloselyWatchedAllocation where
  "run_entry = watched_entry\<lparr>alloc_memory := 1048576, allocationTime := 1100, deadline := 1130\<rparr>"

definition run3 :: Process where
  "run3 = run2\<lparr>table := (count_suspicious_allocation (count_allocation 5 (table run2)))
       \<lparr>m_closelyWatchedAllocationsByAddress := [(1048576, run_entry)],
        m_suspiciousFingerprints := [(7, [(sample_trace, watched_info)])],
        countLiveCloselyWatchedAllocationsAllTraces := 1\<rparr>,
     proc_heap := (proc_heap run2)\<lparr>blocks := [65536 \<mapsto> 100, 1048576 \<mapsto> 8192]\<rparr>\<rparr>"

definition run4 :: Process where
  "run4 = run3\<lparr>table := (table run3)\<lparr>m_closelyWatchedAllocationsByAddress :=
     [(1048576, run_entry\<lparr>watched_state := Suspicious, deadline := 1132\<rparr>)]\<rparr>\<rparr>"

definition run5 :: Process where
  "run5 = run4\<lparr>table := (table run4)\<lparr>m_closelyWatchedAllocationsByAddress := [],
     m_suspiciousFingerprints := [(7, [(sample_trace, count_leaked 5000 watched_info)])],
     countLiveCloselyWatchedAllocationsAllTraces := 0\<rparr>\<rparr>"

lemma live_count_frame [simp]:
  "countLiveCloselyWatchedAllocationsAllTraces (count_allocation t T) = countLiveCloselyWatchedAllocationsAllTraces T"
  "countLiveCloselyWatchedAllocationsAllTraces (count_suspicious_allocation T)
     = countLiveCloselyWatchedAllocationsAllTraces T"
  by (simp_all add: count_allocation_def count_suspicious_allocation_def Let_def)

lemma run1: "instrumentedAllocate sample_surroundings 100 1 7 (alloc_at 65536 100) Unnecessary empty_process
    = Inr (65536, run1)"
  by (simp add: instrumentedAllocate_def allocate_locked_def run_locked_def Let_def alloc_at_def
      getSuspiciousStackTracesTable_def um_simps track_light_def run1_def light_entry_def um_set_def
      empty_process_def sample_env_def bypass_def inLibrary_def)

lemma run2: "patrolThreadUpdateAllocationStates sample_env 1031 (table run1)
    = Inr ((m_stats (table run1), []), table run2)"
  by (simp add: patrolThreadUpdateAllocationStates_def run1_def run2_def Let_def light_entry_def
      addSuspiciousFingerprint_def um_emplace_def um_find_def)

lemma run3: "instrumentedAllocate (sample_surroundings\<lparr>time_now := 1100\<rparr>) 5000 1 7 f Unnecessary run2
    = Inr (1048576, run3)"
proof -
  have "needsMoreCloselyWatchedAllocations sample_env 0 (WatchedStackTraceInfo_construct sample_trace)"
    by (simp add: needsMoreCloselyWatchedAllocations_def hasLeaks_def countFinishedWatchedAllocations_def
        WatchedStackTraceInfo_construct_def sample_env_def)
  then show ?thesis
    by (simp add: instrumentedAllocate_def allocate_locked_def run_locked_def Let_def alloc_at_def
        getSuspiciousStackTracesTable_def run2_def run1_def run3_def allocate_closely_def
        track_closely_def update_info_def um_modify_def getOrCreate_def um_emplace_def deref_info_def
        empty_process_def bypass_def inLibrary_def um_simps um_set_def run_entry_def watched_entry_def
        watched_info_def)
      (simp add: sample_env_def)
qed

lemma run4: "patrolThreadUpdateAllocationStates sample_env 1131 (table run3)
    = Inr ((m_stats (table run3), []), table run4)"
  by (simp add: patrolThreadUpdateAllocationStates_def run1_def run2_def run3_def run4_def Let_def
      run_entry_def watched_entry_def sample_env_def)

lemma run5: "patrolThreadUpdateAllocationStates sample_env 1133 (table run4)
    = Inr ((m_stats (table run4), [\<lparr>leak_stackTrace = sample_trace, leak_memory = 1048576, leak_size = 5000\<rparr>]),
        table run5)"
  by (simp add: patrolThreadUpdateAllocationStates_def run1_def run2_def run3_def run4_def run5_def Let_def
      run_entry_def watched_entry_def sample_env_def deref_info_def declare_leak_def update_info_def
      um_modify_def watched_info_def)

lemma run_history3: "history sample_env 12 (no_wrap sample_env) 3 run3"
proof -
  let ?H = "history sample_env 12 (no_wrap sample_env)"
  have 0: "?H 0 empty_process" by (rule history_start) simp
  have 1: "?H (Suc 0) run1"
    by (rule history_step [OF 0 step_allocate [OF _ _ sample_memalign _ _ run1]])
      (simp_all add: no_wrap_def sample_env_def allocates_alloc_at)
  have 2: "?H (Suc (Suc 0)) (run1\<lparr>table := table run2\<rparr>)"
    by (rule history_step [OF 1 step_patrol [OF _ run2]]) (simp add: no_wrap_def sample_env_def)
  have "run1\<lparr>table := table run2\<rparr> = run2" by (simp add: run2_def)
  with 2 have 2: "?H (Suc (Suc 0)) run2" by simp
  have 3: "?H (Suc (Suc (Suc 0))) run3"
    by (rule history_step [OF 2 step_allocate [OF _ _ _ _ _ run3 [of "alloc_at 131072 5000"]]])
      (use sample_memalign in \<open>simp_all add: no_wrap_def sample_env_def allocates_alloc_at memalign_ok_def\<close>)
  then show ?thesis by (simp add: numeral_eq_Suc)
qed

lemma run_history: "history sample_env 12 (no_wrap sample_env) 4 run4"
proof -
  have "history sample_env 12 (no_wrap sample_env) (Suc 3) (run3\<lparr>table := table run4\<rparr>)"
    by (rule history_step [OF run_history3 step_patrol [OF _ run4]]) (simp add: no_wrap_def sample_env_def)
  moreover have "run3\<lparr>table := table run4\<rparr> = run4" by (simp add: run4_def)
  ultimately show ?thesis by (simp add: numeral_eq_Suc)
qed

lemma run4_ok: "table_ok (table run4)"
  using history_ok [OF run_history page_sample_env] by (simp add: sys_ok_def)

lemma run4_entry: "um_find (closely (table run4)) = [1048576 \<mapsto> run_entry\<lparr>watched_state := Suspicious, deadline := 1132\<rparr>]"
  by (simp add: run4_def)

theorem patrol_update_witness:
  "\<exists>T' leaks. patrolThreadUpdateAllocationStates sample_env 1133 (table run4) = Inr ((m_stats (table run4), leaks), T')
    \<and> length leaks = 1 \<and> table_ok T'"
  using patrol_update [OF run4_ok, where env = sample_env and time = 1133]
  by (elim exE conjE) (auto simp: run4_def run_entry_def)

theorem patrol_accounting_witness:
  "\<exists>info'. deref_info (table run5) (7, sample_trace) = Some info'
    \<and> unat (countLeakedCloselyWatchedAllocations info') = 1"
proof -
  have "deref_info (table run4) (7, sample_trace) = Some watched_info"
    by (simp add: deref_info_def run4_def run3_def)
  from patrol_accounting [OF run4_ok this run5] show ?thesis
    by (auto simp: run4_def run_entry_def watched_entry_def watched_info_def count_watched_def
        WatchedStackTraceInfo_construct_def)
qed

text \<open>
  A witness of the invariant of Table_Histories: after two allocations and two patrols the table watches one
  block, which can be freed, and a further block can be allocated.
\<close>

theorem history_invariant_witness:
  "global_count (table run4) = 1 \<and> (\<exists>info. deref_info (table run4) (7, sample_trace) = Some info \<and> live_count info = 1)
   \<and> (\<exists>r. instrumentedFree sample_surroundings 1048576 (release 1048576) run4 = Inr r)
   \<and> (\<exists>r. instrumentedAllocate sample_surroundings 100 1 7 (alloc_at 262144 100) Unnecessary run4 = Inr r)"
proof -
  note inv = history_invariant [OF run_history page_sample_env]
  from inv have "table_ok (table run4)" by simp
  then have "global_count (table run4) = num_entries (\<lambda>_ _. True) (closely (table run4))"
    by (simp add: table_ok_defs)
  then have "global_count (table run4) = 1" by (simp add: run4_def num_entries_def)
  moreover have "deref_info (table run4) (7, sample_trace) \<noteq> None"
    by (simp add: deref_info_def run4_def run3_def um_simps)
  then obtain info where info: "deref_info (table run4) (7, sample_trace) = Some info" by blast
  then have "live_count info = num_entries (has_ref (7, sample_trace)) (closely (table run4))"
    using \<open>table_ok (table run4)\<close> by (simp add: table_ok_defs)
  then have "live_count info = 1"
    by (simp add: run4_def num_entries_def run_entry_def watched_entry_def)
  moreover have "environment sample_surroundings = sample_env" "\<not> bypass sample_surroundings run4"
    by (simp_all add: bypass_def inLibrary_def run4_def run3_def run2_def run1_def empty_process_def)
  ultimately show ?thesis
    using inv sample_memalign frees_release [of 1048576] allocates_alloc_at [of 100 262144] info by simp
qed

section \<open>Leaks are found\<close>

lemma found_in:
  assumes "table_ok T" and "um_find (closely T) p = Some a" and "leaks_at now a"
  shows "\<lparr>leak_stackTrace = snd (watchedStackTraceInfo a), leak_memory = p, leak_size = requestedSize a\<rparr>
    \<in> set (found_leaks now (closely T))"
proof -
  have "alloc_memory a = p" using assms(1,2) by (auto elim: closely_entry)
  moreover have "(p, a) \<in> set (closely T)"
    using assms(1,2) by (simp add: um_find_elems table_ok_defs)
  ultimately show ?thesis
    using assms(3) by (force simp: found_leaks_def found_leak_def image_iff)
qed

lemma found_leak_verdict:
  assumes "table_ok T" and "um_find (closely T) p = Some a" and "leaks_at (to_uint32 time) a"
    and "patrolThreadUpdateAllocationStates env time T = Inr (out, T')"
  shows "\<exists>info. deref_info T' (watchedStackTraceInfo a) = Some info \<and> hasLeaks env info = TTrue"
proof -
  from assms(1,2) obtain info where info: "deref_info T (watchedStackTraceInfo a) = Some info"
    by (rule closely_entry)
  have "(p, a) \<in> set (closely T)"
    using assms(1,2) by (simp add: um_find_elems table_ok_defs)
  then have "0 < length (filter (\<lambda>(k, b). deadline b < to_uint32 time \<and> watched_state b = Suspicious
      \<and> watchedStackTraceInfo b = watchedStackTraceInfo a) (closely T))"
    using assms(3) by (force simp: leaks_at_def expired_def filter_empty_conv)
  with patrol_accounts [OF assms(1) info assms(4)] obtain info' where
    "deref_info T' (watchedStackTraceInfo a) = Some info'"
    "0 < unat (countLeakedCloselyWatchedAllocations info')" by auto
  then show ?thesis by (auto simp: hasLeaks_def word_less_nat_alt)
qed

text \<open>
  A watched block that is not freed is found: if its deadline has passed at one patrol
  and a later patrol runs more than the access interval after it, the block is reported with
  its stack trace and size by then, it is no longer tracked, and the verdict on its stack trace is
  that it leaks. Between the two patrols anything may happen that leaves the block's entry.
\<close>

theorem two_patrols_find_leak:
  assumes "table_ok T" and "um_find (closely T) p = Some a" and "watched_state a = NotYetSuspicious"
    and "deadline a < to_uint32 t1"
    and "patrolThreadUpdateAllocationStates env t1 T = Inr (out1, T1)"
    and "table_ok T1'" and "um_find (closely T1') p = um_find (closely T1) p"
    and "unat (to_uint32 t1) + unat (closelyWatchedAllocationsAccessMaxInterval env) < unat (to_uint32 t2)"
  shows "\<exists>stats leaks T2. patrolThreadUpdateAllocationStates env t2 T1' = Inr ((stats, leaks), T2)
    \<and> \<lparr>leak_stackTrace = snd (watchedStackTraceInfo a), leak_memory = p, leak_size = requestedSize a\<rparr>
        \<in> set leaks
    \<and> um_find (closely T2) p = None
    \<and> (\<exists>info. deref_info T2 (watchedStackTraceInfo a) = Some info \<and> hasLeaks env info = TTrue)"
proof -
  let ?now1 = "to_uint32 t1" and ?now2 = "to_uint32 t2"
  let ?b = "patrolled env ?now1 a"
  have maps: "um_ok (closely T)" "um_ok (closely T1')" using assms(1,6) by (simp_all add: table_ok_defs)
  have "closely T1 = kept_entries env ?now1 (closely T)"
    using patrol_result [OF assms(1), of env t1] assms(5) by auto
  then have b: "um_find (closely T1') p = Some ?b"
    using assms(2,3,7) by (simp add: um_find_kept [OF maps(1)] leaks_at_def)
  have "unat (?now1 + closelyWatchedAllocationsAccessMaxInterval env)
      = unat ?now1 + unat (closelyWatchedAllocationsAccessMaxInterval env)"
    using assms(8) unat_lt_32 [of ?now2] by (intro unat_add_no_wrap) simp
  then have leak: "leaks_at ?now2 ?b"
    using assms(4,8) by (simp add: leaks_at_def patrolled_def expired_def word_less_nat_alt)
  from patrol_result [OF assms(6), of env t2] obtain T2 where
    T2: "patrolThreadUpdateAllocationStates env t2 T1' =
      Inr ((m_stats T1', found_leaks ?now2 (closely T1')), T2)"
    "closely T2 = kept_entries env ?now2 (closely T1')" by blast
  from found_in [OF assms(6) b leak] found_leak_verdict [OF assms(6) b leak T2(1)] T2 b leak
  show ?thesis by (auto simp: um_find_kept [OF maps(2)])
qed

theorem two_patrols_find_leak_witness:
  "\<exists>stats leaks T2. patrolThreadUpdateAllocationStates sample_env 1133 (table run4) = Inr ((stats, leaks), T2)
    \<and> um_find (closely T2) 1048576 = None"
proof -
  have T: "table_ok (table run3)"
  proof -
    have "sys_ok sample_env 12 (table run3) (proc_heap run3)"
      by (rule history_ok [THEN conjunct1, OF run_history3 page_sample_env]) simp
    then show ?thesis by (simp add: sys_ok_def)
  qed
  have "um_find (closely (table run3)) 1048576 = Some run_entry" by (simp add: run3_def)
  from two_patrols_find_leak [OF T this _ _ run4 run4_ok refl, of 1133] show ?thesis
    by (auto simp: run_entry_def watched_entry_def sample_env_def)
qed

end
