(* ===== verification/Leak_Life.thy ===== *)
theory Leak_Life
  imports Leak_Detection
begin

text \<open>
  The life of one block in a running process: the steps of a history with labels that say what was
  allocated, freed, reallocated and reported. A watched block that the program neither frees nor
  reallocates is reported exactly once, whatever the program does with its other blocks.
\<close>

section \<open>Labelled runs\<close>

datatype Action =
    Allocated ptr
  | Freed ptr
  | Reallocated ptr ptr
  | Patrolled uint32 "FoundLeak list"
  | ThreadSwitch
  | Written

inductive act :: "Environment \<Rightarrow> nat \<Rightarrow> (uint64 \<Rightarrow> bool) \<Rightarrow> Process \<Rightarrow> Action \<Rightarrow> Process \<Rightarrow> bool"
  for env k clock where
  act_allocate: "environment w = env \<Longrightarrow> clock (time_now w) \<Longrightarrow> memalign_ok w \<Longrightarrow> allocates (unat n) f \<Longrightarrow>
    unat n + 2 ^ k \<le> 2 ^ 32 \<Longrightarrow> instrumentedAllocate w n al fp f zf p = Inr (r, p') \<Longrightarrow>
    act env k clock p (Allocated r) p'"
| act_free: "environment w = env \<Longrightarrow> frees q f \<Longrightarrow> (bypass w p \<Longrightarrow> untracked q p) \<Longrightarrow>
    instrumentedFree w q (f :: heap \<Rightarrow> unit \<times> heap) p = Inr (u, p') \<Longrightarrow> act env k clock p (Freed q) p'"
| act_realloc: "environment w = env \<Longrightarrow> memalign_ok w \<Longrightarrow> reallocates j q f \<Longrightarrow>
    realloc_fine w k q sz f p \<Longrightarrow> instrumentedReallocate w q sz f p = Inr (r, p') \<Longrightarrow>
    act env k clock p (Reallocated q r) p'"
| act_patrol: "clock time \<Longrightarrow> patrolThreadUpdateAllocationStates env time (table p) = Inr ((stats, leaks), T') \<Longrightarrow>
    act env k clock p (Patrolled (to_uint32 time) leaks) (p\<lparr>table := T'\<rparr>)"
| act_thread: "act env k clock p ThreadSwitch (p\<lparr>thread_inLibrary := flag\<rparr>)"
| act_write: "blocks h = blocks (proc_heap p) \<Longrightarrow> act env k clock p Written (p\<lparr>proc_heap := h\<rparr>)"

inductive_cases act_patrolE: "act env k clock p (Patrolled now leaks) p'"

inductive run :: "Environment \<Rightarrow> nat \<Rightarrow> (uint64 \<Rightarrow> bool) \<Rightarrow> Process \<Rightarrow> Action list \<Rightarrow> Process \<Rightarrow> bool"
  for env k clock where
  run_nil: "run env k clock p [] p"
| run_cons: "act env k clock p x p1 \<Longrightarrow> run env k clock p1 xs p' \<Longrightarrow> run env k clock p (x # xs) p'"

inductive_cases run_consE: "run env k clock p (x # xs) p'"
inductive_simps run_nil_iff: "run env k clock p [] p'"

lemma act_step:
  assumes "act env k clock p x p'"
  shows "step env k clock p p'"
  using assms by cases (blast intro: step.intros)+

lemma act_history: "history env k clock n p \<Longrightarrow> act env k clock p x p' \<Longrightarrow> history env k clock (Suc n) p'"
  by (rule history_step) (auto intro: act_step)

lemma run_history_from:
  "run env k clock p xs p' \<Longrightarrow> history env k clock n p \<Longrightarrow> history env k clock (n + length xs) p'"
proof (induction arbitrary: n rule: run.induct)
  case (run_cons p x p1 xs p')
  from run_cons.IH [OF act_history [OF run_cons.prems run_cons.hyps(1)]] show ?case by simp
qed simp

text \<open>The steps that leave a block to its owner.\<close>

fun touches :: "ptr \<Rightarrow> Action \<Rightarrow> bool" where
  "touches m (Freed q) = (q = m)"
| "touches m (Reallocated q r) = (q = m)"
| "touches m _ = False"

fun patrol_of :: "Action \<Rightarrow> (uint32 \<times> FoundLeak list) list" where
  "patrol_of (Patrolled now leaks) = [(now, leaks)]"
| "patrol_of _ = []"

definition patrol_times :: "Action list \<Rightarrow> uint32 list" where
  "patrol_times xs = map fst (concat (map patrol_of xs))"

definition reports :: "ptr \<Rightarrow> Action list \<Rightarrow> FoundLeak list" where
  "reports m xs = filter (\<lambda>l. leak_memory l = m) (concat (map snd (concat (map patrol_of xs))))"

lemma patrol_times_simps [simp]:
  "patrol_times [] = []" "patrol_times (x # xs) = map fst (patrol_of x) @ patrol_times xs"
  "patrol_times (xs @ ys) = patrol_times xs @ patrol_times ys"
  by (simp_all add: patrol_times_def)

lemma reports_simps [simp]:
  "reports m [] = []" "reports m (x # xs) = filter (\<lambda>l. leak_memory l = m) (concat (map snd (patrol_of x))) @ reports m xs"
  by (simp_all add: reports_def)

lemma reports_append: "reports m (xs @ ys) = reports m xs @ reports m ys"
  by (simp add: reports_def)

section \<open>What a step leaves alone\<close>

lemma um_modify_None [simp]:
  "um_find (um_modify k f m) q = None \<longleftrightarrow> um_find m q = None"
  by (simp add: um_simps)

lemma allocate_locked_frame:
  assumes "allocate_locked w n al fp f zf T h = Inr (r, T', h')" and "m \<noteq> r"
  shows "um_find (closely T') m = um_find (closely T) m" "um_find (light T') m = um_find (light T) m"
  using assms
  by (auto simp: allocate_locked_def allocate_closely_def track_light_def track_closely_def Let_def um_simps
      andThen_Inr_iff split: option.splits prod.splits if_splits)

lemma untrack_frame:
  assumes "untrack q T = Inr T'" and "m \<noteq> q"
  shows "um_find (closely T') m = um_find (closely T) m" "um_find (light T') m = um_find (light T) m"
  using assms by (auto simp: untrack_def untrack_closely_def Let_def um_simps split: option.splits)

lemma find_move_other:
  "m \<noteq> q \<Longrightarrow> m \<noteq> r \<Longrightarrow> um_find (move_entry q r a xs) m = um_find xs m"
  by (auto simp: move_entry_def um_simps split: option.splits)

lemma reallocate_locked_frame:
  assumes "reallocate_locked w q sz f T h = Inr (r, T', h')" and "m \<noteq> q" and "m \<noteq> r"
  shows "um_find (closely T') m = um_find (closely T) m" "um_find (light T') m = um_find (light T) m"
  using assms
  by (auto simp: reallocate_locked_def reallocate_light_def reallocate_closely_def Let_def um_simps find_move_other
      andThen_Inr_iff split: option.splits prod.splits if_splits)

lemma reallocate_light_call:
  assumes "reallocate_light q sz f a T h = Inr (r, T', h')"
  shows "f h = (r, h')"
proof (cases "f h")
  case (Pair r1 h1)
  with assms show ?thesis by (simp add: reallocate_light_def Let_def split: if_splits)
qed

lemma reallocate_closely_call:
  assumes "reallocate_closely w q sz a T h = Inr (r, T', h')"
  shows "r = q \<and> h' = h \<or> (\<exists>al n h1. real_memalign_call w al n h = (r, h1) \<and> blocks h' = blocks h1)"
proof (cases "to_uint64 (roundUpToPageMultiple (environment w) (to_uint32 sz))
    = to_uint64 (roundUpToPageMultiple (environment w) (requestedSize a))")
  case True
  with assms show ?thesis by (simp add: reallocate_closely_def Let_def)
next
  case False
  obtain r1 h1 where call: "real_memalign_call w (to_uint64 (pageSize (environment w)))
      (to_uint64 (roundUpToPageMultiple (environment w) (to_uint32 sz))) h = (r1, h1)" by force
  with False assms have "r = r1" "memcpy r1 q (unat (requestedSize a)) h1 = Inr h'"
    by (auto simp: reallocate_closely_def Let_def andThen_Inr_iff)
  with call blocks_memcpy show ?thesis by blast
qed

text \<open>A locked reallocation makes one call: of the reallocator passed in, or of memalign.\<close>

lemma reallocate_locked_call:
  assumes "reallocate_locked w q sz f T h = Inr (r, T', h')"
  shows "f h = (r, h') \<or> r = q \<and> h' = h
    \<or> (\<exists>al n h1. real_memalign_call w al n h = (r, h1) \<and> blocks h' = blocks h1)"
proof -
  let ?T = "count_realloc (clock_now w) T"
  consider a where "um_find (light ?T) q = Some a"
    | a where "um_find (light ?T) q = None" "um_find (closely ?T) q = Some a"
    | "um_find (light ?T) q = None" "um_find (closely ?T) q = None" by (meson not_None_eq)
  then show ?thesis
  proof cases
    case 1
    with assms show ?thesis by (auto simp: reallocate_locked_def Let_def dest: reallocate_light_call)
  next
    case 2
    with assms have "reallocate_closely w q sz a ?T h = Inr (r, T', h')"
      by (simp add: reallocate_locked_def Let_def)
    from reallocate_closely_call [OF this] show ?thesis by blast
  next
    case 3
    with assms show ?thesis by (auto simp: reallocate_locked_def Let_def split: prod.splits)
  qed
qed

lemma reallocate_locked_blocks:
  assumes "reallocate_locked w q sz f T h = Inr (r, T', h')" and "memalign_ok w" and "reallocates j q f"
    and "blocks h m \<noteq> None" and "m \<noteq> nullptr" and "m \<noteq> q"
  shows "m \<noteq> r \<and> blocks h' m \<noteq> None"
  using reallocate_locked_call [OF assms(1)]
proof (elim disjE exE conjE)
  assume "f h = (r, h')"
  with assms(3) show ?thesis by (cases rule: reallocates_cases) (use assms(4-6) in auto)
next
  fix al n h1
  assume call: "real_memalign_call w al n h = (r, h1)" and "blocks h' = blocks h1"
  moreover have "allocates (unat n) (real_memalign_call w al n)" using assms(2) by (simp add: memalign_ok_def)
  from this call have "m \<noteq> r \<and> blocks h1 m \<noteq> None"
    by (cases rule: allocates_cases) (use assms(4-6) in auto)
  ultimately show ?thesis by simp
qed (use assms in auto)

fun returns :: "ptr \<Rightarrow> Action \<Rightarrow> bool" where
  "returns m (Allocated r) = (r = m)"
| "returns m (Reallocated q r) = (r = m)"
| "returns m _ = False"

text \<open>What an operation that returns has done: it called the function it was given, or ran under the lock.\<close>

lemma instrumentedAllocate_cases:
  assumes "instrumentedAllocate w n al fp f zf p = Inr (r, p')"
  obtains h where "bypass w p" "f (proc_heap p) = (r, h)" "p' = p\<lparr>proc_heap := h\<rparr>"
  | T h where "\<not> bypass w p" "allocate_locked w n al fp f zf (table p) (proc_heap p) = Inr (r, T, h)"
      "p' = p\<lparr>table := T, proc_heap := h, thread_inLibrary := False\<rparr>"
  using assms
  by (cases "bypass w p") (auto simp: instrumentedAllocate_def call_directly_def run_locked_def not_bypass
      andThen_Inr_iff split: prod.splits)

lemma instrumentedReallocate_cases:
  assumes "instrumentedReallocate w q sz f p = Inr (r, p')"
  obtains h where "bypass w p" "f (proc_heap p) = (r, h)" "p' = p\<lparr>proc_heap := h\<rparr>"
  | T h where "\<not> bypass w p" "reallocate_locked w q sz f (table p) (proc_heap p) = Inr (r, T, h)"
      "p' = p\<lparr>table := T, proc_heap := h, thread_inLibrary := False\<rparr>"
  using assms
  by (cases "bypass w p") (auto simp: instrumentedReallocate_def call_directly_def run_locked_def not_bypass
      andThen_Inr_iff split: prod.splits)

lemma instrumentedFree_cases:
  assumes "instrumentedFree w q f p = Inr (u, p')"
  obtains "q = nullptr" "p' = p"
  | "p' = p\<lparr>proc_heap := snd (f (proc_heap p))\<rparr>"
  | T where "untrack q (count_free (clock_now w) (table p)) = Inr T"
      "p' = p\<lparr>table := T, proc_heap := snd (f (proc_heap p)), thread_inLibrary := False\<rparr>"
proof (cases "q = nullptr \<or> bypass w p")
  case True
  with assms that(1,2) show ?thesis
    by (cases "f (proc_heap p)") (auto simp: instrumentedFree_def call_directly_def split: if_splits)
next
  case False
  with assms have "andThen (run_locked (free_locked w q f) p) (\<lambda>(r, p'). Inr (Some r, p')) = Inr (u, p')"
    by (simp add: instrumentedFree_def)
  with False that(3) show ?thesis
    by (cases "f (proc_heap p)") (auto simp: run_locked_def not_bypass free_locked_def andThen_Inr_iff)
qed

text \<open>A step leaves the entry of a block alone that it neither touches nor hands out.\<close>

lemma act_table_frame:
  assumes "act env k clock p x p'" and "\<not> touches m x" and "\<not> returns m x" and "patrol_of x = []"
  shows "um_find (closely (table p')) m = um_find (closely (table p)) m
    \<and> um_find (light (table p')) m = um_find (light (table p)) m"
  using assms(1)
proof cases
  case (act_allocate w n f al fp zf r)
  then have "m \<noteq> r" using assms(3) by auto
  from act_allocate(7) show ?thesis
    by (cases rule: instrumentedAllocate_cases) (use \<open>m \<noteq> r\<close> in \<open>simp_all add: allocate_locked_frame\<close>)
next
  case (act_free w q f u)
  then have "m \<noteq> q" using assms(2) by auto
  from act_free(5) show ?thesis
    by (cases rule: instrumentedFree_cases) (use \<open>m \<noteq> q\<close> in \<open>simp_all add: untrack_frame\<close>)
next
  case (act_realloc w j q f sz r)
  then have "m \<noteq> q" "m \<noteq> r" using assms(2,3) by auto
  from act_realloc(6) show ?thesis
    by (cases rule: instrumentedReallocate_cases)
      (use \<open>m \<noteq> q\<close> \<open>m \<noteq> r\<close> in \<open>simp_all add: reallocate_locked_frame\<close>)
next
  case (act_patrol time stats leaks T')
  with assms(4) show ?thesis by simp
qed simp_all

text \<open>A live block it does not touch stays live, and is not handed out again.\<close>

lemma act_blocks:
  assumes "act env k clock p x p'" and "page_env env k" and "system_ok env k p" and "room (table p)"
    and "\<not> touches m x" and "blocks (proc_heap p) m \<noteq> None" and "m \<noteq> nullptr"
  shows "\<not> returns m x \<and> blocks (proc_heap p') m \<noteq> None"
  using assms(1)
proof cases
  case (act_allocate w n f al fp zf r)
  with instrumentedAllocate_safe [of w k p n f al fp zf] assms(2-4)
  have "allocated (unat n) (proc_heap p) r (proc_heap p')" by auto
  with assms(6,7) act_allocate(1) show ?thesis by (auto simp: allocated_def)
next
  case (act_free w q f u)
  then have "m \<noteq> q" using assms(5) by auto
  with act_free(3) assms(6) have "blocks (snd (f (proc_heap p))) m \<noteq> None" by (simp add: frees_def)
  with act_free(5) assms(6) act_free(1) show ?thesis
    by (cases rule: instrumentedFree_cases) simp_all
next
  case (act_realloc w j q f sz r)
  then have q: "m \<noteq> q" using assms(5) by auto
  from act_realloc(6) have "m \<noteq> r \<and> blocks (proc_heap p') m \<noteq> None"
  proof (cases rule: instrumentedReallocate_cases)
    case (1 h)
    from act_realloc(4) 1(2) show ?thesis
      by (cases rule: reallocates_cases) (use 1(3) q assms(6,7) in auto)
  next
    case (2 T h)
    with reallocate_locked_blocks [OF 2(2) act_realloc(3,4) assms(6,7) q] show ?thesis by simp
  qed
  with act_realloc(1) show ?thesis by auto
qed (use assms(6) in simp_all)

definition keeps :: "ptr \<Rightarrow> Process \<Rightarrow> Process \<Rightarrow> bool" where
  "keeps m p p' \<longleftrightarrow> um_find (closely (table p')) m = um_find (closely (table p)) m
     \<and> um_find (light (table p')) m = um_find (light (table p)) m \<and> blocks (proc_heap p') m \<noteq> None"

lemma act_keeps:
  assumes "act env k clock p x p'" and "page_env env k" and "system_ok env k p" and "room (table p)"
    and "\<not> touches m x" and "patrol_of x = []" and "blocks (proc_heap p) m \<noteq> None" and "m \<noteq> nullptr"
  shows "keeps m p p'"
  using act_blocks [OF assms(1-5,7,8)] act_table_frame [OF assms(1,5) _ assms(6)] by (simp add: keeps_def)

section \<open>The life of a watched block\<close>

lemma filter_found_leaks:
  assumes "um_ok xs" and "\<And>q a. (q, a) \<in> set xs \<Longrightarrow> alloc_memory a = q"
  shows "filter (\<lambda>l. leak_memory l = m) (found_leaks now xs) = (case um_find xs m of None \<Rightarrow> []
    | Some a \<Rightarrow> if leaks_at now a then [found_leak a] else [])"
  using assms
proof (induction xs)
  case (Cons x xs)
  obtain q a where x: "x = (q, a)" by force
  have IH: "filter (\<lambda>l. leak_memory l = m) (found_leaks now xs) = (case um_find xs m of None \<Rightarrow> []
    | Some a \<Rightarrow> if leaks_at now a then [found_leak a] else [])"
    using Cons by (simp add: um_ok_def)
  have "alloc_memory a = q" using Cons.prems(2) x by simp
  moreover have "um_find xs q = None"
    using Cons.prems(1) x by (auto simp: um_ok_def um_find_def map_of_eq_None_iff)
  ultimately show ?case
    using IH by (auto simp: x kept_found_Cons um_find_def found_leak_def)
qed (simp add: found_leaks_def um_find_def)

text \<open>What one patrol does with one watched block.\<close>

lemma patrol_entry:
  assumes "act env k clock p (Patrolled now leaks) p'" and "system_ok env k p"
  shows "proc_heap p' = proc_heap p"
    and "um_find (closely (table p')) m = (case um_find (closely (table p)) m of None \<Rightarrow> None
      | Some a \<Rightarrow> if leaks_at now a then None else Some (patrolled env now a))"
    and "um_find (light (table p')) m = (case um_find (light (table p)) m of None \<Rightarrow> None
      | Some a \<Rightarrow> if expired now a then None else Some a)"
    and "filter (\<lambda>l. leak_memory l = m) leaks = (case um_find (closely (table p)) m of None \<Rightarrow> []
      | Some a \<Rightarrow> if leaks_at now a then [found_leak a] else [])"
proof -
  have ok: "table_ok (table p)" using assms(2) by (simp add: sys_ok_def)
  then have maps: "um_ok (light (table p))" "um_ok (closely (table p))" by (simp_all add: table_ok_defs)
  from assms(1) obtain time stats T' where now: "now = to_uint32 time"
    and upd: "patrolThreadUpdateAllocationStates env time (table p) = Inr ((stats, leaks), T')"
    and p': "p' = p\<lparr>table := T'\<rparr>" by (auto elim: act_patrolE)
  from patrol_result [OF ok, of env time] upd have T': "leaks = found_leaks now (closely (table p))"
    "light T' = filter (\<lambda>(k, a). \<not> expired now a) (light (table p))"
    "closely T' = kept_entries env now (closely (table p))" by (auto simp: now)
  show "proc_heap p' = proc_heap p" by (simp add: p')
  show "um_find (closely (table p')) m = (case um_find (closely (table p)) m of None \<Rightarrow> None
      | Some a \<Rightarrow> if leaks_at now a then None else Some (patrolled env now a))"
    by (simp add: p' T'(3) um_find_kept [OF maps(2)])
  show "um_find (light (table p')) m = (case um_find (light (table p)) m of None \<Rightarrow> None
      | Some a \<Rightarrow> if expired now a then None else Some a)"
    by (auto simp: p' T'(2) um_find_filter [OF maps(1)] split: option.split)
  have "\<And>q a. (q, a) \<in> set (closely (table p)) \<Longrightarrow> alloc_memory a = q"
    using closely_entry [OF ok] by (metis maps(2) um_find_elems)
  then show "filter (\<lambda>l. leak_memory l = m) leaks = (case um_find (closely (table p)) m of None \<Rightarrow> []
      | Some a \<Rightarrow> if leaks_at now a then [found_leak a] else [])"
    unfolding T'(1) by (rule filter_found_leaks [OF maps(2)])
qed

text \<open>A process in a history of bounded length, with a live block it does not touch for one step.\<close>

definition in_history :: "Environment \<Rightarrow> nat \<Rightarrow> (uint64 \<Rightarrow> bool) \<Rightarrow> nat \<Rightarrow> Process \<Rightarrow> bool" where
  "in_history env k clock len p \<longleftrightarrow> page_env env k \<and> (\<exists>n. history env k clock n p \<and> n + len < 2 ^ 32)"

lemma in_history_ok:
  assumes "in_history env k clock len p"
  shows "system_ok env k p"
  using assms history_ok unfolding in_history_def by fastforce

lemma in_history_room:
  assumes "in_history env k clock (Suc len) p"
  shows "room (table p)"
proof -
  from assms obtain n where "history env k clock n p" "page_env env k" "n + Suc len < 2 ^ 32"
    by (auto simp: in_history_def)
  with history_ok [of env k clock n p] show ?thesis by (auto intro: room_ever_bound)
qed

lemma in_history_less: "in_history env k clock n p \<Longrightarrow> n' \<le> n \<Longrightarrow> in_history env k clock n' p"
  unfolding in_history_def by (meson add_le_cancel_left le_less_trans)

lemma in_history_act:
  assumes "in_history env k clock (Suc len) p" and "act env k clock p x p'"
  shows "in_history env k clock len p'"
  using assms act_history unfolding in_history_def by (metis add_Suc_right add_Suc)

lemma quiet_step:
  assumes "in_history env k clock (Suc len) p" and "act env k clock p x p'" and "\<not> touches m x"
    and "patrol_of x = []" and "blocks (proc_heap p) m \<noteq> None" and "m \<noteq> nullptr"
  shows "keeps m p p'"
  using act_keeps [OF assms(2) _ in_history_ok [OF assms(1)] in_history_room [OF assms(1)] assms(3-6)] assms(1)
  by (simp add: in_history_def)

lemma patrol_of_cases:
  obtains "patrol_of x = []" | now leaks where "x = Patrolled now leaks"
  by (cases x) auto

text \<open>
  The life of a block nobody touches, as an automaton that reads the times of the patrols: its
  reports, and its entry at the end.
\<close>

fun life :: "Environment \<Rightarrow> CloselyWatchedAllocation option \<Rightarrow> uint32 list \<Rightarrow>
    FoundLeak list \<times> CloselyWatchedAllocation option" where
  "life env (Some a) (t # ts) = (if leaks_at t a then ([found_leak a], None) else life env (Some (patrolled env t a)) ts)"
| "life env e ts = ([], e)"

lemma life_None [simp]: "life env None ts = ([], None)"
  by (cases ts) simp_all

text \<open>The table implements the automaton, whatever happens to the other blocks.\<close>

lemma untouched_life:
  assumes "run env k clock p xs p'" and "in_history env k clock (length xs) p"
    and "list_all (\<lambda>x. \<not> touches m x) xs" and "blocks (proc_heap p) m \<noteq> None" and "m \<noteq> nullptr"
  shows "life env (um_find (closely (table p)) m) (patrol_times xs) = (reports m xs, um_find (closely (table p')) m)
    \<and> um_find (light (table p')) m = (case um_find (light (table p)) m of None \<Rightarrow> None
        | Some a \<Rightarrow> if list_ex (\<lambda>t. deadline a < t) (patrol_times xs) then None else Some a)
    \<and> blocks (proc_heap p') m \<noteq> None"
  using assms
proof (induction rule: run.induct)
  case (run_nil p)
  then show ?case by (cases "um_find (closely (table p)) m") (simp_all split: option.split)
next
  case (run_cons p x p1 xs p')
  then have H: "in_history env k clock (length xs) p1" by (auto intro: in_history_act)
  show ?case
  proof (rule patrol_of_cases [of x])
    assume q: "patrol_of x = []"
    with quiet_step [of env k clock "length xs" p x p1 m] run_cons.hyps(1) run_cons.prems
    have "keeps m p p1" by simp
    with run_cons.IH [OF H] run_cons.prems q show ?thesis by (simp add: keeps_def split: option.split)
  next
    fix now leaks assume x: "x = Patrolled now leaks"
    note S = in_history_ok [OF run_cons.prems(1)]
    note P = patrol_entry(1) [OF run_cons.hyps(1) [unfolded x] S]
      patrol_entry(2-4) [OF run_cons.hyps(1) [unfolded x] S, where m = m]
    from run_cons.IH [OF H] run_cons.prems P(1)
    have IH: "life env (um_find (closely (table p1)) m) (patrol_times xs) = (reports m xs, um_find (closely (table p')) m)"
      "um_find (light (table p')) m = (case um_find (light (table p1)) m of None \<Rightarrow> None
        | Some a \<Rightarrow> if list_ex (\<lambda>t. deadline a < t) (patrol_times xs) then None else Some a)"
      "blocks (proc_heap p') m \<noteq> None" by simp_all
    have "life env (um_find (closely (table p)) m) (now # patrol_times xs)
        = (filter (\<lambda>l. leak_memory l = m) leaks @ reports m xs, um_find (closely (table p')) m)"
      using IH(1) P(2,4) by (cases "um_find (closely (table p)) m") (auto split: if_splits)
    moreover have "um_find (light (table p')) m = (case um_find (light (table p)) m of None \<Rightarrow> None
        | Some a \<Rightarrow> if list_ex (\<lambda>t. deadline a < t) (now # patrol_times xs) then None else Some a)"
      using IH(2) P(3) by (cases "um_find (light (table p)) m") (auto simp: expired_def)
    ultimately show ?thesis using IH(3) by (simp add: x split: option.split)
  qed
qed

text \<open>
  When a forgotten block is reported: the patrols read the times \<open>ts\<close>; the first one after the
  deadline makes the block suspicious, and the first one more than the interval after that one
  declares it.
\<close>

definition declared :: "uint32 \<Rightarrow> uint32 \<Rightarrow> uint32 list \<Rightarrow> bool" where
  "declared due interval ts = (case dropWhile (\<lambda>t. t \<le> due) ts of [] \<Rightarrow> False
     | t1 # later \<Rightarrow> list_ex (\<lambda>t. t1 + interval < t) later)"

lemma declared_simps [simp]:
  "declared due interval [] = False"
  "declared due interval (t # ts) = (if t \<le> due then declared due interval ts
     else list_ex (\<lambda>s. t + interval < s) ts)"
  by (simp_all add: declared_def)

lemma life_suspicious:
  "watched_state a = Suspicious \<Longrightarrow> life env (Some a) ts =
     (if list_ex (\<lambda>t. deadline a < t) ts then ([found_leak a], None) else ([], Some a))"
  by (induction ts) (simp_all add: leaks_at_def patrolled_def expired_def)

lemma life_watched:
  fixes env :: Environment
  assumes "watched_state a = NotYetSuspicious"
  defines "d \<equiv> declared (deadline a) (closelyWatchedAllocationsAccessMaxInterval env)"
  shows "fst (life env (Some a) ts) = (if d ts then [found_leak a] else [])
    \<and> (snd (life env (Some a) ts) = None \<longleftrightarrow> d ts)"
  unfolding d_def
proof (induction ts)
  case (Cons t ts)
  show ?case
  proof (cases "t \<le> deadline a")
    case True
    moreover from this have "\<not> deadline a < t" by (simp add: not_less)
    ultimately show ?thesis using Cons assms(1) by (simp add: leaks_at_def patrolled_def expired_def)
  next
    case False
    let ?b = "patrolled env t a"
    have b: "watched_state ?b = Suspicious" "deadline ?b = t + closelyWatchedAllocationsAccessMaxInterval env"
      "found_leak ?b = found_leak a"
      using False by (simp_all add: patrolled_def expired_def not_le found_leak_def)
    with False assms(1) show ?thesis by (simp add: leaks_at_def life_suspicious)
  qed
qed simp

lemma untouched_watched:
  assumes "run env k clock p xs p'" and "in_history env k clock (length xs) p"
    and "list_all (\<lambda>x. \<not> touches m x) xs" and "um_find (closely (table p)) m = Some a"
    and "watched_state a = NotYetSuspicious"
  defines "d \<equiv> declared (deadline a) (closelyWatchedAllocationsAccessMaxInterval env) (patrol_times xs)"
  shows "reports m xs = (if d then [found_leak a] else []) \<and> (untracked m p' \<longleftrightarrow> d)
    \<and> blocks (proc_heap p') m \<noteq> None"
proof -
  have "m \<noteq> nullptr" "blocks (proc_heap p) m \<noteq> None" "um_find (light (table p)) m = None"
    using assms(4) in_history_ok [OF assms(2)] by (force simp: sys_ok_def memory_ok_def)+
  with untouched_life [OF assms(1-3)] life_watched [OF assms(5), of env "patrol_times xs"] assms(4)
  show ?thesis by (simp add: d_def untracked_def)
qed

text \<open>
  A forgotten block is reported exactly once, and exactly when the patrols are due, whatever else
  happens in between.
\<close>

lemma forgotten_block:
  assumes "history env k clock n p" and "page_env env k" and "n + length xs < 2 ^ 32"
    and "run env k clock p xs p'" and "list_all (\<lambda>x. \<not> touches m x) xs"
    and "um_find (closely (table p)) m = Some a" and "watched_state a = NotYetSuspicious"
  defines "d \<equiv> declared (deadline a) (closelyWatchedAllocationsAccessMaxInterval env) (patrol_times xs)"
  shows "reports m xs = (if d then [\<lparr>leak_stackTrace = snd (watchedStackTraceInfo a), leak_memory = m,
      leak_size = requestedSize a\<rparr>] else [])
    \<and> (untracked m p' \<longleftrightarrow> d) \<and> blocks (proc_heap p') m \<noteq> None"
proof -
  have H: "in_history env k clock (length xs) p" using assms(1-3) by (auto simp: in_history_def)
  then have "table_ok (table p)" using in_history_ok by (simp add: sys_ok_def)
  then have "alloc_memory a = m" using assms(6) by (rule closely_entry)
  with untouched_watched [OF assms(4) H assms(5-7)] show ?thesis by (simp add: d_def found_leak_def)
qed

section \<open>The address of a block that is gone\<close>

text \<open>While an untracked address is not given out again, nothing is reported for it.\<close>

lemma unused_address:
  assumes "run env k clock p xs p'" and "in_history env k clock (length xs) p"
    and "list_all (\<lambda>x. \<not> touches m x \<and> \<not> returns m x) xs" and "untracked m p"
  shows "reports m xs = [] \<and> untracked m p'"
  using assms
proof (induction rule: run.induct)
  case (run_cons p x p1 xs p')
  then have H: "in_history env k clock (length xs) p1" by (auto intro: in_history_act)
  have "untracked m p1 \<and> filter (\<lambda>l. leak_memory l = m) (concat (map snd (patrol_of x))) = []"
  proof (rule patrol_of_cases [of x])
    assume "patrol_of x = []"
    with act_table_frame [OF run_cons.hyps(1), of m] run_cons.prems(2,3) show ?thesis
      by (simp add: untracked_def)
  next
    fix now leaks assume x: "x = Patrolled now leaks"
    note S = in_history_ok [OF run_cons.prems(1)]
    from patrol_entry(2-4) [OF run_cons.hyps(1) [unfolded x] S, where m = m] run_cons.prems(3)
    show ?thesis by (simp add: x untracked_def)
  qed
  with run_cons.IH [OF H] run_cons.prems(2) show ?case by simp
qed simp

lemma freed_untracked:
  assumes "act env k clock p (Freed m) p'" and "system_ok env k p" and "m \<noteq> nullptr"
  shows "untracked m p'"
  using assms(1)
proof cases
  case (act_free w f u)
  with instrumentedFree_safe [OF assms(2) act_free(2) assms(3), of w] show ?thesis by auto
qed

section \<open>A process to apply it to\<close>

definition sample_leak :: FoundLeak where
  "sample_leak = \<lparr>leak_stackTrace = sample_trace, leak_memory = 1048576, leak_size = 5000\<rparr>"

lemma sample_act4: "act sample_env 12 (no_wrap sample_env) run3 (Patrolled 1131 []) run4"
proof -
  have "act sample_env 12 (no_wrap sample_env) run3 (Patrolled (to_uint32 1131) []) (run3\<lparr>table := table run4\<rparr>)"
    by (rule act_patrol [OF _ run4]) (simp add: no_wrap_def sample_env_def)
  then show ?thesis by (simp add: run4_def)
qed

lemma sample_act5: "act sample_env 12 (no_wrap sample_env) run4 (Patrolled 1133 [sample_leak]) run5"
proof -
  have "act sample_env 12 (no_wrap sample_env) run4 (Patrolled (to_uint32 1133) [sample_leak]) (run4\<lparr>table := table run5\<rparr>)"
    unfolding sample_leak_def
    by (rule act_patrol [OF _ run5]) (simp add: no_wrap_def sample_env_def)
  then show ?thesis by (simp add: run5_def)
qed

lemma sample_run: "run sample_env 12 (no_wrap sample_env) run3 [Patrolled 1131 [], Patrolled 1133 [sample_leak]] run5"
  by (rule run_cons [OF sample_act4 run_cons [OF sample_act5 run_nil]])

lemma sample_times: "patrol_times [Patrolled 1131 [], Patrolled 1133 [sample_leak]] = [1131, 1133]"
  by simp

end
