(* ===== verification/Wrapper_Malloc.thy ===== *)
theory Wrapper_Malloc
  imports Leak_Detection
begin

text \<open>
  \<^verbatim>\<open>alloc-counter/wrapper-malloc.cpp\<close>: the functions the library puts in place of malloc and
  its relatives. Each resolves the real function on its first call and passes it on to the
  allocation table. The real functions are the fields of a record of parameters; only for calloc
  does the resolution have an effect the program can see, since dlsym calls calloc itself. The
  return address and the stack pointer of the call are those of the call site.
\<close>

section \<open>The wrappers\<close>

record Glibc =
  real_malloc :: "uint64 \<Rightarrow> allocator"
  real_free :: "ptr \<Rightarrow> heap \<Rightarrow> unit \<times> heap"
  real_calloc :: "uint64 \<Rightarrow> uint64 \<Rightarrow> allocator"
  real_realloc :: "ptr \<Rightarrow> uint64 \<Rightarrow> allocator"
  real_reallocarray :: "ptr \<Rightarrow> uint64 \<Rightarrow> uint64 \<Rightarrow> allocator"
  real_posix_memalign :: "uint64 \<Rightarrow> uint64 \<Rightarrow> heap \<Rightarrow> int \<times> ptr \<times> heap"
  real_aligned_alloc :: "uint64 \<Rightarrow> uint64 \<Rightarrow> allocator"
  real_valloc :: "uint64 \<Rightarrow> allocator"
  real_pvalloc :: "uint64 \<Rightarrow> allocator"

record CallSite =
  stackTop :: ptr
  returnAddress :: ptr

definition makeCallstackFingerprint :: "CallSite \<Rightarrow> uint32 \<Rightarrow> CallstackFingerprint" where
  "makeCallstackFingerprint c n = computeCallstackFingerprint (stackTop c) (returnAddress c) n"

text \<open>The step all allocating wrappers share: the 64-bit size is passed on as a 32-bit one.\<close>

definition wrapped_allocation ::
  "Surroundings \<Rightarrow> CallSite \<Rightarrow> uint64 \<Rightarrow> uint32 \<Rightarrow> allocator \<Rightarrow> ZeroFill \<Rightarrow> Process \<Rightarrow> (ptr \<times> Process) outcome" where
  "wrapped_allocation w c n al f zf p = instrumentedAllocate w (to_uint32 n) al
     (makeCallstackFingerprint c (to_uint32 n)) f zf p"

definition malloc :: "Glibc \<Rightarrow> Surroundings \<Rightarrow> CallSite \<Rightarrow> uint64 \<Rightarrow> Process \<Rightarrow> (ptr \<times> Process) outcome" where
  "malloc g w c n p = wrapped_allocation w c n NoAlignment (real_malloc g n) Unnecessary p"

record CallocState =
  real_calloc_resolved :: bool
  alreadyInDlsymCall :: bool

definition calloc ::
  "Glibc \<Rightarrow> Surroundings \<Rightarrow> CallSite \<Rightarrow> uint64 \<Rightarrow> uint64 \<Rightarrow> CallocState \<Rightarrow> Process \<Rightarrow>
     (ptr \<times> CallocState \<times> Process) outcome" where
  "calloc g w c numMembers memberSize st p =
     (if \<not> real_calloc_resolved st \<and> alreadyInDlsymCall st then Inr (nullptr, st, p)
      else let st' = (if real_calloc_resolved st then st
                      else \<lparr>real_calloc_resolved = True, alreadyInDlsymCall = True\<rparr>);
               size = numMembers * memberSize
           in andThen (wrapped_allocation w c size NoAlignment (real_calloc g numMembers memberSize) Needed p)
                (\<lambda>(memory, p'). Inr (memory, st', p')))"

definition posix_memalign ::
  "Glibc \<Rightarrow> Surroundings \<Rightarrow> CallSite \<Rightarrow> uint64 \<Rightarrow> uint64 \<Rightarrow> Process \<Rightarrow>
     (int \<times> ptr option \<times> Process) outcome" where
  "posix_memalign g w c alignment n p =
     (let p0 = p\<lparr>proc_heap := (proc_heap p)\<lparr>errorCode := 0\<rparr>\<rparr>;
          f = (\<lambda>h. let (e, pointerHolder, h') = real_posix_memalign g alignment n h
                   in (pointerHolder, h'\<lparr>errorCode := e\<rparr>))
      in andThen (wrapped_allocation w c n (to_uint32 alignment) f Unnecessary p0) (\<lambda>(memory, p').
           Inr (errorCode (proc_heap p'), (if memory \<noteq> nullptr then Some memory else None), p')))"

definition aligned_alloc ::
  "Glibc \<Rightarrow> Surroundings \<Rightarrow> CallSite \<Rightarrow> uint64 \<Rightarrow> uint64 \<Rightarrow> Process \<Rightarrow> (ptr \<times> Process) outcome" where
  "aligned_alloc g w c alignment n p =
     wrapped_allocation w c n (to_uint32 alignment) (real_aligned_alloc g alignment n) Unnecessary p"

definition valloc :: "Glibc \<Rightarrow> Surroundings \<Rightarrow> CallSite \<Rightarrow> uint64 \<Rightarrow> Process \<Rightarrow> (ptr \<times> Process) outcome" where
  "valloc g w c n p =
     wrapped_allocation w c n (pageSize (environment w)) (real_valloc g n) Unnecessary p"

definition memalign ::
  "Surroundings \<Rightarrow> CallSite \<Rightarrow> uint64 \<Rightarrow> uint64 \<Rightarrow> Process \<Rightarrow> (ptr \<times> Process) outcome" where
  "memalign w c alignment n p =
     wrapped_allocation w c n (to_uint32 alignment) (real_memalign_call w alignment n) Unnecessary p"

definition pvalloc :: "Glibc \<Rightarrow> Surroundings \<Rightarrow> CallSite \<Rightarrow> uint64 \<Rightarrow> Process \<Rightarrow> (ptr \<times> Process) outcome" where
  "pvalloc g w c n p =
     wrapped_allocation w c n (pageSize (environment w)) (real_pvalloc g n) Unnecessary p"

definition free :: "Glibc \<Rightarrow> Surroundings \<Rightarrow> ptr \<Rightarrow> Process \<Rightarrow> Process outcome" where
  "free g w memory p = andThen (instrumentedFree w memory (real_free g memory) p) (\<lambda>(_, p'). Inr p')"

text \<open>
  The zero-size branches of realloc and reallocarray leave the result in a local variable that
  only the free function sets.
\<close>

definition free_for_result ::
  "Surroundings \<Rightarrow> ptr \<Rightarrow> allocator \<Rightarrow> Process \<Rightarrow> (ptr \<times> Process) outcome" where
  "free_for_result w oldMemory f p =
     andThen (instrumentedFree w oldMemory f p) (\<lambda>(ret, p').
       case ret of None \<Rightarrow> Inl Uninitialized | Some r \<Rightarrow> Inr (r, p'))"

definition realloc ::
  "Glibc \<Rightarrow> Surroundings \<Rightarrow> CallSite \<Rightarrow> ptr \<Rightarrow> uint64 \<Rightarrow> Process \<Rightarrow> (ptr \<times> Process) outcome" where
  "realloc g w c oldMemory newSize p =
     (if oldMemory = nullptr
      then wrapped_allocation w c newSize NoAlignment (real_realloc g nullptr newSize) Unnecessary p
      else if newSize = 0 then free_for_result w oldMemory (real_realloc g oldMemory 0) p
      else instrumentedReallocate w oldMemory newSize (real_realloc g oldMemory newSize) p)"

definition reallocarray ::
  "Glibc \<Rightarrow> Surroundings \<Rightarrow> CallSite \<Rightarrow> ptr \<Rightarrow> uint64 \<Rightarrow> uint64 \<Rightarrow> Process \<Rightarrow> (ptr \<times> Process) outcome" where
  "reallocarray g w c oldMemory newNumElements newElementSize p =
     (let newSize = newNumElements * newElementSize
      in if oldMemory = nullptr
         then wrapped_allocation w c newSize NoAlignment
                (real_reallocarray g nullptr newNumElements newElementSize) Unnecessary p
         else if newSize = 0
         then free_for_result w oldMemory (real_reallocarray g oldMemory newNumElements newElementSize) p
         else instrumentedReallocate w oldMemory newSize
                (real_reallocarray g oldMemory newNumElements newElementSize) p)"

section \<open>A concrete C library\<close>

definition sample_glibc :: Glibc where
  "sample_glibc = \<lparr>real_malloc = (\<lambda>n. alloc_at 131072 (unat n)), real_free = release,
     real_calloc = (\<lambda>a b. alloc_at 131072 (unat a * unat b)),
     real_realloc = (\<lambda>q n h. if q = nullptr then alloc_at 131072 (unat n) h
       else if n = 0 then (nullptr, snd (release q h)) else realloc_at q 131072 (unat n) h),
     real_reallocarray = (\<lambda>q a b h. if unat a * unat b < 2 ^ 63 then realloc_at q 131072 (unat a * unat b) h
       else (nullptr, h)),
     real_posix_memalign = (\<lambda>al n h. let (q, h') = alloc_at 131072 (unat n) h
       in (if q = nullptr then 12 else 0, q, h')),
     real_aligned_alloc = (\<lambda>al n. alloc_at 131072 (unat n)), real_valloc = (\<lambda>n. alloc_at 131072 (unat n)),
     real_pvalloc = (\<lambda>n. alloc_at 131072 (unat n))\<rparr>"

text \<open>Two call sites with the fingerprint 7, for requests of 0 and of 100 bytes.\<close>

definition site0 :: CallSite where
  "site0 = \<lparr>stackTop = 0, returnAddress = 7\<rparr>"

definition site100 :: CallSite where
  "site100 = \<lparr>stackTop = 0, returnAddress = 604766982\<rparr>"

lemma site_fingerprints [simp]:
  "makeCallstackFingerprint site0 0 = 7" "makeCallstackFingerprint site100 100 = 7"
  by (simp_all add: makeCallstackFingerprint_def computeCallstackFingerprint_def site0_def site100_def
      pointerToInt_def sizeClass_def)

section \<open>Without tracking\<close>

lemma wrapped_bypass: "bypass w p \<Longrightarrow> wrapped_allocation w c n al f zf p = call_directly f p"
  by (simp add: wrapped_allocation_def instrumentedAllocate_def)

section \<open>With tracking\<close>

text \<open>
  C15. The nine wrappers that allocate keep the contract of what they replace: malloc, calloc (on its first call as
  well, except from inside dlsym), realloc and reallocarray of the null pointer, posix_memalign (as to the
  pointer it stores, not its error code, which can be wrong), aligned_alloc, valloc, memalign and pvalloc. For a
  request that rounds to pages within 32 bits (a product that does not overflow), in a state that satisfies the invariant and
  has counted fewer allocations than its 32-bit counters hold, over functions that keep the contract of malloc, the call does not fault, yields null
  or a new block of at least the requested size with no other block changed, and keeps the invariant.
\<close>

theorem wrappers_allocate:
  assumes "page_env (environment w) k" and "memalign_ok w" and "system_ok (environment w) k p"
    and "room (table p)" and "unat n + 2 ^ k \<le> 2 ^ 32" and "unat a * unat b = unat n"
    and "allocates (unat n) (real_malloc g n)" and "allocates (unat n) (real_calloc g a b)"
    and "allocates (unat n) (real_realloc g nullptr n)" and "allocates (unat n) (real_reallocarray g nullptr a b)"
    and "allocates (unat n) (real_valloc g n)" and "allocates (unat n) (real_pvalloc g n)"
    and "allocates (unat n) (real_aligned_alloc g al n)"
    and "allocates (unat n) (\<lambda>h. let (e, q, h') = real_posix_memalign g al n h in (q, h'))"
    and "real_calloc_resolved st \<or> \<not> alreadyInDlsymCall st"
  defines "good \<equiv> \<lambda>r. \<exists>q p'. r = Inr (q, p') \<and> system_ok (environment w) k p'
    \<and> allocated (unat n) (proc_heap p) q (proc_heap p')"
  shows "good (malloc g w c n p) \<and> good (andThen (calloc g w c a b st p) (\<lambda>(q, _, p'). Inr (q, p')))
    \<and> good (realloc g w c nullptr n p) \<and> good (reallocarray g w c nullptr a b p)
    \<and> good (andThen (posix_memalign g w c al n p) (\<lambda>(e, q, p'). Inr (case q of None \<Rightarrow> nullptr | Some q \<Rightarrow> q, p')))
    \<and> good (aligned_alloc g w c al n p) \<and> good (valloc g w c n p) \<and> good (memalign w c al n p)
    \<and> good (pvalloc g w c n p)"
proof -
  have n32: "unat (to_uint32 n) = unat n"
  proof -
    have "unat n < 2 ^ 32" using assms(5) by (rule less_le_trans [rotated]) simp
    then show ?thesis by (simp add: unat_to_uint32)
  qed
  have safe: "\<exists>q p'. wrapped_allocation w c n al' f zf p0 = Inr (q, p') \<and> system_ok (environment w) k p'
      \<and> allocated (unat n) (proc_heap p0) q (proc_heap p')"
    if "system_ok (environment w) k p0" "room (table p0)" "allocates (unat n) f" for al' f zf p0
    using instrumentedAllocate_safe [of w k p0 "to_uint32 n" f al' "makeCallstackFingerprint c (to_uint32 n)" zf]
      assms(1,2,5) that by (auto simp: wrapped_allocation_def n32)
  then have wrapped: "good (wrapped_allocation w c n al' f zf p)" if "allocates (unat n) f" for al' f zf
    using assms(3,4) that unfolding good_def by blast
  have ab: "a * b = n"
    by (rule word_unat_eq_iff [THEN iffD2]) (simp add: unat_word_ariths assms(6) unat_lt_64 [simplified])
  have "allocates (unat n) (real_memalign_call w al n)"
    using assms(2) by (simp add: memalign_ok_def)
  then have "good (malloc g w c n p)" "good (realloc g w c nullptr n p)" "good (reallocarray g w c nullptr a b p)"
    "good (aligned_alloc g w c al n p)" "good (valloc g w c n p)" "good (memalign w c al n p)" "good (pvalloc g w c n p)"
    using wrapped assms(7,9-13)
    by (simp_all add: malloc_def realloc_def reallocarray_def valloc_def pvalloc_def aligned_alloc_def memalign_def ab)
  moreover have "good (andThen (calloc g w c a b st p) (\<lambda>(q, _, p'). Inr (q, p')))"
    using wrapped [OF assms(8), of NoAlignment Needed] assms(15)
    by (auto simp: calloc_def ab Let_def andThen_assoc case_prod_unfold)
  moreover have "good (andThen (posix_memalign g w c al n p) (\<lambda>(e, q, p'). Inr (case q of None \<Rightarrow> nullptr | Some q \<Rightarrow> q, p')))"
  proof -
    let ?p = "p\<lparr>proc_heap := (proc_heap p)\<lparr>errorCode := 0\<rparr>\<rparr>"
    let ?f = "\<lambda>h. let (e, q, h') = real_posix_memalign g al n h in (q, h'\<lparr>errorCode := e\<rparr>)"
    have "allocates (unat n) ?f" using assms(14) by (simp add: allocates_def case_prod_unfold Let_def)
    moreover have "system_ok (environment w) k ?p" using assms(3) by (simp add: sys_ok_def memory_ok_def)
    ultimately obtain q p' where q: "wrapped_allocation w c n (to_uint32 al) ?f Unnecessary ?p = Inr (q, p')"
      "system_ok (environment w) k p'" "allocated (unat n) (proc_heap ?p) q (proc_heap p')"
      using safe [of ?p ?f "to_uint32 al" Unnecessary] assms(4) by auto
    then show ?thesis unfolding good_def
      by (intro exI [of _ q] exI [of _ p']) (simp add: posix_memalign_def Let_def allocated_def)
  qed
  ultimately show ?thesis by blast
qed

text \<open>
  When an allocation is closely watched: its fingerprint is suspicious and its stack trace wants
  more samples. The preferred allocator is then not called at all.
\<close>

definition watches :: "Surroundings \<Rightarrow> CallstackFingerprint \<Rightarrow> Process \<Rightarrow> bool" where
  "watches w fp p \<longleftrightarrow> \<not> bypass w p \<and>
     (case um_find (suspicious (table p)) fp of None \<Rightarrow> False
      | Some t \<Rightarrow> needsMoreCloselyWatchedAllocations (environment w)
          (countLiveCloselyWatchedAllocationsAllTraces (table p))
          (case um_find t (current_trace w) of None \<Rightarrow> WatchedStackTraceInfo_construct (current_trace w)
           | Some info \<Rightarrow> info))"

lemma watched_allocation:
  assumes "watches w fp p" and "table_ok (table p)"
    and m: "real_memalign_call w (to_uint64 (max al (pageSize (environment w))))
      (to_uint64 (roundUpToPageMultiple (environment w) n)) (proc_heap p) = (q, h1)"
    and "q = nullptr \<or> (\<exists>s \<ge> unat n. blocks h1 q = Some s)"
  shows "\<exists>p'. instrumentedAllocate w n al fp f zf p = Inr (q, p')
    \<and> (if q \<noteq> nullptr \<and> zf = Needed then bzero q (unat n) h1 = Inr (proc_heap p') else proc_heap p' = h1)"
proof -
  let ?T2 = "count_suspicious_allocation (count_allocation (clock_now w) (table p))"
  let ?T3 = "?T2\<lparr>m_suspiciousFingerprints := um_modify fp (getOrCreate (current_trace w)) (suspicious ?T2)\<rparr>"
  obtain t where t: "um_find (suspicious (table p)) fp = Some t"
    using assms(1) by (auto simp: watches_def split: option.splits)
  have D: "deref_info ?T3 (fp, current_trace w) = Some (case um_find t (current_trace w) of
      None \<Rightarrow> WatchedStackTraceInfo_construct (current_trace w) | Some info \<Rightarrow> info)"
    using t by (auto simp: deref_info_def um_simps getOrCreate_def split: option.split)
  have "bzero q (unat n) h1 = Inr (h1\<lparr>bytes := set_bytes q (replicate (unat n) 0) (bytes h1)\<rparr>)" if "q \<noteq> nullptr"
    using that assms(4) by (auto simp: bzero_def in_block_def)
  with assms(1) t D m not_bypass [of w p] show ?thesis
    by (auto simp: watches_def instrumentedAllocate_def run_locked_def allocate_locked_def
        getSuspiciousStackTracesTable_def allocate_closely_def Let_def)
qed

lemma sample_watches: "watches sample_surroundings 7 watched_process"
proof -
  have "needsMoreCloselyWatchedAllocations sample_env 1 watched_info"
    by (simp add: needsMoreCloselyWatchedAllocations_def hasLeaks_def countFinishedWatchedAllocations_def
        watched_info_def count_watched_def WatchedStackTraceInfo_construct_def sample_env_def word_le_nat_alt)
  then show ?thesis unfolding watches_def by (simp add: watched_process_def watched_table_def bypass_def
        inLibrary_def empty_process_def)
qed

lemma watched_table_ok: "table_ok (table watched_process)"
  using sample_sys_ok(3) by (simp add: sys_ok_def)

text \<open>
  C32. Sizes of 4 GiB and more are cut to their low 32 bits on their way to the table: when
  such a request is closely watched, the block malloc returns is smaller than the request.
\<close>

theorem malloc_watched_truncates:
  assumes "watches w (makeCallstackFingerprint c (to_uint32 n)) p" and "table_ok (table p)"
    and "page_env (environment w) k" and "unat (to_uint32 n) + 2 ^ k \<le> 2 ^ 32" and "2 ^ 32 \<le> unat n"
    and "real_memalign_call w (to_uint64 (max NoAlignment (pageSize (environment w))))
      (to_uint64 (roundUpToPageMultiple (environment w) (to_uint32 n))) (proc_heap p) = (q, h1)"
    and "blocks h1 q = Some (unat (roundUpToPageMultiple (environment w) (to_uint32 n)))"
  shows "\<exists>p' s. malloc g w c n p = Inr (q, p') \<and> blocks (proc_heap p') q = Some s \<and> s < unat n"
proof -
  have "unat (to_uint32 n) \<le> unat (roundUpToPageMultiple (environment w) (to_uint32 n))"
    by (rule round_bounds(2) [OF assms(3,4)])
  moreover have "unat (roundUpToPageMultiple (environment w) (to_uint32 n)) < unat n"
    using assms(5) unat_lt_32 [of "roundUpToPageMultiple (environment w) (to_uint32 n)"] by simp
  ultimately show ?thesis
    using watched_allocation [OF assms(1,2,6), of "real_malloc g n" Unnecessary] assms(7)
    by (auto simp: malloc_def wrapped_allocation_def)
qed

theorem malloc_watched_truncates_witness:
  "\<exists>p' s. malloc sample_glibc sample_surroundings site0 4294967296 watched_process = Inr (1048576, p')
    \<and> blocks (proc_heap p') 1048576 = Some s \<and> s < 4294967296"
proof -
  have "roundUpToPageMultiple sample_env 0 = 0" by (simp add: roundUpToPageMultiple_def sample_env_def)
  moreover have z: "to_uint32 (4294967296 :: uint64) = 0" by (rule word_unat_eq_iff [THEN iffD2]) simp
  moreover note malloc_watched_truncates [of sample_surroundings site0 4294967296 watched_process 12 1048576
      "(proc_heap watched_process)\<lparr>blocks := (blocks (proc_heap watched_process))(1048576 \<mapsto> 0)\<rparr>" sample_glibc,
      unfolded z]
  ultimately show ?thesis using page_sample_env by (simp add: sample_watches watched_table_ok alloc_at_def)
qed

text \<open>
  C30. A watched calloc hands out zeroed memory although the block comes from memalign: for a request
  of less than 4 GiB whose product does not overflow, when memalign yields a block of at least the request, calloc (at its
  first call as well, except from inside dlsym) returns it and every byte of the request reads zero.
\<close>

theorem calloc_watched_zeroes:
  assumes "watches w (makeCallstackFingerprint c (to_uint32 (a * b))) p" and "table_ok (table p)"
    and "real_memalign_call w (to_uint64 (max NoAlignment (pageSize (environment w))))
      (to_uint64 (roundUpToPageMultiple (environment w) (to_uint32 (a * b)))) (proc_heap p) = (q, h1)"
    and "q \<noteq> nullptr" and "blocks h1 q = Some s" and "unat a * unat b \<le> s" and "unat a * unat b < 2 ^ 32"
    and "real_calloc_resolved st \<or> \<not> alreadyInDlsymCall st"
  shows "\<exists>st' p'. calloc g w c a b st p = Inr (q, st', p')
    \<and> (\<forall>i < unat a * unat b. bytes (proc_heap p') (q + of_nat i) = 0)"
proof -
  have "unat (a * b) = unat a * unat b" using assms(7) by (simp add: unat_word_ariths)
  then have n: "unat (to_uint32 (a * b)) = unat a * unat b" using assms(7) by (simp add: unat_to_uint32)
  obtain p' where p': "wrapped_allocation w c (a * b) NoAlignment (real_calloc g a b) Needed p = Inr (q, p')"
    and z: "bzero q (unat a * unat b) h1 = Inr (proc_heap p')"
    using watched_allocation [OF assms(1-3), of "real_calloc g a b" Needed] assms(4-6) n
    by (auto simp: wrapped_allocation_def)
  have "bytes (proc_heap p') (q + of_nat i) = 0" if "i < unat a * unat b" for i
    using bzero_zeroes [OF z that] assms(7) by simp
  with p' assms(8) show ?thesis by (auto simp: calloc_def Let_def)
qed

theorem calloc_watched_zeroes_witness:
  "\<exists>st p'. calloc sample_glibc sample_surroundings site100 10 10 \<lparr>real_calloc_resolved = False, alreadyInDlsymCall = False\<rparr>
       watched_process = Inr (1048576, st, p')
    \<and> bytes (proc_heap p') (1048576 + of_nat 99) = 0"
proof -
  let ?h = "(proc_heap watched_process)\<lparr>blocks := (blocks (proc_heap watched_process))(1048576 \<mapsto> 4096)\<rparr>"
  let ?st = "\<lparr>real_calloc_resolved = False, alreadyInDlsymCall = False\<rparr>"
  have "\<exists>st p'. calloc sample_glibc sample_surroundings site100 10 10 ?st watched_process = Inr (1048576, st, p')
      \<and> (\<forall>i < unat (10 :: uint64) * unat (10 :: uint64). bytes (proc_heap p') (1048576 + of_nat i) = 0)"
    by (rule calloc_watched_zeroes [where s = 4096 and ?h1.0 = ?h])
      (simp_all add: sample_watches watched_table_ok alloc_at_def)
  moreover have "99 < unat (10 :: uint64) * unat (10 :: uint64)" by simp
  ultimately show ?thesis by blast
qed

text \<open>
  posix_memalign reports success for a failed watched allocation: the error code is only
  set by the real function, which is not called on that path, so the caller gets 0 and a pointer that was
  never written.
\<close>

theorem posix_memalign_false_success:
  assumes "watches w (makeCallstackFingerprint c (to_uint32 n)) p" and "table_ok (table p)"
    and "real_memalign_call w (to_uint64 (max (to_uint32 al) (pageSize (environment w))))
      (to_uint64 (roundUpToPageMultiple (environment w) (to_uint32 n)))
      ((proc_heap p)\<lparr>errorCode := 0\<rparr>) = (nullptr, h1)"
    and "errorCode h1 = 0"
  shows "\<exists>p'. posix_memalign g w c al n p = Inr (0, None, p')"
proof -
  let ?p = "p\<lparr>proc_heap := (proc_heap p)\<lparr>errorCode := 0\<rparr>\<rparr>"
  have W: "watches w (makeCallstackFingerprint c (to_uint32 n)) ?p"
    using assms(1) by (auto simp: watches_def bypass_def split: option.splits)
  let ?f = "\<lambda>h. let (e, pointerHolder, h') = real_posix_memalign g al n h in (pointerHolder, h'\<lparr>errorCode := e\<rparr>)"
  obtain p' where "instrumentedAllocate w (to_uint32 n) (to_uint32 al)
      (makeCallstackFingerprint c (to_uint32 n)) ?f Unnecessary ?p = Inr (nullptr, p')" "proc_heap p' = h1"
    using watched_allocation [OF W, where q = nullptr and al = "to_uint32 al" and f = ?f and zf = Unnecessary]
      assms(2,3) by auto
  with assms(4) show ?thesis
    by (simp add: posix_memalign_def wrapped_allocation_def Let_def)
qed

theorem posix_memalign_false_success_witness:
  "\<exists>p'. posix_memalign sample_glibc (sample_surroundings\<lparr>real_memalign_call := (\<lambda>al n h. (nullptr, h))\<rparr>)
     site100 64 100 watched_process = Inr (0, None, p')"
proof -
  let ?w = "sample_surroundings\<lparr>real_memalign_call := (\<lambda>al n h. (nullptr, h))\<rparr>"
  have "watches ?w 7 watched_process"
    using sample_watches by (auto simp: watches_def bypass_def split: option.splits)
  then show ?thesis
    by (intro posix_memalign_false_success [of ?w site100 100 watched_process 64
          "(proc_heap watched_process)\<lparr>errorCode := 0\<rparr>" sample_glibc]) (simp_all add: watched_table_ok)
qed

text \<open>
  realloc to size zero acts as free: the result variable is always set before it is
  returned, the block is no longer tracked, and the invariant is kept.
\<close>

theorem realloc_zero_frees:
  assumes "system_ok env k p" and "q \<noteq> nullptr" and "frees q (real_realloc g q 0)"
    and "bypass w p \<Longrightarrow> untracked q p"
  shows "\<exists>r p'. realloc g w c q 0 p = Inr (r, p') \<and> r = fst (real_realloc g q 0 (proc_heap p))
    \<and> untracked q p' \<and> system_ok env k p' \<and> blocks (proc_heap p') q = None"
proof -
  from instrumentedFree_safe [OF assms(1,3,2,4)] obtain p' where
    "instrumentedFree w q (real_realloc g q 0) p = Inr (Some (fst (real_realloc g q 0 (proc_heap p))), p')"
    "system_ok env k p'" "untracked q p'" "proc_heap p' = snd (real_realloc g q 0 (proc_heap p))"
    by blast
  moreover have "blocks (snd (real_realloc g q 0 (proc_heap p))) q = None"
    using assms(3) by (simp add: frees_def)
  ultimately show ?thesis using assms(2) by (simp add: realloc_def free_for_result_def)
qed

theorem realloc_zero_frees_witness:
  "\<exists>p'. realloc sample_glibc sample_surroundings site0 65536 0 watched_process = Inr (nullptr, p')
    \<and> untracked 65536 p' \<and> blocks (proc_heap p') 65536 = None"
  using realloc_zero_frees [OF sample_sys_ok(3), of 65536 sample_glibc sample_surroundings site0]
  by (auto simp: sample_glibc_def frees_def release_def)

text \<open>
  reallocarray does not check its product for overflow: when it wraps to zero, the table
  forgets the block as if it were freed, while the real function refuses the request and leaves
  the block live.
\<close>

theorem reallocarray_overflow_untracks:
  assumes "system_ok env k p" and "\<not> bypass w p" and "q \<noteq> nullptr"
    and "um_find (light (table p)) q \<noteq> None \<or> um_find (closely (table p)) q \<noteq> None"
    and "a * b = 0" and "real_reallocarray g q a b (proc_heap p) = (nullptr, proc_heap p)"
  shows "\<exists>p'. reallocarray g w c q a b p = Inr (nullptr, p') \<and> untracked q p'
    \<and> blocks (proc_heap p') q \<noteq> None"
proof -
  have S: "sys_ok env k (count_free (clock_now w) (table p)) (proc_heap p)" using assms(1) by simp
  then have "table_ok (count_free (clock_now w) (table p))" by (simp only: sys_ok_def)
  from untrack_ok [OF this, of q] obtain T' where T': "untrack q (count_free (clock_now w) (table p)) = Inr T'"
    by blast
  have "um_find (light T') q = None" "um_find (closely T') q = None"
    by (rule sys_ok_untrack [OF S T' refl])+
  moreover have "blocks (proc_heap p) q \<noteq> None"
    using assms(1,4) by (fastforce simp: sys_ok_def memory_ok_def)
  ultimately show ?thesis
    using T' assms(2,3,5,6) not_bypass [OF assms(2)]
    by (simp add: reallocarray_def free_for_result_def instrumentedFree_def run_locked_def free_locked_def
        untracked_def)
qed

theorem reallocarray_overflow_untracks_witness:
  "\<exists>p'. reallocarray sample_glibc sample_surroundings site0 65536 8589934592 8589934592 watched_process
      = Inr (nullptr, p') \<and> untracked 65536 p' \<and> blocks (proc_heap p') 65536 \<noteq> None"
  using reallocarray_overflow_untracks [OF sample_sys_ok(3), of sample_surroundings 65536 8589934592 8589934592
      sample_glibc site0]
  by (simp add: sample_glibc_def)

end
