(* ===== verification/Program_Calls.thy ===== *)
theory Program_Calls
  imports Leak_Life Wrapper_Malloc
begin

text \<open>
  The interface the program sees and the steps of the histories: every call of one of the ten
  wrappers, under the contracts of the C library, returns and is a run of labelled steps, so the
  theorems on histories and runs are theorems on programs that call malloc and its relatives.
\<close>

section \<open>Calls\<close>

datatype LibCall =
    Malloc uint64
  | Calloc uint64 uint64
  | Realloc ptr uint64
  | Reallocarray ptr uint64 uint64
  | PosixMemalign uint64 uint64
  | AlignedAlloc uint64 uint64
  | Valloc uint64
  | Memalign uint64 uint64
  | Pvalloc uint64
  | Free ptr

definition after_dlsym :: CallocState where
  "after_dlsym = \<lparr>real_calloc_resolved = True, alreadyInDlsymCall = True\<rparr>"

fun exec_call :: "Glibc \<Rightarrow> Surroundings \<Rightarrow> CallSite \<Rightarrow> LibCall \<Rightarrow> Process \<Rightarrow> (ptr \<times> Process) outcome" where
  "exec_call g w c (Malloc n) p = malloc g w c n p"
| "exec_call g w c (Calloc a b) p = andThen (calloc g w c a b after_dlsym p) (\<lambda>(q, st, p'). Inr (q, p'))"
| "exec_call g w c (Realloc q n) p = realloc g w c q n p"
| "exec_call g w c (Reallocarray q a b) p = reallocarray g w c q a b p"
| "exec_call g w c (PosixMemalign al n) p = andThen (posix_memalign g w c al n p) (\<lambda>(e, q, p').
     Inr (case q of None \<Rightarrow> nullptr | Some q \<Rightarrow> q, p'))"
| "exec_call g w c (AlignedAlloc al n) p = aligned_alloc g w c al n p"
| "exec_call g w c (Valloc n) p = valloc g w c n p"
| "exec_call g w c (Memalign al n) p = memalign w c al n p"
| "exec_call g w c (Pvalloc n) p = pvalloc g w c n p"
| "exec_call g w c (Free q) p = andThen (free g w q p) (\<lambda>p'. Inr (nullptr, p'))"

text \<open>The labels of the steps a call makes.\<close>

fun resize_actions :: "ptr \<Rightarrow> bool \<Rightarrow> ptr \<Rightarrow> Action list" where
  "resize_actions q zero r = (if q = nullptr then [Allocated r] else if zero then [Freed q] else [Reallocated q r])"

fun call_actions :: "LibCall \<Rightarrow> ptr \<Rightarrow> Action list" where
  "call_actions (Realloc q n) r = resize_actions q (n = 0) r"
| "call_actions (Reallocarray q a b) r = resize_actions q (a * b = 0) r"
| "call_actions (PosixMemalign al n) r = [Written, Allocated r]"
| "call_actions (Free q) r = [Freed q]"
| "call_actions _ r = [Allocated r]"

section \<open>Contracts\<close>

text \<open>What the C standard and the manual pages promise of the real functions.\<close>

definition glibc_ok :: "Glibc \<Rightarrow> bool" where
  "glibc_ok g \<longleftrightarrow> (\<forall>n. allocates (unat n) (real_malloc g n) \<and> allocates (unat n) (real_valloc g n)
       \<and> allocates (unat n) (real_pvalloc g n) \<and> allocates (unat n) (real_realloc g nullptr n))
     \<and> (\<forall>al n. allocates (unat n) (real_aligned_alloc g al n)
       \<and> allocates (unat n) (\<lambda>h. let (e, q, h') = real_posix_memalign g al n h in (q, h')))
     \<and> (\<forall>a b. unat a * unat b < 2 ^ 64 \<longrightarrow> allocates (unat a * unat b) (real_calloc g a b)
       \<and> allocates (unat a * unat b) (real_reallocarray g nullptr a b))
     \<and> (\<forall>q n. q \<noteq> nullptr \<longrightarrow> frees q (real_free g q) \<and> frees q (real_realloc g q 0)
       \<and> (n \<noteq> 0 \<longrightarrow> reallocates (unat n) q (real_realloc g q n)))
     \<and> (\<forall>q a b. q \<noteq> nullptr \<longrightarrow> unat a * unat b < 2 ^ 64 \<longrightarrow>
          (if a * b = 0 then frees q (real_reallocarray g q a b)
           else reallocates (unat (a * b)) q (real_reallocarray g q a b)))"

text \<open>
  When a call is one the library gets right: its size rounds to pages within 32 bits, a product does not overflow, a
  reallocation is sound, and a call that bypasses the tables does not concern a tracked block.
\<close>

definition fits :: "nat \<Rightarrow> nat \<Rightarrow> bool" where
  "fits k n \<longleftrightarrow> n + 2 ^ k \<le> 2 ^ 32"

definition resize_ok :: "Surroundings \<Rightarrow> nat \<Rightarrow> ptr \<Rightarrow> uint64 \<Rightarrow> allocator \<Rightarrow> Process \<Rightarrow> bool" where
  "resize_ok w k q n f p \<longleftrightarrow> (if q = nullptr then fits k (unat n)
     else if n = 0 then bypass w p \<longrightarrow> untracked q p else realloc_fine w k q n f p)"

fun call_ok :: "Surroundings \<Rightarrow> nat \<Rightarrow> Glibc \<Rightarrow> LibCall \<Rightarrow> Process \<Rightarrow> bool" where
  "call_ok w k g (Malloc n) p = fits k (unat n)"
| "call_ok w k g (Calloc a b) p = fits k (unat a * unat b)"
| "call_ok w k g (Realloc q n) p = resize_ok w k q n (real_realloc g q n) p"
| "call_ok w k g (Reallocarray q a b) p =
     (unat a * unat b < 2 ^ 64 \<and> resize_ok w k q (a * b) (real_reallocarray g q a b) p)"
| "call_ok w k g (PosixMemalign al n) p = fits k (unat n)"
| "call_ok w k g (AlignedAlloc al n) p = fits k (unat n)"
| "call_ok w k g (Valloc n) p = fits k (unat n)"
| "call_ok w k g (Memalign al n) p = fits k (unat n)"
| "call_ok w k g (Pvalloc n) p = fits k (unat n)"
| "call_ok w k g (Free q) p = (bypass w p \<longrightarrow> untracked q p)"

definition calls_in :: "Environment \<Rightarrow> (uint64 \<Rightarrow> bool) \<Rightarrow> Surroundings \<Rightarrow> bool" where
  "calls_in env clock w \<longleftrightarrow> environment w = env \<and> clock (time_now w) \<and> memalign_ok w"

section \<open>Each call is a run\<close>

lemma fits_word:
  assumes "fits k (unat (n :: uint64))"
  shows "unat (to_uint32 n) = unat n" "unat (to_uint32 n) + 2 ^ k \<le> 2 ^ 32"
proof -
  have "(1 :: nat) \<le> 2 ^ k" by simp
  then have "unat n < 2 ^ 32" using assms unfolding fits_def by linarith
  then show "unat (to_uint32 n) = unat n" by (simp add: unat_to_uint32)
  with assms show "unat (to_uint32 n) + 2 ^ k \<le> 2 ^ 32" by (simp add: fits_def)
qed

lemma product_word:
  assumes "unat a * unat b < 2 ^ 64"
  shows "unat (a * b :: uint64) = unat a * unat b"
  using assms by (simp add: unat_word_ariths)

lemma fits_product: "fits k (unat a * unat b) \<Longrightarrow> unat (a * b :: uint64) = unat a * unat b"
  by (rule product_word) (simp add: fits_def)

lemma run_one: "act env k clock p x p' \<Longrightarrow> run env k clock p [x] p'"
  by (blast intro: run.intros)

text \<open>A wrapper call that allocates.\<close>

lemma wrapped_run:
  assumes "page_env env k" and "system_ok env k p" and "room (table p)" and "calls_in env clock w"
    and "fits k (unat n)" and "allocates (unat n) f"
  shows "\<exists>r p'. wrapped_allocation w c n al f zf p = Inr (r, p') \<and> run env k clock p [Allocated r] p'"
proof -
  note fit = fits_word [OF assms(5)]
  have e: "environment w = env" "clock (time_now w)" "memalign_ok w" using assms(4) by (simp_all add: calls_in_def)
  have f: "allocates (unat (to_uint32 n)) f" using assms(6) fit(1) by simp
  from instrumentedAllocate_safe [of w k p "to_uint32 n" f al "makeCallstackFingerprint c (to_uint32 n)" zf]
    assms(1-3) e f fit(2) obtain r p' where
    r: "instrumentedAllocate w (to_uint32 n) al (makeCallstackFingerprint c (to_uint32 n)) f zf p = Inr (r, p')"
    by auto
  with act_allocate [where clock = clock, OF e f fit(2) r] show ?thesis
    by (auto simp: wrapped_allocation_def intro: run_one)
qed

text \<open>A call that frees, whatever the free function returns.\<close>

lemma free_forget:
  "instrumentedFree w q (\<lambda>h. ((), snd (f h))) p
     = andThen (instrumentedFree w q f p) (\<lambda>(r, p'). Inr (map_option (\<lambda>_. ()) r, p'))"
  by (cases "untrack q (count_free (clock_now w) (table p))"; cases "f (proc_heap p)"; cases "thread_inLibrary p")
    (auto simp: instrumentedFree_def call_directly_def run_locked_def free_locked_def)

lemma freed_run:
  assumes "system_ok env k p" and "environment w = env" and "q \<noteq> nullptr" and "frees q f"
    and "bypass w p \<longrightarrow> untracked q p"
  shows "\<exists>r p'. instrumentedFree w q f p = Inr (Some r, p') \<and> run env k clock p [Freed q] p'"
proof -
  from instrumentedFree_safe [OF assms(1,4,3)] assms(5) obtain r p' where
    r: "instrumentedFree w q f p = Inr (Some r, p')" by blast
  then have "instrumentedFree w q (\<lambda>h. ((), snd (f h))) p = Inr (Some (), p')"
    by (simp add: free_forget)
  moreover have "frees q (\<lambda>h. ((), snd (f h)))" using assms(4) by (simp add: frees_def)
  ultimately have "act env k clock p (Freed q) p'"
    using act_free [where clock = clock, OF assms(2)] assms(5) by blast
  with r show ?thesis by (blast intro: run_one)
qed

lemma null_free_run: "environment (w :: Surroundings) = env \<Longrightarrow> system_ok env k p \<Longrightarrow> run env k clock p [Freed nullptr] p"
proof (rule run_one)
  assume w: "environment w = env" and S: "system_ok env k p"
  have "um_find (closely (table p)) nullptr = None"
    using S by (cases "um_find (closely (table p)) nullptr") (auto simp: sys_ok_def memory_ok_def)
  with null_untracked [OF S] have "untracked nullptr p" by (simp add: untracked_def)
  moreover have "instrumentedFree w nullptr (release nullptr) p = Inr (None, p)" by (simp add: instrumentedFree_def)
  ultimately show "act env k clock p (Freed nullptr) p"
    using act_free [where clock = clock, OF w frees_release] by blast
qed

lemma reallocated_run:
  assumes "page_env env k" and "system_ok env k p" and "calls_in env clock w" and "reallocates j q f"
    and "realloc_fine w k q n f p"
  shows "\<exists>r p'. instrumentedReallocate w q n f p = Inr (r, p') \<and> run env k clock p [Reallocated q r] p'"
proof -
  have e: "environment w = env" "memalign_ok w" using assms(3) by (simp_all add: calls_in_def)
  with instrumentedReallocate_safe [of w k p j q f n] assms obtain r p' where
    r: "instrumentedReallocate w q n f p = Inr (r, p')" by auto
  from act_realloc [where clock = clock, OF e assms(4,5) r] r show ?thesis by (blast intro: run_one)
qed

text \<open>The two resizing wrappers share their shape.\<close>

definition resize :: "Surroundings \<Rightarrow> CallSite \<Rightarrow> ptr \<Rightarrow> uint64 \<Rightarrow> allocator \<Rightarrow> Process \<Rightarrow> (ptr \<times> Process) outcome" where
  "resize w c q n f p = (if q = nullptr then wrapped_allocation w c n NoAlignment f Unnecessary p
      else if n = 0 then free_for_result w q f p else instrumentedReallocate w q n f p)"

lemma resize_wrappers:
  "realloc g w c q n p = resize w c q n (real_realloc g q n) p"
  "reallocarray g w c q a b p = resize w c q (a * b) (real_reallocarray g q a b) p"
  by (simp_all add: resize_def realloc_def reallocarray_def Let_def)

lemma resized_run:
  assumes "page_env env k" and "system_ok env k p" and "room (table p)" and "calls_in env clock w"
    and "resize_ok w k q n f p" and "q = nullptr \<Longrightarrow> allocates (unat n) f"
    and "q \<noteq> nullptr \<Longrightarrow> n = 0 \<Longrightarrow> frees q f" and "q \<noteq> nullptr \<Longrightarrow> n \<noteq> 0 \<Longrightarrow> reallocates (unat n) q f"
  shows "\<exists>r p'. resize w c q n f p = Inr (r, p') \<and> run env k clock p (resize_actions q (n = 0) r) p'"
proof (cases "q = nullptr")
  case True
  with wrapped_run [OF assms(1-4), of n f c NoAlignment Unnecessary] assms(5,6) show ?thesis
    by (simp add: resize_ok_def resize_def)
next
  case q: False
  show ?thesis
  proof (cases "n = 0")
    case True
    have "environment w = env" using assms(4) by (simp add: calls_in_def)
    from freed_run [OF assms(2) this q assms(7) [OF q True]] assms(5) q True
    show ?thesis by (fastforce simp: resize_ok_def resize_def free_for_result_def)
  next
    case False
    with reallocated_run [OF assms(1,2,4) assms(8) [OF q False]] assms(5) q show ?thesis
      by (simp add: resize_ok_def resize_def)
  qed
qed

lemma posix_run:
  assumes "page_env env k" and "system_ok env k p" and "room (table p)" and "calls_in env clock w"
    and "fits k (unat n)" and "allocates (unat n) (\<lambda>h. let (e, q, h') = real_posix_memalign g al n h in (q, h'))"
  shows "\<exists>r p'. exec_call g w c (PosixMemalign al n) p = Inr (r, p') \<and> run env k clock p [Written, Allocated r] p'"
proof -
  let ?p = "p\<lparr>proc_heap := (proc_heap p)\<lparr>errorCode := 0\<rparr>\<rparr>"
  let ?f = "\<lambda>h. let (e, q, h') = real_posix_memalign g al n h in (q, h'\<lparr>errorCode := e\<rparr>)"
  have f: "allocates (unat n) ?f"
    using assms(6) by (simp add: allocates_def case_prod_unfold Let_def)
  have p: "act env k clock p Written ?p" by (rule act_write) simp
  have S: "system_ok env k ?p" using assms(2) by (simp add: sys_ok_def memory_ok_def)
  from wrapped_run [OF assms(1) S _ assms(4,5) f, of c "to_uint32 al" Unnecessary] assms(3)
  obtain r p' where r: "wrapped_allocation w c n (to_uint32 al) ?f Unnecessary ?p = Inr (r, p')"
    "run env k clock ?p [Allocated r] p'" by auto
  from run_cons [OF p r(2)] r(1) show ?thesis
    by (cases "r = nullptr") (simp_all add: posix_memalign_def Let_def)
qed

lemma call_run:
  assumes "page_env env k" and "system_ok env k p" and "room (table p)" and "calls_in env clock w"
    and "glibc_ok g" and "call_ok w k g call p"
  shows "\<exists>r p'. exec_call g w c call p = Inr (r, p') \<and> run env k clock p (call_actions call r) p'"
proof -
  note W = wrapped_run [OF assms(1-4)] and R = resized_run [OF assms(1-4)]
  note G = assms(5) [unfolded glibc_ok_def]
  have w: "environment w = env" "\<And>al n. allocates (unat n) (real_memalign_call w al n)"
    using assms(4) by (simp_all add: calls_in_def memalign_ok_def)
  show ?thesis
  proof (cases call)
    case (Malloc n)
    with W [of n "real_malloc g n"] G assms(6) show ?thesis by (simp add: malloc_def)
  next
    case (Calloc a b)
    then have "fits k (unat a * unat b)" using assms(6) by simp
    then have "fits k (unat (a * b))" "allocates (unat (a * b)) (real_calloc g a b)"
      using G by (simp_all add: fits_product) (simp add: fits_def)
    from W [OF this, of c NoAlignment Needed] show ?thesis
      by (auto simp: Calloc calloc_def after_dlsym_def)
  next
    case (Realloc q n)
    with assms(6) have "resize_ok w k q n (real_realloc g q n) p" by simp
    from R [OF this, of c] G show ?thesis by (auto simp: Realloc resize_wrappers)
  next
    case (Reallocarray q a b)
    then have "unat a * unat b < 2 ^ 64" "resize_ok w k q (a * b) (real_reallocarray g q a b) p"
      using assms(6) by simp_all
    moreover from this(1) have "q = nullptr \<longrightarrow> allocates (unat (a * b)) (real_reallocarray g q a b)"
      using G by (simp add: product_word)
    moreover from calculation(1) have "q \<noteq> nullptr \<longrightarrow> (if a * b = 0 then frees q (real_reallocarray g q a b)
            else reallocates (unat (a * b)) q (real_reallocarray g q a b))"
      using G by blast
    ultimately show ?thesis
      using R [of q "a * b" "real_reallocarray g q a b" c] by (auto simp: Reallocarray resize_wrappers)
  next
    case (PosixMemalign al n)
    with posix_run [OF assms(1-4), of n g al c] G assms(6) show ?thesis by simp
  next
    case (AlignedAlloc al n)
    with W [of n "real_aligned_alloc g al n"] G assms(6) show ?thesis by (simp add: aligned_alloc_def)
  next
    case (Valloc n)
    with W [of n "real_valloc g n"] G assms(6) show ?thesis by (simp add: valloc_def)
  next
    case (Memalign al n)
    with W [of n "real_memalign_call w al n"] w(2) assms(6) show ?thesis by (simp add: memalign_def)
  next
    case (Pvalloc n)
    with W [of n "real_pvalloc g n"] G assms(6) show ?thesis by (simp add: pvalloc_def)
  next
    case (Free q)
    show ?thesis
    proof (cases "q = nullptr")
      case True
      with null_free_run [OF w(1) assms(2)] show ?thesis
        by (simp add: Free free_def instrumentedFree_def)
    next
      case False
      with freed_run [OF assms(2) w(1) False, of "real_free g q"] G assms(6) show ?thesis
        by (fastforce simp: Free free_def)
    qed
  qed
qed

text \<open>
  C14. The wrappers refine the steps of a history: from any state a process can reach, every call of one
  of the ten wrappers that the library gets right (sizes that round within 32 bits, products that do not overflow,
  sound reallocations, no tracked block in a call that bypasses the tables) returns, over a C library that keeps its contract,
  and is a run of the steps its label says (one, or two for posix_memalign, which first
  writes its local error code), after which the process is again in a state it can reach.
\<close>

theorem wrapper_calls_refine_steps:
  assumes "history env k clock n p" and "page_env env k" and "n + 2 < 2 ^ 32"
    and "calls_in env clock w" and "glibc_ok g" and "call_ok w k g call p"
  shows "\<exists>r p' steps. exec_call g w c call p = Inr (r, p') \<and> run env k clock p (call_actions call r) p'
    \<and> steps = length (call_actions call r) \<and> steps \<le> 2 \<and> history env k clock (n + steps) p' \<and> system_ok env k p'"
proof -
  from history_ok [OF assms(1,2)] assms(3) have S: "system_ok env k p" "ever_bound n (table p)" by simp_all
  have "Suc n < 2 ^ 32" using assms(3) by linarith
  with S(2) have "room (table p)" by (rule room_ever_bound)
  from call_run [OF assms(2) S(1) this assms(4-6)] obtain r p' where
    r: "exec_call g w c call p = Inr (r, p')" "run env k clock p (call_actions call r) p'" by blast
  have le: "length (call_actions call r) \<le> 2" by (cases call) simp_all
  have "history env k clock (n + length (call_actions call r)) p'"
    using run_history_from [OF r(2) assms(1)] .
  moreover from history_ok [OF this assms(2)] le assms(3) have "system_ok env k p'" by simp
  ultimately show ?thesis using r le by blast
qed

definition standard_glibc :: Glibc where
  "standard_glibc = sample_glibc\<lparr>real_reallocarray := (\<lambda>q a b. if q = nullptr then alloc_at 131072 (unat a * unat b)
     else if a * b = 0 then (\<lambda>h. (nullptr, snd (release q h))) else realloc_at q 131072 (unat (a * b)))\<rparr>"

lemma standard_glibc_ok: "glibc_ok standard_glibc"
  unfolding glibc_ok_def
proof (intro conjI allI impI)
  have f: "frees q (\<lambda>h. (x, snd (release q h)))" for q :: ptr and x :: ptr
    by (simp add: frees_def release_def)
  fix n al a b q
  show "allocates (unat n) (real_malloc standard_glibc n)" "allocates (unat n) (real_valloc standard_glibc n)"
    "allocates (unat n) (real_pvalloc standard_glibc n)" "allocates (unat n) (real_realloc standard_glibc nullptr n)"
    "allocates (unat n) (real_aligned_alloc standard_glibc al n)"
    "allocates (unat a * unat b) (real_calloc standard_glibc a b)"
    "allocates (unat a * unat b) (real_reallocarray standard_glibc nullptr a b)"
    by (simp_all add: standard_glibc_def sample_glibc_def allocates_alloc_at)
  show "allocates (unat n) (\<lambda>h. let (e, q, h') = real_posix_memalign standard_glibc al n h in (q, h'))"
    using allocates_alloc_at [of "unat n" 131072]
    by (simp add: standard_glibc_def sample_glibc_def Let_def case_prod_unfold)
  assume q: "q \<noteq> nullptr"
  show "frees q (real_free standard_glibc q)" "frees q (real_realloc standard_glibc q 0)"
    using q f [of q nullptr] frees_release [of q] by (simp_all add: standard_glibc_def sample_glibc_def)
  show "n \<noteq> 0 \<Longrightarrow> reallocates (unat n) q (real_realloc standard_glibc q n)"
    using q reallocates_realloc_at [of "unat n" q 131072] by (simp add: standard_glibc_def sample_glibc_def)
  show "if a * b = 0 then frees q (real_reallocarray standard_glibc q a b)
      else reallocates (unat (a * b)) q (real_reallocarray standard_glibc q a b)"
    using q f [of q nullptr] reallocates_realloc_at [of "unat (a * b)" q 131072]
    by (simp add: standard_glibc_def)
qed

text \<open>The contract of the allocating wrappers, over this library.\<close>

theorem wrappers_allocate_witness:
  "\<exists>q p'. pvalloc standard_glibc sample_surroundings site100 100 empty_process = Inr (q, p')
    \<and> system_ok sample_env 12 p' \<and> allocated 100 (proc_heap empty_process) q (proc_heap p')"
proof -
  have g: "allocates 100 (real_malloc standard_glibc 100)" "allocates 100 (real_calloc standard_glibc 10 10)"
    "allocates 100 (real_realloc standard_glibc nullptr 100)" "allocates 100 (real_reallocarray standard_glibc nullptr 10 10)"
    "allocates 100 (real_valloc standard_glibc 100)" "allocates 100 (real_pvalloc standard_glibc 100)"
    "allocates 100 (real_aligned_alloc standard_glibc 64 100)"
    by (simp_all add: standard_glibc_def sample_glibc_def allocates_alloc_at)
  have "allocates 100 (\<lambda>h. let (e, q, h') = real_posix_memalign standard_glibc 64 100 h in (q, h'))"
    using allocates_alloc_at [of 100 131072]
    by (simp add: standard_glibc_def sample_glibc_def Let_def case_prod_unfold)
  then show ?thesis
    using wrappers_allocate [of sample_surroundings 12 empty_process 100 10 10 standard_glibc 64 after_dlsym site100]
      page_sample_env sample_sys_ok(1) g
    by (simp add: sample_memalign sample_room after_dlsym_def)
qed

theorem wrapper_calls_refine_steps_witness:
  "\<exists>p'. exec_call standard_glibc sample_surroundings site0 (Free 1048576) run4 = Inr (nullptr, p')
    \<and> run sample_env 12 (no_wrap sample_env) run4 [Freed 1048576] p' \<and> system_ok sample_env 12 p'"
proof -
  have "calls_in sample_env (no_wrap sample_env) sample_surroundings"
    using sample_memalign by (simp add: calls_in_def no_wrap_def sample_env_def)
  moreover have "\<not> bypass sample_surroundings run4"
    by (simp add: bypass_def inLibrary_def run4_def run3_def run2_def run1_def empty_process_def)
  ultimately have "\<exists>r p'. exec_call standard_glibc sample_surroundings site0 (Free 1048576) run4 = Inr (r, p')
      \<and> run sample_env 12 (no_wrap sample_env) run4 [Freed 1048576] p' \<and> system_ok sample_env 12 p'"
    using wrapper_calls_refine_steps [OF run_history page_sample_env _ _ standard_glibc_ok, of sample_surroundings
        "Free 1048576" site0] by auto
  then show ?thesis by (auto simp: andThen_Inr_iff)
qed

end
