(* ===== verification/Leak_Report.thy ===== *)
theory Leak_Report
  imports Leak_Detection
begin

text \<open>
  The leak report of \<^verbatim>\<open>alloc-counter/allocation-table.h\<close>: the nested iteration over the
  suspicious fingerprints and their stack traces, the ratios, and the final sort. The counters
  have 32 bits and the ratios are floats. The order of iteration is that of the model's hash
  maps; the properties speak of multisets or counts, which do not depend on it.
\<close>

section \<open>Sorting\<close>

text \<open>
  The C++ library's sort requires the comparison to be a strict weak ordering on the elements;
  otherwise the behaviour is undefined. Fewer than two elements are not compared. The result
  is some permutation in ascending order; the model takes the one of insertion sort.
\<close>

definition strict_weak_on :: "('a \<Rightarrow> 'a \<Rightarrow> bool) \<Rightarrow> 'a list \<Rightarrow> bool" where
  "strict_weak_on lt xs \<longleftrightarrow> (\<forall>x \<in> set xs. \<not> lt x x)
     \<and> (\<forall>x \<in> set xs. \<forall>y \<in> set xs. \<forall>z \<in> set xs. lt x y \<longrightarrow> lt y z \<longrightarrow> lt x z)
     \<and> (\<forall>x \<in> set xs. \<forall>y \<in> set xs. \<forall>z \<in> set xs.
          \<not> lt x y \<longrightarrow> \<not> lt y x \<longrightarrow> \<not> lt y z \<longrightarrow> \<not> lt z y \<longrightarrow> \<not> lt x z \<and> \<not> lt z x)"

fun insert_by :: "('a \<Rightarrow> 'a \<Rightarrow> bool) \<Rightarrow> 'a \<Rightarrow> 'a list \<Rightarrow> 'a list" where
  "insert_by lt x [] = [x]"
| "insert_by lt x (y # ys) = (if lt y x then y # insert_by lt x ys else x # y # ys)"

definition std_sort :: "('a \<Rightarrow> 'a \<Rightarrow> bool) \<Rightarrow> 'a list \<Rightarrow> 'a list outcome" where
  "std_sort lt xs =
     (if length xs < 2 then Inr xs
      else if strict_weak_on lt xs then Inr (foldr (insert_by lt) xs [])
      else Inl UndefinedCall)"

section \<open>The report\<close>

record Leak =
  lr_stackTrace :: StackTrace
  lr_leakRatio :: cpp_float
  lr_lostAllocationsEstimated :: cpp_float
  lr_lostBytesEstimated :: cpp_float

record LeakReport =
  ratioAllocationHasSuspiciousFingerprint :: cpp_float
  averageStackTracesPerFingerprint :: cpp_float
  ratioLeakyStacks :: cpp_float
  ratioNonLeakyStacks :: cpp_float
  ratioMaybeLeakyStats :: cpp_float
  report_leaks :: "Leak list"

record ReportCounts =
  countFingerprints :: uint32
  countStacks :: uint32
  countLeakyStacks :: uint32
  countNonLeakyStacks :: uint32
  countMaybeLeakyStacks :: uint32
  found :: "Leak list"

definition make_leak :: "WatchedStackTraceInfo \<Rightarrow> Leak" where
  "make_leak info = \<lparr>lr_stackTrace = stackTrace info, lr_leakRatio = leakRatio info,
     lr_lostAllocationsEstimated = lostAllocationsEstimated info,
     lr_lostBytesEstimated = lostBytesEstimated info\<rparr>"

definition visit_trace ::
  "Environment \<Rightarrow> ReportCounts \<Rightarrow> StackTrace \<times> WatchedStackTraceInfo \<Rightarrow> ReportCounts" where
  "visit_trace env c p =
     (let c1 = c\<lparr>countStacks := countStacks c + 1\<rparr>; trace = snd p
      in case hasLeaks env trace of
           TTrue \<Rightarrow> c1\<lparr>countLeakyStacks := countLeakyStacks c1 + 1, found := found c1 @ [make_leak trace]\<rparr>
         | TFalse \<Rightarrow> c1\<lparr>countNonLeakyStacks := countNonLeakyStacks c1 + 1\<rparr>
         | TUnknown \<Rightarrow> c1\<lparr>countMaybeLeakyStacks := countMaybeLeakyStacks c1 + 1\<rparr>)"

definition visit_fingerprint ::
  "Environment \<Rightarrow> ReportCounts \<Rightarrow> CallstackFingerprint \<times> SuspiciousStackTracesTable \<Rightarrow> ReportCounts" where
  "visit_fingerprint env c p =
     foldl (visit_trace env) (c\<lparr>countFingerprints := countFingerprints c + 1\<rparr>) (snd p)"

definition collect_report :: "Environment \<Rightarrow> AllocationTable \<Rightarrow> ReportCounts" where
  "collect_report env T = foldl (visit_fingerprint env)
     \<lparr>countFingerprints = 0, countStacks = 0, countLeakyStacks = 0, countNonLeakyStacks = 0,
      countMaybeLeakyStacks = 0, found = []\<rparr> (m_suspiciousFingerprints T)"

abbreviation ratio :: "nat \<Rightarrow> nat \<Rightarrow> cpp_float" where
  "ratio a b \<equiv> fdiv (float_of_nat a) (float_of_nat b)"

definition patrolThreadMakeLeakReport :: "Environment \<Rightarrow> AllocationTable \<Rightarrow> LeakReport outcome" where
  "patrolThreadMakeLeakReport env T =
     (let c = collect_report env T; s = m_stats T
      in andThen (std_sort (\<lambda>a b. fge (lr_lostBytesEstimated a) (lr_lostBytesEstimated b)) (found c)) (\<lambda>leaks.
         Inr \<lparr>ratioAllocationHasSuspiciousFingerprint =
                ratio (unat (allocationWithSuspiciousFingerprintCount s)) (unat (allocationCount s)),
              averageStackTracesPerFingerprint = ratio (unat (countStacks c)) (unat (countFingerprints c)),
              ratioLeakyStacks = ratio (unat (countLeakyStacks c)) (unat (countStacks c)),
              ratioNonLeakyStacks = ratio (unat (countNonLeakyStacks c)) (unat (countStacks c)),
              ratioMaybeLeakyStats = ratio (unat (countMaybeLeakyStacks c)) (unat (countStacks c)),
              report_leaks = leaks\<rparr>))"

section \<open>What is counted\<close>

definition all_infos :: "AllocationTable \<Rightarrow> WatchedStackTraceInfo list" where
  "all_infos T = concat (map (\<lambda>(fp, traces). map snd traces) (m_suspiciousFingerprints T))"

definition verdict_count :: "Environment \<Rightarrow> Trilean \<Rightarrow> WatchedStackTraceInfo list \<Rightarrow> nat" where
  "verdict_count env v infos = length (filter (\<lambda>i. hasLeaks env i = v) infos)"

lemma verdict_count_simps [simp]:
  "verdict_count env v [] = 0"
  "verdict_count env v (i # is) = (if hasLeaks env i = v then 1 else 0) + verdict_count env v is"
  "verdict_count env v (is @ js) = verdict_count env v is + verdict_count env v js"
  by (simp_all add: verdict_count_def)

lemma verdict_count_sum:
  "verdict_count env TTrue is + verdict_count env TFalse is + verdict_count env TUnknown is = length is"
  by (induction "is") (auto split: Trilean.split, (metis Trilean.exhaust)+)

definition counts_for :: "Environment \<Rightarrow> ReportCounts \<Rightarrow> nat \<Rightarrow> WatchedStackTraceInfo list \<Rightarrow> ReportCounts" where
  "counts_for env c nf infos = c\<lparr>countFingerprints := countFingerprints c + of_nat nf,
     countStacks := countStacks c + of_nat (length infos),
     countLeakyStacks := countLeakyStacks c + of_nat (verdict_count env TTrue infos),
     countNonLeakyStacks := countNonLeakyStacks c + of_nat (verdict_count env TFalse infos),
     countMaybeLeakyStacks := countMaybeLeakyStacks c + of_nat (verdict_count env TUnknown infos),
     found := found c @ map make_leak (filter (\<lambda>i. hasLeaks env i = TTrue) infos)\<rparr>"

lemma visit_traces:
  "foldl (visit_trace env) c ps = counts_for env c 0 (map snd ps)"
proof (induction ps arbitrary: c)
  case (Cons p ps)
  have "visit_trace env c p = counts_for env c 0 [snd p]"
    by (cases "hasLeaks env (snd p)") (simp_all add: visit_trace_def Let_def counts_for_def)
  with Cons show ?case by (simp add: counts_for_def add.assoc)
qed (simp add: counts_for_def)

lemma visit_fingerprints:
  "foldl (visit_fingerprint env) c fs
     = counts_for env c (length fs) (concat (map (\<lambda>(fp, traces). map snd traces) fs))"
proof (induction fs arbitrary: c)
  case (Cons f fs)
  then show ?case
    by (simp add: visit_fingerprint_def visit_traces counts_for_def add.assoc case_prod_unfold)
qed (simp add: counts_for_def)

text \<open>
  The two nested maps read as one map from references to statistics objects.
\<close>

definition all_refs :: "SuspiciousFingerprintTable \<Rightarrow> (InfoRef, WatchedStackTraceInfo) unordered_map" where
  "all_refs sus = concat (map (\<lambda>(fp, traces). map (\<lambda>(st, i). ((fp, st), i)) traces) sus)"

lemma map_snd_all_refs: "map snd (all_refs (suspicious T)) = all_infos T"
  by (simp add: all_refs_def all_infos_def map_concat case_prod_unfold o_def)

lemma um_find_pairs:
  "um_find (map (\<lambda>(st, i). ((fp, st), i)) traces) r = (if fst r = fp then um_find traces (snd r) else None)"
  unfolding um_find_def by (induction traces) (auto simp: prod_eq_iff)

lemma um_find_all_refs:
  assumes "um_ok sus"
  shows "um_find (all_refs sus) r = (case um_find sus (fst r) of None \<Rightarrow> None | Some t \<Rightarrow> um_find t (snd r))"
  using assms
proof (induction sus)
  case (Cons f sus)
  obtain fp traces where f: "f = (fp, traces)" by (cases f)
  have "um_find sus fp = None"
    using Cons.prems by (auto simp: f um_ok_def um_find_def map_of_eq_None_iff)
  moreover have "um_find (all_refs (f # sus)) r = (case um_find (all_refs sus) r of
      None \<Rightarrow> (if fst r = fp then um_find traces (snd r) else None) | Some i \<Rightarrow>
      (if fst r = fp \<and> um_find traces (snd r) \<noteq> None then um_find traces (snd r) else Some i))"
    using um_find_pairs [of fp traces r]
    by (auto simp: all_refs_def f um_find_def map_add_def split: option.splits if_splits)
  ultimately show ?case
    using Cons by (auto simp: f um_ok_def um_find_def split: option.splits)
qed (simp add: all_refs_def um_find_def)

lemma um_ok_all_refs:
  assumes "um_ok sus" and "\<And>fp t. um_find sus fp = Some t \<Longrightarrow> um_ok t"
  shows "um_ok (all_refs sus)"
  using assms
proof (induction sus)
  case (Cons f sus)
  obtain fp traces where f: "f = (fp, traces)" by (cases f)
  have new: "fp \<notin> fst ` set sus" and sus: "um_ok sus" using Cons.prems(1) by (auto simp: f um_ok_def)
  have "um_ok t" if "um_find sus fp' = Some t" for fp' t
  proof (rule Cons.prems(2))
    have "fp' \<noteq> fp" using that new by (force simp: um_find_def dest: map_of_SomeD)
    with that show "um_find (f # sus) fp' = Some t" by (simp add: f um_find_def)
  qed
  with Cons.IH sus have "um_ok (all_refs sus)" by blast
  moreover have "distinct (map (Pair fp) (map fst traces))"
    using Cons.prems(2) [of fp traces] by (simp add: f um_find_def um_ok_def distinct_map inj_on_def)
  moreover have "set (map (Pair fp) (map fst traces)) \<inter> fst ` set (all_refs sus) = {}"
    using new by (force simp: all_refs_def)
  moreover have "map fst (all_refs (f # sus)) = map (Pair fp) (map fst traces) @ map fst (all_refs sus)"
    by (simp add: all_refs_def f case_prod_unfold)
  ultimately show ?case by (simp add: um_ok_def)
qed (simp add: all_refs_def um_ok_def)

lemma all_refs_ok:
  assumes "table_ok T"
  shows "um_ok (all_refs (suspicious T))" "um_find (all_refs (suspicious T)) = deref_info T"
  using assms um_find_all_refs [of "suspicious T"] um_ok_all_refs [of "suspicious T"]
  by (auto simp: table_ok_def maps_ok_def deref_info_def fun_eq_iff split: option.splits)

lemma count_infos:
  assumes "table_ok T"
  shows "length (filter P (all_infos T)) = card {r. \<exists>i. deref_info T r = Some i \<and> P i}"
proof -
  have "length (filter P (all_infos T)) = num_entries (\<lambda>_. P) (all_refs (suspicious T))"
    unfolding num_entries_def map_snd_all_refs [symmetric] filter_map
    by (simp add: o_def case_prod_unfold)
  also have "\<dots> = card {r. \<exists>i. deref_info T r = Some i \<and> P i}"
    by (simp add: um.num_card [OF all_refs_ok(1) [OF assms]] all_refs_ok(2) [OF assms])
  finally show ?thesis .
qed

lemma set_infos:
  assumes "table_ok T"
  shows "set (all_infos T) = {i. \<exists>r. deref_info T r = Some i}"
  using um_find_elems [OF all_refs_ok(1) [OF assms]] all_refs_ok(2) [OF assms]
  by (force simp: map_snd_all_refs [symmetric])

lemma collect_eq: "collect_report env T = counts_for env
     \<lparr>countFingerprints = 0, countStacks = 0, countLeakyStacks = 0, countNonLeakyStacks = 0,
      countMaybeLeakyStacks = 0, found = []\<rparr> (length (suspicious T)) (all_infos T)"
  by (simp add: collect_report_def visit_fingerprints all_infos_def)

text \<open>
  C28. The figures of the leak report: the number of stacks is the number of watched stack
  traces, each is counted once under its verdict (leaky, not leaky, undecided), and the listed leaks
  are the leaky ones with their estimates, one entry each.
\<close>

theorem report_collects:
  fixes env :: Environment
  assumes "table_ok T" and "card {r. deref_info T r \<noteq> None} < 2 ^ 32"
  defines "c \<equiv> collect_report env T"
  shows "unat (countStacks c) = card {r. deref_info T r \<noteq> None}
    \<and> unat (countLeakyStacks c) = card {r. \<exists>i. deref_info T r = Some i \<and> hasLeaks env i = TTrue}
    \<and> unat (countNonLeakyStacks c) = card {r. \<exists>i. deref_info T r = Some i \<and> hasLeaks env i = TFalse}
    \<and> unat (countMaybeLeakyStacks c) = card {r. \<exists>i. deref_info T r = Some i \<and> hasLeaks env i = TUnknown}
    \<and> unat (countLeakyStacks c) + unat (countNonLeakyStacks c) + unat (countMaybeLeakyStacks c)
        = unat (countStacks c)
    \<and> length (found c) = unat (countLeakyStacks c)
    \<and> set (found c) = make_leak ` {i. \<exists>r. deref_info T r = Some i \<and> hasLeaks env i = TTrue}"
proof -
  have len: "length (all_infos T) = card {r. deref_info T r \<noteq> None}"
    using count_infos [OF assms(1), of "\<lambda>_. True"] by simp
  have le: "verdict_count env v (all_infos T) \<le> length (all_infos T)" for v
    by (simp add: verdict_count_def)
  have small: "length (all_infos T) < 2 ^ 32" using assms(2) len by simp
  have of_nat: "unat (of_nat n :: uint32) = n" if "n \<le> length (all_infos T)" for n
    using that small by (simp add: unsigned_of_nat take_bit_nat_eq_self)
  have verdict: "verdict_count env v (all_infos T) = card {r. \<exists>i. deref_info T r = Some i \<and> hasLeaks env i = v}" for v
    by (simp add: verdict_count_def count_infos [OF assms(1)])
  have "set (found c) = make_leak ` {i. \<exists>r. deref_info T r = Some i \<and> hasLeaks env i = TTrue}"
    using set_infos [OF assms(1)] by (auto simp: c_def collect_eq counts_for_def)
  moreover have "length (found c) = verdict_count env TTrue (all_infos T)"
    by (simp add: c_def collect_eq counts_for_def verdict_count_def)
  ultimately show ?thesis
    using verdict_count_sum [of env "all_infos T"] le
    by (simp add: c_def collect_eq counts_for_def of_nat len [symmetric] verdict [symmetric]
        del: not_None_eq)
qed

theorem report_collects_witness:
  "unat (countStacks (collect_report sample_env (table run5))) = 1
   \<and> unat (countLeakyStacks (collect_report sample_env (table run5))) = 1"
proof -
  have ok: "table_ok (table run5)"
    using patrol_safe [OF history_ok [THEN conjunct1, OF run_history page_sample_env], of 1133] run5
    by (auto simp: sys_ok_def)
  have deref: "deref_info (table run5) = [(7, sample_trace) \<mapsto> count_leaked 5000 watched_info]"
    by (auto simp: fun_eq_iff deref_info_def run5_def run4_def prod_eq_iff)
  have "hasLeaks sample_env (count_leaked 5000 watched_info) = TTrue"
    by (simp add: hasLeaks_def count_leaked_def watched_info_def count_watched_def
        WatchedStackTraceInfo_construct_def)
  then show ?thesis
    using report_collects [OF ok, of sample_env] by (simp add: deref Collect_conv_if)
qed

section \<open>The report as a whole\<close>

lemma lostBytes_not_nan:
  assumes "info_ok info" and "hasLeaks env info = TTrue"
  shows "\<not> is_nan (lostBytesEstimated info)"
proof -
  have "0 < countLeakedCloselyWatchedAllocations info"
    using assms(2) by (simp add: hasLeaks_def split: if_splits)
  then have "0 < unat (countTotalCloselyWatchedAllocationsEverCreated info)"
    using assms(1) by (simp add: info_ok_def word_less_nat_alt)
  then have ever: "0 < fl single_prec (of_nat (unat (countTotalCloselyWatchedAllocationsEverCreated info)))"
    by (intro fl_nat_positive) simp_all
  moreover have "0 \<le> fl single_prec (of_nat (unat (countTotalAllocations info)))"
    by (rule fl_nonneg, rule of_nat_0_le_iff, simp)
  ultimately have "watchRate info = Infinity \<or> (\<exists>r. watchRate info = Fin r \<and> 0 < r)"
    unfolding watchRate_def float_of_nat_def fdiv.simps
    by (cases "fl single_prec (of_nat (unat (countTotalAllocations info))) = 0")
      (simp_all add: fl_positive divide_pos_pos order_le_neq_trans)
  then show ?thesis
    by (auto simp: lostBytesEstimated_def float_of_nat_def is_nan_def)
qed

lemma leaks_not_nan:
  assumes "table_ok T" and "l \<in> set (found (collect_report env T))"
  shows "\<not> is_nan (lr_lostBytesEstimated l)"
proof -
  from assms(2) obtain i where "i \<in> set (all_infos T)" "hasLeaks env i = TTrue" "l = make_leak i"
    by (auto simp: collect_eq counts_for_def)
  with assms(1) set_infos [OF assms(1)] counted_info [OF assms(1)] lostBytes_not_nan show ?thesis
    by (fastforce simp: make_leak_def)
qed

text \<open>
  C29. The sort of the report is undefined as soon as there is something to sort: its comparison
  is not strict (each leak compares before itself), so with two or more leaky stack traces the
  report has undefined behaviour; with at most one it returns, and lists that one.
\<close>

theorem report_sort_undefined:
  fixes env :: Environment
  assumes "table_ok T"
  defines "leaky_refs \<equiv> {r. \<exists>i. deref_info T r = Some i \<and> hasLeaks env i = TTrue}"
  shows "(2 \<le> card leaky_refs \<longrightarrow> patrolThreadMakeLeakReport env T = Inl UndefinedCall)
    \<and> (card leaky_refs < 2 \<longrightarrow> (\<exists>report. patrolThreadMakeLeakReport env T = Inr report
        \<and> set (report_leaks report) = make_leak ` {i. \<exists>r \<in> leaky_refs. deref_info T r = Some i}))"
proof -
  have len: "length (found (collect_report env T)) = card leaky_refs"
    by (simp add: collect_eq counts_for_def leaky_refs_def count_infos [OF assms(1)])
  have set: "set (found (collect_report env T)) = make_leak ` {i. \<exists>r \<in> leaky_refs. deref_info T r = Some i}"
    using set_infos [OF assms(1)] by (auto simp: collect_eq counts_for_def leaky_refs_def)
  have "\<not> strict_weak_on (\<lambda>a b. fge (lr_lostBytesEstimated a) (lr_lostBytesEstimated b))
      (found (collect_report env T))" if "2 \<le> card leaky_refs"
  proof -
    from that len obtain l where l: "l \<in> set (found (collect_report env T))"
      by (cases "found (collect_report env T)") auto
    with leaks_not_nan [OF assms(1) l] show ?thesis by (auto simp: strict_weak_on_def fge_refl)
  qed
  with len set show ?thesis
    by (auto simp: patrolThreadMakeLeakReport_def Let_def std_sort_def)
qed

text \<open>Two stack traces of which one watched allocation each was found to leak.\<close>

definition other_trace :: StackTrace where
  "other_trace = \<lparr>m_returnAddresses = [4198404], m_hash = 4198404\<rparr>"

definition two_leaks :: AllocationTable where
  "two_leaks = emptyTable\<lparr>m_suspiciousFingerprints :=
     [(7, [(sample_trace, count_leaked 5000 watched_info),
           (other_trace, count_leaked 100 (count_watched (WatchedStackTraceInfo_construct other_trace)))])]\<rparr>"

lemma two_leaks_deref: "deref_info two_leaks = [(7, sample_trace) \<mapsto> count_leaked 5000 watched_info,
    (7, other_trace) \<mapsto> count_leaked 100 (count_watched (WatchedStackTraceInfo_construct other_trace))]"
  by (auto simp: fun_eq_iff deref_info_def two_leaks_def prod_eq_iff um_find_def other_trace_def sample_trace_def)

theorem report_sort_undefined_witness:
  "patrolThreadMakeLeakReport sample_env two_leaks = Inl UndefinedCall"
proof -
  have info: "info_ok (count_leaked n (count_watched (WatchedStackTraceInfo_construct st)))"
    "hasLeaks sample_env (count_leaked n (count_watched (WatchedStackTraceInfo_construct st))) = TTrue"
    "live_count (count_leaked n (count_watched (WatchedStackTraceInfo_construct st))) = 0" for n st
    by (simp_all add: info_ok_def hasLeaks_def count_leaked_def count_watched_def
        WatchedStackTraceInfo_construct_def)
  have "table_ok two_leaks"
  proof (rule table_okI)
    show "maps_ok two_leaks"
      by (simp add: maps_ok_def two_leaks_def um_ok_def um_simps other_trace_def sample_trace_def)
  qed (auto simp: two_leaks_deref watched_info_def info split: if_splits,
      auto simp: two_leaks_def keys_ok_def num_entries_def um_simps info)
  moreover have "{r. \<exists>i. deref_info two_leaks r = Some i \<and> hasLeaks sample_env i = TTrue}
      = {(7, sample_trace), (7, other_trace)}"
    by (auto simp: two_leaks_deref watched_info_def info split: if_splits)
  moreover have "sample_trace \<noteq> other_trace" by (simp add: sample_trace_def other_trace_def)
  ultimately show ?thesis
    using report_sort_undefined [of two_leaks sample_env] by simp
qed

end
