(* ===== verification/Patrol_Thread.thy ===== *)
theory Patrol_Thread
  imports Leak_Report
begin

text \<open>
  \<^verbatim>\<open>alloc-counter/patrol-thread.cpp\<close>: the thread that runs the table's update every five seconds
  and writes the progress log and the leak reports. One round of its endless loop is a function
  of the two clocks; the lines it writes are values (Patrol_Log spells out their text). Dividing a double by 1024 is exact.
\<close>

section \<open>Sizes for people\<close>

definition units :: "string list" where
  "units = [''bytes'', ''kiB'', ''MiB'', ''GiB'']"

fun below_1024 :: "cpp_float \<Rightarrow> bool" where
  "below_1024 (Fin q) = (q < 1024)"
| "below_1024 _ = False"

fun div_1024 :: "cpp_float \<Rightarrow> cpp_float" where
  "div_1024 (Fin q) = Fin (q / 1024)"
| "div_1024 x = x"

fun human_loop :: "string list \<Rightarrow> cpp_float \<Rightarrow> string \<Rightarrow> cpp_float \<times> string" where
  "human_loop [] q unit = (q, unit)"
| "human_loop (u # us) q unit =
     (if below_1024 q then (q, u) else human_loop us (div_1024 q) u)"

definition humanSize :: "cpp_float \<Rightarrow> cpp_float \<times> string" where
  "humanSize q = human_loop units q ''''"

definition factor_of :: "string \<Rightarrow> rat" where
  "factor_of u = (if u = ''bytes'' then 1 else if u = ''kiB'' then 1024
     else if u = ''MiB'' then 1024 ^ 2 else 1024 ^ 3)"

text \<open>
  Sizes below 1 TiB are printed right: the printed number is below 1024, at least 1 unless
  it counts bytes, and times its unit it is the size. From 1 TiB on the loop divides once more than
  it has units: the number printed with GiB is too small by a factor of 1024.
\<close>

theorem humanSize_units:
  assumes "0 \<le> q"
  shows "\<exists>v u. humanSize (Fin q) = (Fin v, u) \<and> u \<in> set units
    \<and> v * factor_of u = (if q < 1024 ^ 4 then q else q / 1024)
    \<and> (q < 1024 ^ 4 \<longrightarrow> v < 1024 \<and> (u \<noteq> ''bytes'' \<longrightarrow> 1 \<le> v))"
  using assms
proof -
  let ?P = "\<lambda>v u. humanSize (Fin q) = (Fin v, u) \<and> u \<in> set units
    \<and> v * factor_of u = (if q < 1024 ^ 4 then q else q / 1024)
    \<and> (q < 1024 ^ 4 \<longrightarrow> v < 1024 \<and> (u \<noteq> ''bytes'' \<longrightarrow> 1 \<le> v))"
  consider "q < 1024" | "1024 \<le> q" "q < 1024 ^ 2" | "1024 ^ 2 \<le> q" "q < 1024 ^ 3"
    | "1024 ^ 3 \<le> q" "q < 1024 ^ 4" | "1024 ^ 4 \<le> q" by linarith
  then have "?P q ''bytes'' \<or> ?P (q / 1024) ''kiB'' \<or> ?P (q / 1024 / 1024) ''MiB''
      \<or> ?P (q / 1024 / 1024 / 1024) ''GiB'' \<or> ?P (q / 1024 / 1024 / 1024 / 1024) ''GiB''"
    by cases (simp_all add: humanSize_def units_def factor_of_def)
  then show ?thesis by blast
qed

theorem humanSize_units_witness:
  "humanSize (Fin (3 * 1024 ^ 2)) = (Fin 3, ''MiB'') \<and> humanSize (Fin (2 * 1024 ^ 4)) = (Fin 2, ''GiB'')
   \<and> (\<exists>v u. humanSize (Fin (2 * 1024 ^ 4)) = (Fin v, u) \<and> v * factor_of u = 2 * 1024 ^ 3)"
  using humanSize_units [of "2 * 1024 ^ 4"] by (auto simp: humanSize_def units_def)

section \<open>One round of the monitor\<close>

datatype ProgressLine =
    PatrolHello
  | AllocsPerSecond rat
  | FreesPerSecond rat
  | ReallocsPerSecond rat
  | FoundNewLeak StackTrace ptr uint32
  | LostAgain StackTrace ptr uint32 uint32

datatype ReportLine =
    BeginReport rat
  | RatioSuspicious cpp_float
  | AverageTraces cpp_float
  | LeakyRatio cpp_float cpp_float cpp_float
  | LeakLine StackTrace "cpp_float \<times> string" cpp_float cpp_float
  | EndReport

record Monitor =
  stackTraceToOccurrences :: "(StackTrace, uint32) unordered_map"
  timeNextLeakReport :: rat
  progressStream :: "ProgressLine list"
  leakStream :: "ReportLine list"

definition initialMonitor :: Monitor where
  "initialMonitor = \<lparr>stackTraceToOccurrences = [], timeNextLeakReport = 0,
     progressStream = [PatrolHello], leakStream = []\<rparr>"

text \<open>The automatic start: the thread itself raises the watch state after the configured time.\<close>

definition setWatchState :: "WatchState \<Rightarrow> CommMemory \<Rightarrow> CommMemory outcome" where
  "setWatchState v c =
     (case commPointer c of
        DummyArray \<Rightarrow> Inr (c\<lparr>dummyCommMemory := v\<rparr>)
      | MappedFile \<Rightarrow> Inr (c\<lparr>commFile := Some v\<rparr>)
      | BadPointer \<Rightarrow> Inl NullAccess)"

definition autoStart :: "Environment \<Rightarrow> CommMemory \<Rightarrow> CommMemory outcome" where
  "autoStart env c = (if autoStartTime env \<noteq> 0 then setWatchState Watching c else Inr c)"

definition per_second :: "uint64 \<Rightarrow> rat \<Rightarrow> rat" where
  "per_second n t = fl double_prec (fl double_prec (of_nat (unat n)) / t)"

definition print_rates :: "AllocationStats \<Rightarrow> rat \<Rightarrow> ProgressLine list" where
  "print_rates stats reportTime =
     (let t = fl double_prec (reportTime - timeWatchEnabled stats)
      in if stats_enabled stats \<and> 1 \<le> t
         then [AllocsPerSecond (per_second (allocationCount stats) t),
               FreesPerSecond (per_second (freeCount stats) t),
               ReallocsPerSecond (per_second (reallocCount stats) t)]
         else [])"

definition report_found_leak :: "Monitor \<Rightarrow> FoundLeak \<Rightarrow> Monitor" where
  "report_found_leak m leak =
     (let st = leak_stackTrace leak;
          occ = um_modify st (\<lambda>n. n + 1) (um_emplace st 0 (stackTraceToOccurrences m));
          count = the (um_find occ st)
      in m\<lparr>stackTraceToOccurrences := occ,
           progressStream := progressStream m @
             [if count = 1 then FoundNewLeak st (leak_memory leak) (leak_size leak)
              else LostAgain st (leak_memory leak) (leak_size leak) count]\<rparr>)"

definition print_ratio :: "(cpp_float \<Rightarrow> ReportLine) \<Rightarrow> cpp_float \<Rightarrow> ReportLine list" where
  "print_ratio line x = (if is_nan x then [] else [line x])"

definition print_report :: "rat \<Rightarrow> LeakReport \<Rightarrow> ReportLine list" where
  "print_report t r = BeginReport t
     # print_ratio RatioSuspicious (ratioAllocationHasSuspiciousFingerprint r)
     @ print_ratio AverageTraces (averageStackTracesPerFingerprint r)
     @ print_ratio (\<lambda>x. LeakyRatio (ratioNonLeakyStacks r) (ratioMaybeLeakyStats r) x) (ratioLeakyStacks r)
     @ map (\<lambda>l. LeakLine (lr_stackTrace l) (humanSize (lr_lostBytesEstimated l))
         (lr_lostAllocationsEstimated l) (lr_leakRatio l)) (report_leaks r)
     @ [EndReport]"

definition schedule :: "Environment \<Rightarrow> rat \<Rightarrow> rat" where
  "schedule env reportTime = fl double_prec (reportTime + of_nat (unat (leakReportInterval env)))"

definition monitor_round ::
  "Environment \<Rightarrow> uint64 \<Rightarrow> rat \<Rightarrow> AllocationTable \<Rightarrow> Monitor \<Rightarrow> (AllocationTable \<times> Monitor) outcome" where
  "monitor_round env time reportTime T m =
     andThen (patrolThreadUpdateAllocationStates env time T) (\<lambda>((stats, leaks), T').
       let m1 = m\<lparr>progressStream := progressStream m @ print_rates stats reportTime\<rparr>;
           m2 = foldl report_found_leak m1 leaks;
           m3 = (if timeNextLeakReport m2 = 0
                 then m2\<lparr>timeNextLeakReport := schedule env reportTime\<rparr> else m2)
       in if timeNextLeakReport m3 < reportTime
          then andThen (patrolThreadMakeLeakReport env T') (\<lambda>leakReport.
            Inr (T', m3\<lparr>leakStream := leakStream m3 @
                          print_report (fl double_prec (reportTime - timeWatchEnabled stats)) leakReport,
                        timeNextLeakReport := schedule env reportTime\<rparr>))
          else Inr (T', m3))"

section \<open>The progress log\<close>

lemma report_found_leak_frame [simp]:
  "timeNextLeakReport (foldl report_found_leak m leaks) = timeNextLeakReport m"
  "leakStream (foldl report_found_leak m leaks) = leakStream m"
  by (induction leaks arbitrary: m) (simp_all add: report_found_leak_def Let_def)

definition occurrences :: "Monitor \<Rightarrow> StackTrace \<Rightarrow> uint32" where
  "occurrences m st = (case um_find (stackTraceToOccurrences m) st of None \<Rightarrow> 0 | Some n \<Rightarrow> n)"

definition line_for :: "uint32 \<Rightarrow> FoundLeak \<Rightarrow> ProgressLine" where
  "line_for n leak = (if n = 1 then FoundNewLeak (leak_stackTrace leak) (leak_memory leak) (leak_size leak)
     else LostAgain (leak_stackTrace leak) (leak_memory leak) (leak_size leak) n)"

lemma report_found_leak_step:
  "occurrences (report_found_leak m leak) st
     = occurrences m st + (if st = leak_stackTrace leak then 1 else 0)"
  "progressStream (report_found_leak m leak)
     = progressStream m @ [line_for (occurrences m (leak_stackTrace leak) + 1) leak]"
  by (auto simp: report_found_leak_def Let_def occurrences_def line_for_def um_simps split: option.splits)

text \<open>
  The progress log of one round: each leak gets one line, in order; it is announced as new
  exactly when it is the first for its stack trace since the thread started, and otherwise with the running
  number of leaks of that trace, which the monitor's table keeps (modulo 2 to the power 32).
\<close>

theorem progress_lines:
  "occurrences (foldl report_found_leak m leaks) st
     = occurrences m st + of_nat (length (filter (\<lambda>l. leak_stackTrace l = st) leaks))
   \<and> progressStream (foldl report_found_leak m leaks) = progressStream m
     @ map (\<lambda>i. let leak = leaks ! i; earlier = length (filter (\<lambda>l. leak_stackTrace l = leak_stackTrace leak) (take i leaks));
                    n = occurrences m (leak_stackTrace leak) + of_nat (Suc earlier)
                in if n = 1 then FoundNewLeak (leak_stackTrace leak) (leak_memory leak) (leak_size leak)
                   else LostAgain (leak_stackTrace leak) (leak_memory leak) (leak_size leak) n)
         [0..<length leaks]"
proof -
  have occ: "occurrences (foldl report_found_leak m leaks) st
     = occurrences m st + of_nat (length (filter (\<lambda>l. leak_stackTrace l = st) leaks))" for st leaks
    by (induction leaks rule: rev_induct) (simp_all add: report_found_leak_step)
  have "progressStream (foldl report_found_leak m leaks) = progressStream m
     @ map (\<lambda>i. line_for (occurrences m (leak_stackTrace (leaks ! i)) + of_nat (Suc (length
         (filter (\<lambda>l. leak_stackTrace l = leak_stackTrace (leaks ! i)) (take i leaks))))) (leaks ! i))
       [0..<length leaks]"
    by (induction leaks rule: rev_induct)
      (simp_all add: report_found_leak_step occ nth_append add.commute add.left_commute)
  with occ show ?thesis by (simp add: line_for_def Let_def)
qed

section \<open>The times of the leak reports\<close>

text \<open>
  The rounds of the monitor with the table each finds (the program runs in between); the
  result lists the times of the rounds that wrote a leak report.
\<close>

fun report_times ::
  "Environment \<Rightarrow> (uint64 \<times> rat \<times> AllocationTable) list \<Rightarrow> Monitor \<Rightarrow> rat list outcome" where
  "report_times env [] m = Inr []"
| "report_times env ((time, now, T) # rounds) m =
     andThen (monitor_round env time now T m) (\<lambda>(_, m').
     andThen (report_times env rounds m') (\<lambda>ts.
       Inr (if leakStream m' = leakStream m then ts else now # ts)))"

lemma monitor_round_times:
  assumes "monitor_round env time now T m = Inr (T', m')"
  defines "next \<equiv> (if timeNextLeakReport m = 0 then schedule env now else timeNextLeakReport m)"
  shows "if next < now then leakStream m' \<noteq> leakStream m \<and> timeNextLeakReport m' = schedule env now
    else leakStream m' = leakStream m \<and> timeNextLeakReport m' = next"
  using assms
  by (auto simp: monitor_round_def Let_def andThen_Inr_iff print_report_def split: if_splits)

lemma schedule_positive:
  "0 \<le> now \<Longrightarrow> 0 < leakReportInterval env \<Longrightarrow> 0 < schedule env now"
  unfolding schedule_def by (rule fl_positive) (simp_all add: add_nonneg_pos word_less_nat_alt unsigned_rat)

lemma report_times_spaced:
  assumes "report_times env rounds m = Inr ts" and "timeNextLeakReport m \<noteq> 0"
    and "0 < leakReportInterval env" and "\<forall>(time, now, T) \<in> set rounds. 0 \<le> now"
  shows "successively (\<lambda>a b. schedule env a < b) ts \<and> (ts \<noteq> [] \<longrightarrow> timeNextLeakReport m < hd ts)"
  using assms
proof (induction env rounds m arbitrary: ts rule: report_times.induct)
  case (2 env time now T rounds m)
  then obtain T' m' ts' where r: "monitor_round env time now T m = Inr (T', m')"
    and rest: "report_times env rounds m' = Inr ts'"
    and ts: "ts = (if leakStream m' = leakStream m then ts' else now # ts')"
    by (auto simp: andThen_Inr_iff)
  have pos: "schedule env now \<noteq> 0" using 2 schedule_positive [of now env] by auto
  show ?case
  proof (cases "timeNextLeakReport m < now")
    case True
    with monitor_round_times [OF r] 2 have "leakStream m' \<noteq> leakStream m" "timeNextLeakReport m' = schedule env now"
      by auto
    with 2(1) [OF rest] 2 pos True ts show ?thesis
      by (cases ts') (auto simp: successively_Cons)
  next
    case False
    with monitor_round_times [OF r] 2 have "leakStream m' = leakStream m" "timeNextLeakReport m' = timeNextLeakReport m"
      by auto
    with 2(1) [OF rest] 2 ts show ?thesis by auto
  qed
qed simp

text \<open>
  C38. Leak reports are spaced: the first is written only when the reporting interval has passed
  since the first round, and each later one only when it has passed since the report before it.
\<close>

theorem leak_reports_spaced:
  assumes "report_times env ((time, start, T) # rounds) initialMonitor = Inr ts"
    and "0 < leakReportInterval env" and "fl double_prec start = start" and "0 \<le> start"
    and "\<forall>(time, now, T) \<in> set rounds. 0 \<le> now"
  shows "successively (\<lambda>a b. fl double_prec (a + of_nat (unat (leakReportInterval env))) < b) (start # ts)"
proof -
  from assms(1) obtain T' m' ts' where r: "monitor_round env time start T initialMonitor = Inr (T', m')"
    and rest: "report_times env rounds m' = Inr ts'"
    and ts: "ts = (if leakStream m' = leakStream initialMonitor then ts' else start # ts')"
    by (auto simp: andThen_Inr_iff)
  have "start \<le> schedule env start"
    using fl_mono [of start "start + of_nat (unat (leakReportInterval env))" double_prec] assms(3,4)
    by (simp add: schedule_def unsigned_rat)
  with monitor_round_times [OF r] have m': "leakStream m' = leakStream initialMonitor"
    "timeNextLeakReport m' = schedule env start"
    by (auto simp: initialMonitor_def split: if_splits)
  have "timeNextLeakReport m' \<noteq> 0" using m'(2) schedule_positive [OF assms(4,2)] by simp
  from report_times_spaced [OF rest this assms(2,5)] ts m' show ?thesis
    by (cases ts') (auto simp: successively_Cons schedule_def)
qed

lemma sample_rounds:
  "report_times sample_env [(100, 100, emptyTable), (131, 131, emptyTable)] initialMonitor = Inr [131]"
proof -
  have fl: "fl double_prec 130 = 130" "fl double_prec 161 = 161" "fl double_prec 132 = 132"
    using fl_of_nat [of 130 double_prec] fl_of_nat [of 161 double_prec] fl_of_nat [of 132 double_prec]
    by simp_all
  have patrol: "patrolThreadUpdateAllocationStates sample_env t emptyTable
      = Inr ((initialStats, []), emptyTable)" for t
    by (simp add: patrolThreadUpdateAllocationStates_def emptyTable_def)
  have schedule: "schedule sample_env 100 = 130" "schedule sample_env 131 = 161"
    by (simp_all add: schedule_def sample_env_def fl)
  have rates: "print_rates initialStats t = []" for t
    by (simp add: print_rates_def initialStats_def Let_def)
  obtain report where report: "patrolThreadMakeLeakReport sample_env emptyTable = Inr report"
    by (simp add: patrolThreadMakeLeakReport_def collect_report_def emptyTable_def std_sort_def)
  have "monitor_round sample_env 100 100 emptyTable initialMonitor
      = Inr (emptyTable, initialMonitor\<lparr>timeNextLeakReport := 130\<rparr>)"
    by (simp add: monitor_round_def patrol rates schedule initialMonitor_def)
  moreover have "\<exists>m. monitor_round sample_env 131 131 emptyTable (initialMonitor\<lparr>timeNextLeakReport := 130\<rparr>)
      = Inr (emptyTable, m) \<and> leakStream m \<noteq> []"
    by (simp add: monitor_round_def patrol rates schedule initialMonitor_def report print_report_def)
  moreover have "leakStream initialMonitor = []" by (simp add: initialMonitor_def)
  ultimately show ?thesis by auto
qed

theorem leak_reports_spaced_witness:
  "successively (\<lambda>a b. fl double_prec (a + 30) < b) [100, 131]"
proof -
  have "fl double_prec 100 = 100" using fl_of_nat [of 100 double_prec] by simp
  with leak_reports_spaced [OF sample_rounds] show ?thesis by (simp add: sample_env_def)
qed

end
