(* ===== verification/Library_Init.thy ===== *)
theory Library_Init
  imports Patrol_Thread Wrapper_Malloc
begin

text \<open>
  \<^verbatim>\<open>alloc-counter/init.cpp\<close> and the start of the patrol thread: the constructor function
  that runs when the library is loaded, and the part of PatrolThread::monitorMain before its
  loop, which runs in the new thread. The state is the communication memory and the library flag of
  the thread in question; the results of the system calls are arguments.
\<close>

section \<open>Loading\<close>

text \<open>The body that opens the two log files and enters the loop never gives its context back.\<close>

definition monitorMain_start :: "Environment \<Rightarrow> bool \<Rightarrow> CommMemory \<Rightarrow> (bool \<times> CommMemory \<times> Monitor) outcome" where
  "monitorMain_start env flag c =
     andThen (LibraryContext_construct flag) (\<lambda>flag'.
     andThen (autoStart env c) (\<lambda>c'. Inr (flag', c', initialMonitor)))"

record PatrolThread =
  s_instance :: bool
  spawned :: nat

definition spawn :: "PatrolThread \<Rightarrow> PatrolThread" where
  "spawn t = \<lparr>s_instance = True, spawned = spawned t + 1\<rparr>"

definition allocCounterInit ::
  "int \<Rightarrow> int \<Rightarrow> ptr \<Rightarrow> bool \<Rightarrow> CommMemory \<Rightarrow> PatrolThread \<Rightarrow> ((CommMemory \<times> PatrolThread) \<times> bool) outcome" where
  "allocCounterInit fd written mapped flag c t =
     in_scope flag (\<lambda>_. andThen (initCommMemory fd written mapped c) (\<lambda>c'. Inr (c', spawn t)))"

lemma allocCounterInit_Inr:
  assumes "allocCounterInit fd written mapped flag c t = Inr ((c', t'), flag')" and "mapped \<noteq> MAP_FAILED"
  shows "commPointer c' = MappedFile" "commFile c' = Some NotWatching" "t' = spawn t" "\<not> flag" "\<not> flag'"
  using assms
  by (cases flag; auto simp: allocCounterInit_def initCommMemory_def andThen_Inr_iff Let_def split: if_splits)+

section \<open>The life of the watch state\<close>

end
