(* ===== verification/Transparency.thy ===== *)
theory Transparency
  imports Program_Calls Library_Init
begin

text \<open>
  The library while it does not track: before the start signal, and inside its own code. A program's calls of
  the ten wrappers are compared with the same calls of the real functions, call for call along a
  whole run: the results the program sees, the error codes among them, and the memory. What the
  wrappers do besides (the state of calloc's first call, the local error code of posix_memalign) is
  not visible.
\<close>

section \<open>A program with and without the library\<close>

datatype LibResult = Pointer ptr | Status int "ptr option" | NoResult

definition pointer_result :: "CallocState \<Rightarrow> (ptr \<times> Process) outcome \<Rightarrow> (LibResult \<times> CallocState \<times> Process) outcome" where
  "pointer_result st r = andThen r (\<lambda>(q, p'). Inr (Pointer q, st, p'))"

fun wrapper_call ::
  "Glibc \<Rightarrow> Surroundings \<Rightarrow> CallSite \<Rightarrow> LibCall \<Rightarrow> CallocState \<Rightarrow> Process \<Rightarrow> (LibResult \<times> CallocState \<times> Process) outcome" where
  "wrapper_call g w c (Malloc n) st p = pointer_result st (malloc g w c n p)"
| "wrapper_call g w c (Calloc a b) st p = andThen (calloc g w c a b st p) (\<lambda>(q, st', p'). Inr (Pointer q, st', p'))"
| "wrapper_call g w c (Realloc q n) st p = pointer_result st (realloc g w c q n p)"
| "wrapper_call g w c (Reallocarray q a b) st p = pointer_result st (reallocarray g w c q a b p)"
| "wrapper_call g w c (PosixMemalign al n) st p =
     andThen (posix_memalign g w c al n p) (\<lambda>(e, q, p'). Inr (Status e q, st, p'))"
| "wrapper_call g w c (AlignedAlloc al n) st p = pointer_result st (aligned_alloc g w c al n p)"
| "wrapper_call g w c (Valloc n) st p = pointer_result st (valloc g w c n p)"
| "wrapper_call g w c (Memalign al n) st p = pointer_result st (memalign w c al n p)"
| "wrapper_call g w c (Pvalloc n) st p = pointer_result st (pvalloc g w c n p)"
| "wrapper_call g w c (Free q) st p = andThen (free g w q p) (\<lambda>p'. Inr (NoResult, st, p'))"

text \<open>The real functions; posix_memalign stores its pointer when it succeeds.\<close>

fun direct_call :: "Glibc \<Rightarrow> Surroundings \<Rightarrow> LibCall \<Rightarrow> heap \<Rightarrow> LibResult \<times> heap" where
  "direct_call g w (Malloc n) h = (let (q, h') = real_malloc g n h in (Pointer q, h'))"
| "direct_call g w (Calloc a b) h = (let (q, h') = real_calloc g a b h in (Pointer q, h'))"
| "direct_call g w (Realloc q n) h = (let (q, h') = real_realloc g q n h in (Pointer q, h'))"
| "direct_call g w (Reallocarray q a b) h = (let (q, h') = real_reallocarray g q a b h in (Pointer q, h'))"
| "direct_call g w (PosixMemalign al n) h =
     (let (e, q, h') = real_posix_memalign g al n h in (Status e (if e = 0 then Some q else None), h'))"
| "direct_call g w (AlignedAlloc al n) h = (let (q, h') = real_aligned_alloc g al n h in (Pointer q, h'))"
| "direct_call g w (Valloc n) h = (let (q, h') = real_valloc g n h in (Pointer q, h'))"
| "direct_call g w (Memalign al n) h = (let (q, h') = real_memalign_call w al n h in (Pointer q, h'))"
| "direct_call g w (Pvalloc n) h = (let (q, h') = real_pvalloc g n h in (Pointer q, h'))"
| "direct_call g w (Free q) h = (NoResult, snd (real_free g q h))"

fun run_wrapped ::
  "Glibc \<Rightarrow> (Surroundings \<times> CallSite \<times> LibCall) list \<Rightarrow> CallocState \<Rightarrow> Process \<Rightarrow>
     (LibResult list \<times> CallocState \<times> Process) outcome" where
  "run_wrapped g [] st p = Inr ([], st, p)"
| "run_wrapped g ((w, c, call) # calls) st p =
     andThen (wrapper_call g w c call st p) (\<lambda>(r, st', p').
     andThen (run_wrapped g calls st' p') (\<lambda>(rs, st'', p''). Inr (r # rs, st'', p'')))"

fun run_direct :: "Glibc \<Rightarrow> (Surroundings \<times> CallSite \<times> LibCall) list \<Rightarrow> heap \<Rightarrow> LibResult list \<times> heap" where
  "run_direct g [] h = ([], h)"
| "run_direct g ((w, c, call) # calls) h =
     (let (r, h') = direct_call g w call h; (rs, h'') = run_direct g calls h' in (r # rs, h''))"

section \<open>What is relied on\<close>

text \<open>
  A real function does not look at the local variable of the wrapper, which the model keeps beside the
  heap; free of the null pointer does nothing; and posix_memalign stores a pointer that is not null exactly when it
  succeeds (as glibc does, also for a size of zero).
\<close>

definition shown :: "heap \<Rightarrow> heap" where
  "shown h = h\<lparr>errorCode := 0\<rparr>"

definition blind :: "(heap \<Rightarrow> 'r \<times> heap) \<Rightarrow> bool" where
  "blind f \<longleftrightarrow> (\<forall>h e. f (h\<lparr>errorCode := e\<rparr>) = (fst (f h), snd (f h)\<lparr>errorCode := e\<rparr>))"

definition regroup :: "(heap \<Rightarrow> int \<times> ptr \<times> heap) \<Rightarrow> heap \<Rightarrow> (int \<times> ptr) \<times> heap" where
  "regroup f h = (let (e, q, h') = f h in ((e, q), h'))"

definition plain_glibc :: "Glibc \<Rightarrow> bool" where
  "plain_glibc g \<longleftrightarrow> (\<forall>n. blind (real_malloc g n)) \<and> (\<forall>q. blind (real_free g q)) \<and> (\<forall>a b. blind (real_calloc g a b))
     \<and> (\<forall>q n. blind (real_realloc g q n)) \<and> (\<forall>q a b. blind (real_reallocarray g q a b))
     \<and> (\<forall>al n. blind (regroup (real_posix_memalign g al n))) \<and> (\<forall>al n. blind (real_aligned_alloc g al n))
     \<and> (\<forall>n. blind (real_valloc g n)) \<and> (\<forall>n. blind (real_pvalloc g n))
     \<and> (\<forall>h. real_free g nullptr h = ((), h))
     \<and> (\<forall>al n h. fst (real_posix_memalign g al n h) = 0 \<longleftrightarrow> fst (snd (real_posix_memalign g al n h)) \<noteq> nullptr)"

definition silent_call :: "Process \<Rightarrow> Surroundings \<times> CallSite \<times> LibCall \<Rightarrow> bool" where
  "silent_call p = (\<lambda>(w, c, call). bypass w p \<and> (\<forall>al n. blind (real_memalign_call w al n)))"

lemma blind_shown: "blind f \<Longrightarrow> f (shown h) = (fst (f h), shown (snd (f h)))"
  by (simp add: blind_def shown_def)

section \<open>Call for call\<close>

lemma direct_pointer:
  assumes "blind f"
  shows "\<exists>q p'. call_directly f p = Inr (q, p') \<and> p' = p\<lparr>proc_heap := proc_heap p'\<rparr>
    \<and> f (shown (proc_heap p)) = (q, shown (proc_heap p'))"
  using blind_shown [OF assms, of "proc_heap p"]
  by (cases "f (proc_heap p)") (simp add: call_directly_def)

lemma wrapped_transparent:
  assumes "bypass w p" and "blind f"
  shows "\<exists>q p'. wrapped_allocation w c n al f zf p = Inr (q, p') \<and> p' = p\<lparr>proc_heap := proc_heap p'\<rparr>
    \<and> f (shown (proc_heap p)) = (q, shown (proc_heap p'))"
  using direct_pointer [OF assms(2), of p] assms(1) by (simp add: wrapped_bypass)

lemma resize_transparent:
  assumes "bypass w p" and "blind f"
  shows "\<exists>r p'. resize w c q n f p = Inr (r, p') \<and> p' = p\<lparr>proc_heap := proc_heap p'\<rparr>
    \<and> f (shown (proc_heap p)) = (r, shown (proc_heap p'))"
proof -
  have "resize w c q n f p = call_directly f p" using assms(1)
    by (cases "f (proc_heap p)") (simp add: resize_def wrapped_bypass free_for_result_def instrumentedFree_def
        instrumentedReallocate_def call_directly_def)
  with direct_pointer [OF assms(2), of p] show ?thesis by simp
qed

lemma posix_transparent:
  assumes "bypass w p" and "plain_glibc g"
  shows "\<exists>e q p'. posix_memalign g w c al n p = Inr (e, q, p') \<and> p' = p\<lparr>proc_heap := proc_heap p'\<rparr>
    \<and> direct_call g w (PosixMemalign al n) (shown (proc_heap p)) = (Status e q, shown (proc_heap p'))"
proof -
  obtain e q h where r: "real_posix_memalign g al n (shown (proc_heap p)) = (e, q, h)" by (metis prod.exhaust)
  have "blind (regroup (real_posix_memalign g al n))" using assms(2) by (simp add: plain_glibc_def)
  from blind_shown [OF this, of "shown (proc_heap p)"] r have h: "shown h = h"
    by (simp add: regroup_def shown_def)
  have "e = 0 \<longleftrightarrow> q \<noteq> nullptr" using assms(2) r unfolding plain_glibc_def by (metis fst_conv snd_conv)
  moreover have "bypass w (p\<lparr>proc_heap := h\<rparr>)" for h using assms(1) by (simp add: bypass_def)
  moreover have "shown (h\<lparr>errorCode := e\<rparr>) = h" using h by (simp add: shown_def)
  ultimately show ?thesis using r
    by (simp add: posix_memalign_def Let_def wrapped_bypass call_directly_def flip: shown_def)
qed

definition calloc_ready :: "CallocState \<Rightarrow> bool" where
  "calloc_ready st \<longleftrightarrow> real_calloc_resolved st \<or> \<not> alreadyInDlsymCall st"

lemma call_transparent:
  assumes g: "plain_glibc g" and w: "silent_call p (w, c, call)" and st: "calloc_ready st"
  shows "\<exists>r st' p'. wrapper_call g w c call st p = Inr (r, st', p') \<and> p' = p\<lparr>proc_heap := proc_heap p'\<rparr>
    \<and> direct_call g w call (shown (proc_heap p)) = (r, shown (proc_heap p')) \<and> calloc_ready st'"
proof -
  have b: "bypass w p" "\<And>al n. blind (real_memalign_call w al n)" using w by (simp_all add: silent_call_def)
  note W = wrapped_transparent [OF b(1)] and R = resize_transparent [OF b(1)]
  note G = g [unfolded plain_glibc_def]
  show ?thesis
  proof (cases call)
    case (Malloc n)
    with W [of "real_malloc g n" c n NoAlignment Unnecessary] G st show ?thesis
      by (auto simp: pointer_result_def malloc_def)
  next
    case (Calloc x y)
    with W [of "real_calloc g x y" c "x * y" NoAlignment Needed] G st show ?thesis
      by (auto simp: calloc_def Let_def calloc_ready_def)
  next
    case (Realloc q n)
    with R [of "real_realloc g q n" c q n] G st show ?thesis
      by (auto simp: pointer_result_def resize_wrappers)
  next
    case (Reallocarray q x y)
    with R [of "real_reallocarray g q x y" c q "x * y"] G st show ?thesis
      by (auto simp: pointer_result_def resize_wrappers)
  next
    case (PosixMemalign al n)
    with posix_transparent [OF b(1) g, of c al n] st show ?thesis by fastforce
  next
    case (AlignedAlloc al n)
    with W [of "real_aligned_alloc g al n" c n "to_uint32 al" Unnecessary] G st show ?thesis
      by (auto simp: pointer_result_def aligned_alloc_def)
  next
    case (Valloc n)
    with W [of "real_valloc g n" c n "pageSize (environment w)" Unnecessary] G st show ?thesis
      by (auto simp: pointer_result_def valloc_def)
  next
    case (Memalign al n)
    with W [of "real_memalign_call w al n" c n "to_uint32 al" Unnecessary] b(2) st show ?thesis
      by (auto simp: pointer_result_def memalign_def)
  next
    case (Pvalloc n)
    with W [of "real_pvalloc g n" c n "pageSize (environment w)" Unnecessary] G st show ?thesis
      by (auto simp: pointer_result_def pvalloc_def)
  next
    case (Free q)
    then show ?thesis using b(1) G st blind_shown [of "real_free g q" "proc_heap p"]
      by (cases "real_free g q (proc_heap p)"; cases "q = nullptr")
        (auto simp: free_def instrumentedFree_def call_directly_def)
  qed
qed

lemma wrappers_run_silent:
  assumes "plain_glibc g" and "list_all (silent_call p) calls" and "calloc_ready st"
  shows "\<exists>rs st' p'. run_wrapped g calls st p = Inr (rs, st', p')
    \<and> run_direct g calls (shown (proc_heap p)) = (rs, shown (proc_heap p'))
    \<and> table p' = table p \<and> thread_inLibrary p' = thread_inLibrary p"
  using assms(2,3)
proof (induction calls arbitrary: st p)
  case (Cons x calls)
  obtain w c call where x: "x = (w, c, call)" by (cases x)
  from Cons.prems have "silent_call p (w, c, call)" by (simp add: x)
  from call_transparent [OF assms(1) this Cons.prems(2)] obtain r st1 p1 where
    first: "wrapper_call g w c call st p = Inr (r, st1, p1)" "p1 = p\<lparr>proc_heap := proc_heap p1\<rparr>"
      "direct_call g w call (shown (proc_heap p)) = (r, shown (proc_heap p1))" "calloc_ready st1" by blast
  have same: "table p1 = table p" "thread_inLibrary p1 = thread_inLibrary p"
    by (subst first(2), simp)+
  then have "list_all (silent_call p1) calls"
    using Cons.prems(1) by (simp add: list_all_iff silent_call_def bypass_def split_beta)
  from Cons.IH [OF this first(4)] obtain rs st2 p2 where
    rest: "run_wrapped g calls st1 p1 = Inr (rs, st2, p2)" "run_direct g calls (shown (proc_heap p1)) = (rs, shown (proc_heap p2))"
      "table p2 = table p1" "thread_inLibrary p2 = thread_inLibrary p1" by blast
  then show ?case using first same by (simp add: x)
qed simp

text \<open>
  C31. While the library does not track, it cannot be noticed. Take any list of calls of the ten wrappers, each made
  inside the library or with the watch state at NotWatching, from any state of the tables and the memory, with
  calloc resolved or at its first call, over a C library whose free of the null pointer does nothing and
  whose posix_memalign stores a pointer that is not null exactly when it succeeds. The run ends without a
  fault; the program gets, call for call, the results it gets from the real functions, the error
  codes and stored pointers of posix_memalign among them; the memory is the same afterwards; and the
  tables and the thread's flag are untouched.
\<close>

theorem wrappers_transparent:
  assumes "plain_glibc g" and "list_all (silent_call p) calls" and "calloc_ready st"
  shows "\<exists>rs st' p'. run_wrapped g calls st p = Inr (rs, st', p')
    \<and> run_direct g calls (shown (proc_heap p)) = (rs, shown (proc_heap p'))
    \<and> table p' = table p \<and> thread_inLibrary p' = thread_inLibrary p"
  using assms by (rule wrappers_run_silent)

section \<open>From loading to the start signal\<close>

text \<open>
  Loading the library, and starting its patrol thread with no automatic start configured, leaves it
  dormant: a program all of whose calls read the watch state from the communication memory as it is then
  runs as without the library, and a patrol thread is running. The start command switches tracking on.
\<close>

theorem dormant_until_started:
  assumes "allocCounterInit fd written mapped flag mem t = Inr ((mem1, t1), flag1)" and "mapped \<noteq> MAP_FAILED"
    and "monitorMain_start env False mem1 = Inr (flag2, mem2, m)" and "autoStartTime env = 0"
    and "plain_glibc g" and "calloc_ready st"
    and "list_all (\<lambda>(w, c, call). getWatchState mem2 = Inr (watchState w) \<and> (\<forall>al n. blind (real_memalign_call w al n))) calls"
  shows "spawned t1 = spawned t + 1
    \<and> (\<exists>rs st' p'. run_wrapped g calls st p = Inr (rs, st', p')
        \<and> run_direct g calls (shown (proc_heap p)) = (rs, shown (proc_heap p'))
        \<and> table p' = table p \<and> thread_inLibrary p' = thread_inLibrary p)
    \<and> (\<forall>mem3. allocCounterStart True 1 mem2 = Inr mem3 \<longrightarrow> getWatchState mem3 = Inr Watching)"
proof -
  note mem1 = allocCounterInit_Inr [OF assms(1,2)]
  have mem2: "commPointer mem2 = MappedFile" "commFile mem2 = Some NotWatching"
    using assms(3,4) mem1(1,2)
    by (auto simp: monitorMain_start_def LibraryContext_construct_def andThen_Inr_iff autoStart_def)
  then have "getWatchState mem2 = Inr NotWatching" by (simp add: getWatchState_def)
  then have "list_all (silent_call p) calls"
    using assms(7) by (auto simp: list_all_iff silent_call_def bypass_def)
  from wrappers_run_silent [OF assms(5) this assms(6)] mem1(3) mem2 show ?thesis
    by (auto simp: spawn_def allocCounterStart_def getWatchState_def)
qed

text \<open>A C library that meets the conditions, and three calls on it.\<close>

definition quiet_glibc :: Glibc where
  "quiet_glibc = sample_glibc\<lparr>real_free := (\<lambda>q h. if q = nullptr then ((), h) else release q h)\<rparr>"

lemma blind_simps:
  "blind (alloc_at a n)" "blind (realloc_at q a n)" "blind (release q)" "blind (\<lambda>h. (x, h))"
  "blind (\<lambda>h. (x, snd (release q h)))" "blind f \<Longrightarrow> blind f' \<Longrightarrow> blind (\<lambda>h. if b then f h else f' h)"
  by (simp_all add: blind_def alloc_at_def realloc_at_def release_def)

lemma quiet_glibc_plain: "plain_glibc quiet_glibc"
proof -
  have "blind (regroup (real_posix_memalign quiet_glibc al n))" for al n
    by (simp add: blind_def regroup_def quiet_glibc_def sample_glibc_def alloc_at_def Let_def)
  then show ?thesis
    by (auto simp: plain_glibc_def quiet_glibc_def sample_glibc_def intro!: blind_simps)
      (auto simp: Let_def split: prod.splits if_splits)
qed

theorem wrappers_transparent_witness:
  "\<exists>st' p'. run_wrapped quiet_glibc [(sample_surroundings\<lparr>watchState := NotWatching\<rparr>, site0, Free nullptr),
       (sample_surroundings\<lparr>watchState := NotWatching\<rparr>, site100, PosixMemalign 64 100)]
     \<lparr>real_calloc_resolved = False, alreadyInDlsymCall = False\<rparr> watched_process
     = Inr ([NoResult, Status 0 (Some 131072)], st', p') \<and> table p' = table watched_process"
proof -
  let ?w = "sample_surroundings\<lparr>watchState := NotWatching\<rparr>"
  let ?calls = "[(?w, site0, Free nullptr), (?w, site100, PosixMemalign 64 100)]"
  have "blind (real_memalign_call ?w al n)" for al n
    by (simp add: sample_surroundings_def blind_simps)
  then have "list_all (silent_call watched_process) ?calls" by (simp add: silent_call_def bypass_def)
  moreover have "calloc_ready \<lparr>real_calloc_resolved = False, alreadyInDlsymCall = False\<rparr>" by (simp add: calloc_ready_def)
  ultimately obtain rs st' p' where
    r: "run_wrapped quiet_glibc ?calls \<lparr>real_calloc_resolved = False, alreadyInDlsymCall = False\<rparr> watched_process = Inr (rs, st', p')"
      "run_direct quiet_glibc ?calls (shown (proc_heap watched_process)) = (rs, shown (proc_heap p'))"
      "table p' = table watched_process"
    using wrappers_transparent [OF quiet_glibc_plain] by blast
  have "blocks (shown (proc_heap watched_process)) 131072 = None"
    by (simp add: shown_def watched_process_def empty_process_def)
  then have "rs = [NoResult, Status 0 (Some 131072)]"
    using r(2) by (auto simp: quiet_glibc_def sample_glibc_def alloc_at_def)
  with r(1,3) show ?thesis by blast
qed

end
