(* ===== verification/Cpp_Print.thy ===== *)
theory Cpp_Print
  imports Cpp_Float
begin

text \<open>
  How an output stream of the C++ library prints a double in its default format, that of
  printf's percent g with precision six: six significant digits of the exact value rounded
  half to even, trailing zeros dropped, in decimal notation when the exponent lies between -4 and 5
  and in scientific notation otherwise. Reading a number back is what a program that parses such a log
  does.
\<close>

section \<open>The format\<close>

definition len10 :: "int \<Rightarrow> int" where
  "len10 n = int (length (show_nat (nat n)))"

definition expo10 :: "rat \<Rightarrow> int" where
  "expo10 q = (let (a, b) = quotient_of q; e = len10 a - len10 b in if 10 powi e \<le> q then e else e - 1)"

definition six_digits :: "rat \<Rightarrow> int \<times> int" where
  "six_digits q = (let e = expo10 q; m = round_half_even (q * 10 powi (5 - e))
     in if m = 1000000 then (100000, e + 1) else (m, e))"

definition strip_zeros :: "string \<Rightarrow> string" where
  "strip_zeros s = rev (dropWhile (\<lambda>c. c = CHR ''0'') (rev s))"

definition with_point :: "string \<Rightarrow> string \<Rightarrow> string" where
  "with_point a b = (if b = [] then a else a @ CHR ''.'' # b)"

definition exponent_text :: "int \<Rightarrow> string" where
  "exponent_text e = CHR ''e'' # (if e < 0 then CHR ''-'' else CHR ''+'')
     # (let d = show_nat (nat \<bar>e\<bar>) in if length d < 2 then CHR ''0'' # d else d)"

definition show_positive :: "rat \<Rightarrow> string" where
  "show_positive q = (let (m, e) = six_digits q; d = show_nat (nat m)
     in if 6 \<le> e \<or> e < - 4 then with_point (take 1 d) (strip_zeros (drop 1 d)) @ exponent_text e
        else if 0 \<le> e then with_point (take (nat e + 1) d) (strip_zeros (drop (nat e + 1) d))
        else with_point ''0'' (replicate (nat (- e) - 1) (CHR ''0'') @ strip_zeros d))"

definition show_double :: "rat \<Rightarrow> string" where
  "show_double x = (if x = 0 then ''0'' else if x < 0 then CHR ''-'' # show_positive (- x) else show_positive x)"

definition read_decimal :: "string \<Rightarrow> rat option" where
  "read_decimal s = (let a = takeWhile isdigit s; r = dropWhile isdigit s
     in if a = [] then None
        else case r of [] \<Rightarrow> Some (of_nat (read_digits 0 a))
          | c # b \<Rightarrow> if c = CHR ''.'' \<and> list_all isdigit b
              then Some (of_nat (read_digits 0 a) + of_nat (read_digits 0 b) / 10 ^ length b) else None)"

section \<open>The decimal exponent\<close>

lemma show_nat_length:
  assumes "0 < n"
  shows "10 ^ (length (show_nat n) - 1) \<le> n" "n < 10 ^ length (show_nat n)" "0 < length (show_nat n)"
proof -
  have "10 ^ (length (show_nat n) - 1) \<le> n \<and> n < 10 ^ length (show_nat n) \<and> 0 < length (show_nat n)"
    using assms
  proof (induction n rule: show_nat.induct)
    case (1 n)
    show ?case
    proof (cases "n < 10")
      case True
      with 1 show ?thesis by (subst show_nat.simps, simp)+
    next
      case False
      then have IH: "10 ^ (length (show_nat (n div 10)) - 1) \<le> n div 10" "n div 10 < 10 ^ length (show_nat (n div 10))"
        "0 < length (show_nat (n div 10))" using 1 by auto
      have len: "length (show_nat n) = Suc (length (show_nat (n div 10)))"
        using False by (subst show_nat.simps) simp
      have "10 * 10 ^ (length (show_nat (n div 10)) - 1) \<le> 10 * (n div 10)" using IH(1) by simp
      also have "\<dots> \<le> n" by simp
      finally have "10 ^ length (show_nat (n div 10)) \<le> n"
        using IH(3) by (metis One_nat_def Suc_pred power_Suc)
      moreover have "n < 10 * 10 ^ length (show_nat (n div 10))" using IH(2) by linarith
      ultimately show ?thesis by (simp add: len)
    qed
  qed
  then show "10 ^ (length (show_nat n) - 1) \<le> n" "n < 10 ^ length (show_nat n)" "0 < length (show_nat n)" by auto
qed

lemma len10_powi:
  assumes "0 < a"
  shows "10 powi (len10 a - 1) \<le> (of_int a :: rat)" "of_int a < (10 :: rat) powi (len10 a)"
proof -
  let ?n = "nat a" and ?l = "length (show_nat (nat a))"
  have n: "0 < ?n" and a: "(of_int a :: rat) = of_nat ?n" using assms by simp_all
  note L = show_nat_length [OF n]
  have "10 powi (len10 a - 1) = (10 :: rat) ^ (?l - 1)"
    using L(3) by (simp add: len10_def power_int_def nat_diff_distrib)
  also have "\<dots> = of_nat (10 ^ (?l - 1))" by simp
  also have "\<dots> \<le> of_int a" unfolding a using L(1) by (simp only: of_nat_le_iff)
  finally show "10 powi (len10 a - 1) \<le> (of_int a :: rat)" .
  have "(of_int a :: rat) < of_nat (10 ^ ?l)" unfolding a using L(2) by (simp only: of_nat_less_iff)
  also have "\<dots> = 10 powi (len10 a)" by (simp add: len10_def power_int_def)
  finally show "of_int a < (10 :: rat) powi (len10 a)" .
qed

lemma expo10_bounds:
  assumes "0 < q"
  shows "10 powi (expo10 q) \<le> q" "q < 10 powi (expo10 q + 1)"
proof -
  obtain a b where ab: "quotient_of q = (a, b)" by (cases "quotient_of q")
  then have q: "q = of_int a / of_int b" and b: "0 < b"
    by (auto simp: quotient_of_div quotient_of_denom_pos)
  then have a: "0 < a" using assms by (simp add: zero_less_divide_iff)
  have bp: "(0 :: rat) < of_int b" using b by simp
  note A = len10_powi [OF a] and B = len10_powi [OF b]
  have "q < 10 powi (len10 a) / of_int b" unfolding q using A(2) bp by (rule divide_strict_right_mono)
  also have "\<dots> \<le> 10 powi (len10 a) / 10 powi (len10 b - 1)"
    using B(1) bp by (intro divide_left_mono mult_pos_pos) auto
  also have "\<dots> = 10 powi (len10 a - len10 b + 1)" by (simp flip: power_int_diff add: algebra_simps)
  finally have up: "q < 10 powi (len10 a - len10 b + 1)" .
  have "10 powi (len10 a - len10 b - 1) = (10 powi (len10 a - 1) :: rat) / 10 powi (len10 b)"
    by (simp flip: power_int_diff add: algebra_simps)
  also have "\<dots> \<le> of_int a / 10 powi (len10 b)" using A(1) by (intro divide_right_mono) auto
  also have "\<dots> \<le> q" unfolding q using B(2) a bp by (intro divide_left_mono) auto
  finally have low: "10 powi (len10 a - len10 b - 1) \<le> q" .
  show "10 powi (expo10 q) \<le> q" "q < 10 powi (expo10 q + 1)" using up low by (auto simp: expo10_def ab Let_def)
qed

lemma powi10_less: "(10 :: rat) powi m < 10 powi n \<longleftrightarrow> m < n"
  using power_int_strict_increasing [of m n "10 :: rat"]
    power_int_increasing [of n m "10 :: rat"] by (auto simp: not_less [symmetric])


lemma round_half_even_numeral: "round_half_even (numeral n) = numeral n"
  by (metis of_int_numeral round_half_even_of_int)

lemma six_digits_bounds:
  assumes "0 < q" and "six_digits q = (m, e)"
  shows "100000 \<le> m" "m < 1000000" "expo10 q \<le> e" "e \<le> expo10 q + 1"
    "\<bar>of_int m * 10 powi (e - 5) - q\<bar> \<le> 10 powi (expo10 q - 5) / 2"
proof -
  let ?e = "expo10 q" and ?x = "q * 10 powi (5 - expo10 q)"
  have shift: "(10 :: rat) powi k * 10 powi (5 - ?e) = 10 powi (k + 5 - ?e)" for k
    by (simp flip: power_int_add add: algebra_simps)
  have "10 powi ?e * 10 powi (5 - ?e) \<le> ?x" using expo10_bounds(1) [OF assms(1)] by (intro mult_right_mono) auto
  then have low: "of_int 100000 \<le> ?x" unfolding shift by (simp add: power_int_def)
  have "?x < 10 powi (?e + 1) * 10 powi (5 - ?e)" using expo10_bounds(2) [OF assms(1)] by (intro mult_strict_right_mono) auto
  then have up: "?x < of_int 1000000" unfolding shift by (simp add: power_int_def)
  let ?r = "round_half_even ?x"
  have r: "100000 \<le> ?r" "?r \<le> 1000000"
    using round_half_even_mono [OF low] round_half_even_mono [OF less_imp_le [OF up]]
    by (simp_all add: round_half_even_numeral)
  show m: "100000 \<le> m" "m < 1000000" "?e \<le> e" "e \<le> ?e + 1"
    using assms(2) r by (auto simp: six_digits_def Let_def split: if_splits)
  have "of_int m * 10 powi (e - 5) = of_int ?r * (10 :: rat) powi (?e - 5)"
  proof (cases "?r = 1000000")
    case True
    then have "m = 100000" "e = ?e + 1" using assms(2) by (simp_all add: six_digits_def Let_def)
    moreover have "(10 :: rat) powi (?e - 4) = 10 * 10 powi (?e - 5)"
      using power_int_add [of "10 :: rat" 1 "?e - 5"] by (simp add: algebra_simps)
    ultimately show ?thesis using True by simp
  next
    case False
    then show ?thesis using assms(2) by (auto simp: six_digits_def Let_def)
  qed
  moreover have "q = ?x * 10 powi (?e - 5)"
    by (simp flip: power_int_add add: mult.assoc)
  ultimately have "of_int m * 10 powi (e - 5) - q = (of_int ?r - ?x) * 10 powi (?e - 5)"
    by (simp add: left_diff_distrib)
  then have "\<bar>of_int m * 10 powi (e - 5) - q\<bar> = \<bar>of_int ?r - ?x\<bar> * 10 powi (?e - 5)"
    by (simp add: abs_mult)
  also have "\<dots> \<le> 1 / 2 * 10 powi (?e - 5)"
    using round_half_even_near [of ?x] by (intro mult_right_mono) auto
  finally show "\<bar>of_int m * 10 powi (e - 5) - q\<bar> \<le> 10 powi (?e - 5) / 2" by simp
qed

section \<open>Reading a printed number back\<close>

lemma read_digits_acc:
  assumes "\<forall>c \<in> set b. isdigit c"
  shows "read_digits acc b = acc * 10 ^ length b + read_digits 0 b"
  using assms
proof (induction b arbitrary: acc)
  case (Cons c b)
  then have IH: "read_digits acc b = acc * 10 ^ length b + read_digits 0 b" for acc by (intro Cons.IH) simp
  from Cons.prems IH [of "10 * acc + digit_of c"] IH [of "digit_of c"] show ?case by (simp add: algebra_simps)
qed simp

lemma read_digits_split:
  assumes "\<forall>c \<in> set (a @ b). isdigit c"
  shows "read_digits 0 (a @ b) = read_digits 0 a * 10 ^ length b + read_digits 0 b"
  using assms read_digits_acc [of b "read_digits 0 a"] by (simp add: read_digits_append)

lemma strip_zeros_split: "\<exists>k. s = strip_zeros s @ replicate k (CHR ''0'')"
proof -
  have "takeWhile (\<lambda>c. c = CHR ''0'') (rev s) = replicate (length (takeWhile (\<lambda>c. c = CHR ''0'') (rev s))) (CHR ''0'')"
    by (rule replicate_eqI [OF refl]) (auto dest: set_takeWhileD)
  moreover have "s = strip_zeros s @ rev (takeWhile (\<lambda>c. c = CHR ''0'') (rev s))"
    unfolding strip_zeros_def by (metis rev_append rev_rev_ident takeWhile_dropWhile_id)
  ultimately show ?thesis by (metis rev_replicate)
qed

lemma number_chars_strip: "\<forall>c \<in> set s. isdigit c \<Longrightarrow> \<forall>c \<in> set (strip_zeros s). isdigit c"
  using strip_zeros_split [of s] by (metis UnI1 set_append)

lemma read_zeros: "read_digits 0 (replicate k (CHR ''0'')) = 0"
  by (induction k) (simp_all add: isdigit_def digit_of_def)

lemma digit_zero: "isdigit (CHR ''0'')"
  by (simp add: isdigit_def)

lemma fraction_strip:
  assumes "\<forall>c \<in> set b. isdigit c"
  shows "(of_nat (read_digits 0 (strip_zeros b)) / 10 ^ length (strip_zeros b) :: rat) = of_nat (read_digits 0 b) / 10 ^ length b"
proof -
  obtain k where k: "b = strip_zeros b @ replicate k (CHR ''0'')" using strip_zeros_split by blast
  let ?s = "strip_zeros b"
  have "read_digits 0 b = read_digits 0 ?s * 10 ^ k"
    using assms k read_digits_split [of ?s "replicate k (CHR ''0'')"] read_zeros [of k] by simp
  moreover have "length b = length ?s + k" using k by (metis length_append length_replicate)
  ultimately show ?thesis by (simp add: power_add)
qed

lemma read_with_point:
  assumes "a \<noteq> []" and "\<forall>c \<in> set a. isdigit c" and "\<forall>c \<in> set b. isdigit c"
  shows "read_decimal (with_point a (strip_zeros b)) = Some (of_nat (read_digits 0 a) + of_nat (read_digits 0 b) / 10 ^ length b)"
proof -
  have digits: "\<forall>c \<in> set (strip_zeros b). isdigit c"
    using assms(3) strip_zeros_split [of b] by (metis UnI1 set_append)
  have point: "\<not> isdigit (CHR ''.'')" by (simp add: isdigit_def)
  have "takeWhile isdigit (with_point a (strip_zeros b)) = a"
    "dropWhile isdigit (with_point a (strip_zeros b)) = (if strip_zeros b = [] then [] else CHR ''.'' # strip_zeros b)"
    using assms(2) point by (auto simp: with_point_def takeWhile_append2 dropWhile_append2)
  then have "read_decimal (with_point a (strip_zeros b))
      = Some (of_nat (read_digits 0 a) + of_nat (read_digits 0 (strip_zeros b)) / 10 ^ length (strip_zeros b))"
    using assms(1) digits by (auto simp: read_decimal_def list_all_iff)
  then show ?thesis by (simp only: fraction_strip [OF assms(3)])
qed

lemma show_nat_six:
  assumes "100000 \<le> n" and "n < 1000000"
  shows "length (show_nat n) = 6"
proof -
  have pos: "0 < n" using assms(1) by simp
  note L = show_nat_length [OF pos]
  have "10 ^ (length (show_nat n) - 1) < (10 :: nat) ^ 6" using L(1) assms(2) by simp
  then have "length (show_nat n) - 1 < 6" by (simp only: power_strict_increasing_iff)
  moreover have "(10 :: nat) ^ 5 < 10 ^ length (show_nat n)" using L(2) assms(1) by simp
  then have "5 < length (show_nat n)" by (simp only: power_strict_increasing_iff)
  ultimately show ?thesis by simp
qed

lemma read_show_positive:
  assumes "0 < q" and "six_digits q = (m, e)" and "0 \<le> e" and "e \<le> 5"
  shows "read_decimal (show_positive q) = Some (of_int m * 10 powi (e - 5))"
proof -
  note B = six_digits_bounds [OF assms(1,2)]
  let ?d = "show_nat (nat m)" and ?k = "nat e + 1"
  have len: "length ?d = 6" using B(1,2) by (intro show_nat_six) simp_all
  have digits: "\<forall>c \<in> set (take ?k ?d @ drop ?k ?d). isdigit c" using show_nat_digits by simp
  have shown: "show_positive q = with_point (take ?k ?d) (strip_zeros (drop ?k ?d))"
    using assms(2-4) by (simp add: show_positive_def Let_def)
  have "take ?k ?d \<noteq> []" using len by auto
  then have "read_decimal (show_positive q)
      = Some (of_nat (read_digits 0 (take ?k ?d)) + of_nat (read_digits 0 (drop ?k ?d)) / 10 ^ length (drop ?k ?d))"
    unfolding shown using show_nat_digits [of "nat m"]
    by (intro read_with_point) (auto dest: in_set_takeD in_set_dropD)
  moreover have "read_digits 0 (take ?k ?d) * 10 ^ length (drop ?k ?d) + read_digits 0 (drop ?k ?d) = nat m"
    using read_digits_split [OF digits] read_show_nat [of "nat m"] by simp
  then have "(of_nat (read_digits 0 (take ?k ?d)) * 10 ^ length (drop ?k ?d) + of_nat (read_digits 0 (drop ?k ?d)) :: rat)
      = of_nat (nat m)" by (metis of_nat_add of_nat_mult of_nat_numeral of_nat_power)
  moreover have "length (drop ?k ?d) = nat (5 - e)" using len assms(3,4) by (simp add: nat_diff_distrib)
  moreover have "(10 :: rat) powi (e - 5) = 1 / 10 ^ nat (5 - e)"
    using assms(4) by (cases "e = 5") (simp_all add: power_int_def field_simps)
  ultimately show ?thesis using B(1) by (simp add: field_simps)
qed


text \<open>A number below one million is read back with an error of half a unit in its sixth digit.\<close>

lemma show_double_small:
  assumes "1 \<le> x" and "x \<le> 999999"
  shows "\<exists>y. read_decimal (show_double x) = Some y \<and> \<bar>y - x\<bar> \<le> x / 200000"
proof -
  have x: "0 < x" using assms(1) by simp
  obtain m e where me: "six_digits x = (m, e)" by (cases "six_digits x")
  note B = six_digits_bounds [OF x me] and E = expo10_bounds [OF x]
  have "(10 :: rat) powi 0 < 10 powi (expo10 x + 1)" using E(2) assms(1) by simp
  then have low: "0 \<le> expo10 x" by (simp only: powi10_less)
  have "(10 :: rat) powi (expo10 x) < 10 powi 6" using E(1) assms(2) by (simp add: power_int_def)
  then have high: "expo10 x \<le> 5" unfolding powi10_less by simp
  have e: "e \<le> 5"
  proof (cases "expo10 x = 5")
    case True
    then have "round_half_even x \<le> 999999" using round_half_even_mono [OF assms(2)] by (simp add: round_half_even_numeral)
    with True me show ?thesis by (auto simp: six_digits_def Let_def split: if_splits)
  next
    case False
    with B(4) high show ?thesis by simp
  qed
  have "show_double x = show_positive x" using x by (simp add: show_double_def)
  moreover have "10 powi (expo10 x - 5) / 2 \<le> x / 200000"
  proof -
    have "(10 :: rat) powi (expo10 x - 5) = 10 powi (expo10 x) / 10 powi 5" by (rule power_int_diff) simp
    moreover have "(10 :: rat) powi 5 = 100000" by (simp add: power_int_def)
    ultimately show ?thesis using E(1) by simp
  qed
  ultimately show ?thesis
    using read_show_positive [OF x me _ e] B(3,5) low by (auto intro: order_trans)
qed

text \<open>From one million on the text is in scientific notation, which a decimal reader does not accept.\<close>

lemma show_double_large:
  assumes "1000000 \<le> x"
  obtains a b s where "show_double x = with_point a b @ CHR ''e'' # s" "a \<noteq> []"
    "\<forall>c \<in> set a. isdigit c" "\<forall>c \<in> set b. isdigit c"
proof -
  have x: "0 < x" using assms by simp
  obtain m e where me: "six_digits x = (m, e)" by (cases "six_digits x")
  note B = six_digits_bounds [OF x me] and E = expo10_bounds [OF x]
  have "(10 :: rat) powi 6 < 10 powi (expo10 x + 1)" using E(2) assms by (simp add: power_int_def)
  then have e: "6 \<le> e" using B(3) unfolding powi10_less by simp
  let ?d = "show_nat (nat m)"
  have len: "length ?d = 6" using B(1,2) by (intro show_nat_six) simp_all
  obtain s where "exponent_text e = CHR ''e'' # s" by (simp add: exponent_text_def)
  then have "show_double x = with_point (take 1 ?d) (strip_zeros (drop 1 ?d)) @ CHR ''e'' # s"
    using x me e by (simp add: show_double_def show_positive_def Let_def)
  moreover have "take 1 ?d \<noteq> []" using len by auto
  moreover have "\<forall>c \<in> set (take 1 ?d). isdigit c" "\<forall>c \<in> set (strip_zeros (drop 1 ?d)). isdigit c"
    using show_nat_digits [of "nat m"] number_chars_strip [of "drop 1 ?d"] by (auto dest: in_set_takeD in_set_dropD)
  ultimately show ?thesis using that by blast
qed

text \<open>The characters of a printed number.\<close>

definition number_char :: "char \<Rightarrow> bool" where
  "number_char c \<longleftrightarrow> isdigit c \<or> c = CHR ''.'' \<or> c = CHR ''e'' \<or> c = CHR ''+'' \<or> c = CHR ''-''"

lemma show_double_chars: "\<forall>c \<in> set (show_double x). number_char c"
proof -
  have number: "\<forall>c \<in> set s. number_char c" if "\<forall>c \<in> set s. isdigit c" for s
    using that by (simp add: number_char_def)
  have point: "\<forall>c \<in> set (with_point a b). number_char c" if "\<forall>c \<in> set a. isdigit c" "\<forall>c \<in> set b. isdigit c" for a b
    using that by (auto simp: with_point_def number_char_def)
  have expo: "\<forall>c \<in> set (exponent_text e). number_char c" for e
    using show_nat_digits [of "nat \<bar>e\<bar>"] by (auto simp: exponent_text_def number_char_def Let_def isdigit_def)
  have sub: "\<forall>c \<in> set (take n (show_nat m)). isdigit c" "\<forall>c \<in> set (drop n (show_nat m)). isdigit c" for n m
    using show_nat_digits [of m] by (auto dest: in_set_takeD in_set_dropD)
  have "\<forall>c \<in> set (show_positive q). number_char c" for q
  proof -
    obtain m e where me: "six_digits q = (m, e)" by (cases "six_digits q")
    let ?d = "show_nat (nat m)"
    have "\<forall>c \<in> set (with_point (take 1 ?d) (strip_zeros (drop 1 ?d)) @ exponent_text e). number_char c"
      using point [OF sub(1) number_chars_strip [OF sub(2)]] expo by auto
    moreover have "\<forall>c \<in> set (with_point (take (nat e + 1) ?d) (strip_zeros (drop (nat e + 1) ?d))). number_char c"
      using point [OF sub(1) number_chars_strip [OF sub(2)]] .
    moreover have "\<forall>c \<in> set (with_point ''0'' (replicate (nat (- e) - 1) (CHR ''0'') @ strip_zeros ?d)). number_char c"
      using number_chars_strip [OF show_nat_digits] by (intro point) (auto simp: isdigit_def)
    ultimately show ?thesis unfolding show_positive_def Let_def me case_prod_conv by (simp only: split: if_split) simp
  qed
  then show ?thesis by (simp add: show_double_def number_char_def isdigit_def)
qed

end
