(* ===== verification/Patrol_Log.thy ===== *)
theory Patrol_Log
  imports Patrol_Thread Cpp_Print
begin

text \<open>
  The text of the two files the patrol thread writes: every line of
  \<^verbatim>\<open>alloc-counter/patrol-thread.cpp\<close> put on a stream. The address of a StackTrace object, which
  the lines show to tell call stacks apart, is an argument. A float is converted to
  double, exactly, before it is printed.
\<close>

section \<open>The lines\<close>

fun show_float :: "cpp_float \<Rightarrow> string" where
  "show_float (Fin q) = show_double q"
| "show_float Infinity = ''inf''"
| "show_float NaN = ''nan''"

definition human_text :: "cpp_float \<times> string \<Rightarrow> string" where
  "human_text s = show_float (fst s) @ '' '' @ snd s"

definition put_trace :: "(ptr \<Rightarrow> Dl_info option) \<Rightarrow> Environment \<Rightarrow> StackTrace \<Rightarrow> OStream \<Rightarrow> OStream outcome" where
  "put_trace dladdr env st os = andThen (print_StackTrace dladdr env st os) (\<lambda>os'. Inr (put ''\<newline>'' os'))"

fun put_progress ::
  "(ptr \<Rightarrow> Dl_info option) \<Rightarrow> Environment \<Rightarrow> ptr \<Rightarrow> ProgressLine \<Rightarrow> OStream \<Rightarrow> OStream outcome" where
  "put_progress dladdr env object PatrolHello os = Inr (put ''Patrol Thread Hello\<newline>'' os)"
| "put_progress dladdr env object (AllocsPerSecond x) os = Inr (put (''Allocs per second: '' @ show_double x @ ''\<newline>'') os)"
| "put_progress dladdr env object (FreesPerSecond x) os = Inr (put (''Frees per second: '' @ show_double x @ ''\<newline>'') os)"
| "put_progress dladdr env object (ReallocsPerSecond x) os = Inr (put (''Reallocs per second: '' @ show_double x @ ''\<newline>'') os)"
| "put_progress dladdr env object (FoundNewLeak st memory n) os =
     put_trace dladdr env st (put '' bytes)\<newline>'' (put_int (unat n) (put (''[Callstack '' @ show_ptr object
       @ ''] Found new leak: lost '' @ show_ptr memory @ '' ('') os)))"
| "put_progress dladdr env object (LostAgain st memory n count) os =
     Inr (put '' times again.\<newline>'' (put_int (unat count) (put '' bytes), '' (put_int (unat n) (put (''[Callstack '' @ show_ptr object
       @ ''] Lost '' @ show_ptr memory @ '' ('') os)))))"

fun put_report ::
  "(ptr \<Rightarrow> Dl_info option) \<Rightarrow> Environment \<Rightarrow> ptr \<Rightarrow> ReportLine \<Rightarrow> OStream \<Rightarrow> OStream outcome" where
  "put_report dladdr env object (BeginReport t) os = Inr (put (''[t='' @ show_double t @ ''] Begin leak report:\<newline>'') os)"
| "put_report dladdr env object (RatioSuspicious x) os =
     Inr (put (''Ratio suspicious fingerprint/allocations: '' @ show_float x @ ''\<newline>'') os)"
| "put_report dladdr env object (AverageTraces x) os =
     Inr (put (''Average number of stack traces per suspicious fingerprint: '' @ show_float x @ ''\<newline>'') os)"
| "put_report dladdr env object (LeakyRatio a b c) os =
     Inr (put (''Leaky stack traces ratio (non-leaky/maybe/leaky): '' @ show_float a @ '' / '' @ show_float b
       @ '' / '' @ show_float c @ ''\<newline>\<newline>'') os)"
| "put_report dladdr env object (LeakLine st amount x y) os =
     put_trace dladdr env st (put (''[Callstack '' @ show_ptr object @ ''] lost ~'' @ human_text amount @ '' in ~''
       @ show_float x @ '' allocations (leak ratio = '' @ show_float y @ '')\<newline>'') os)"
| "put_report dladdr env object EndReport os = Inr (put ''End of leak report.\<newline>'' os)"

fun put_all :: "('l \<Rightarrow> OStream \<Rightarrow> OStream outcome) \<Rightarrow> 'l list \<Rightarrow> OStream \<Rightarrow> OStream outcome" where
  "put_all line [] os = Inr os"
| "put_all line (l # ls) os = andThen (line l os) (put_all line ls)"

section \<open>Writing the log never fails\<close>

lemma put_trace_text:
  assumes "\<forall>ra. dladdr_ok dladdr ra" and "\<not> os_hex os"
  shows "put_trace dladdr env st os = Inr (put (frames_text dladdr (archName env) 0 (m_returnAddresses st) @ ''\<newline>'') os)"
  using print_frames_text [of "m_returnAddresses st" dladdr os] assms
  by (simp add: put_trace_def print_StackTrace_def stream_defs)

text \<open>What a writer of lines appends to a decimal stream: for each line a text that ends the line.\<close>

definition writes :: "('l \<Rightarrow> OStream \<Rightarrow> OStream outcome) \<Rightarrow> ('l \<Rightarrow> string) \<Rightarrow> bool" where
  "writes line text_of \<longleftrightarrow> (\<forall>l os. \<not> os_hex os \<longrightarrow> line l os = Inr (put (text_of l) os)
     \<and> text_of l \<noteq> [] \<and> last (text_of l) = CHR 0x0A)"

lemma writes_all:
  assumes "writes line text_of" and "\<not> os_hex os"
  shows "put_all line ls os = Inr (put (concat (map text_of ls)) os)"
  using assms(2)
proof (induction ls arbitrary: os)
  case (Cons l ls)
  moreover have "line l os = Inr (put (text_of l) os)" using assms(1) Cons.prems by (simp add: writes_def)
  ultimately show ?case by (simp add: stream_defs)
qed (simp add: stream_defs)

definition written :: "('l \<Rightarrow> OStream \<Rightarrow> OStream outcome) \<Rightarrow> 'l \<Rightarrow> string" where
  "written line l = (case line l \<lparr>os_text = [], os_hex = False\<rparr> of Inl _ \<Rightarrow> [] | Inr os \<Rightarrow> os_text os)"

lemma lines_written:
  assumes "\<forall>ra. dladdr_ok dladdr ra"
  shows "writes (put_progress dladdr env object) (written (put_progress dladdr env object))"
    and "writes (put_report dladdr env object) (written (put_report dladdr env object))"
proof -
  have "put_progress dladdr env object l os = Inr (put (written (put_progress dladdr env object) l) os)
      \<and> written (put_progress dladdr env object) l \<noteq> [] \<and> last (written (put_progress dladdr env object) l) = CHR 0x0A"
    if "\<not> os_hex os" for l os
    using that by (cases l) (simp_all add: written_def put_trace_text [OF assms] stream_defs)
  then show "writes (put_progress dladdr env object) (written (put_progress dladdr env object))"
    unfolding writes_def by blast
  have "put_report dladdr env object l os = Inr (put (written (put_report dladdr env object) l) os)
      \<and> written (put_report dladdr env object) l \<noteq> [] \<and> last (written (put_report dladdr env object) l) = CHR 0x0A"
    if "\<not> os_hex os" for l os
    using that by (cases l) (simp_all add: written_def put_trace_text [OF assms] stream_defs)
  then show "writes (put_report dladdr env object) (written (put_report dladdr env object))"
    unfolding writes_def by blast
qed

text \<open>
  Whatever a round writes, both files get it whole: no line fails, a line's text does not depend
  on what was written before (the hexadecimal offsets of a stack trace do not leak into the
  numbers of later lines), and every line is ended.
\<close>

theorem logs_written:
  assumes "\<forall>ra. dladdr_ok dladdr ra" and "\<not> os_hex os"
  shows "put_all (\<lambda>(object, l). put_progress dladdr env object l) ls os
      = Inr (put (concat (map (\<lambda>(object, l). written (put_progress dladdr env object) l) ls)) os)"
    and "put_all (\<lambda>(object, l). put_report dladdr env object l) rs os
      = Inr (put (concat (map (\<lambda>(object, l). written (put_report dladdr env object) l) rs)) os)"
proof -
  have "writes (\<lambda>(object, l). put_progress dladdr env object l) (\<lambda>(object, l). written (put_progress dladdr env object) l)"
    "writes (\<lambda>(object, l). put_report dladdr env object l) (\<lambda>(object, l). written (put_report dladdr env object) l)"
    using lines_written [OF assms(1)] by (auto simp: writes_def)
  from this [THEN writes_all, OF assms(2)] show
    "put_all (\<lambda>(object, l). put_progress dladdr env object l) ls os
      = Inr (put (concat (map (\<lambda>(object, l). written (put_progress dladdr env object) l) ls)) os)"
    "put_all (\<lambda>(object, l). put_report dladdr env object l) rs os
      = Inr (put (concat (map (\<lambda>(object, l). written (put_report dladdr env object) l) rs)) os)" .
qed

section \<open>The sizes printed\<close>

text \<open>
  C40. The size of a leak as the report prints it: up to 1 TiB, the number read back and taken in its unit
  is within five millionths of the estimate.
\<close>

theorem human_text_accurate:
  assumes "1 \<le> q" and "q < 1024 ^ 4"
  shows "\<exists>d u y. human_text (humanSize (Fin q)) = d @ '' '' @ u \<and> u \<in> set units
    \<and> read_decimal d = Some y \<and> \<bar>y * factor_of u - q\<bar> \<le> q / 200000"
proof -
  obtain v u where v: "humanSize (Fin q) = (Fin v, u)" "u \<in> set units" "v * factor_of u = q"
    "v < 1024" "u \<noteq> ''bytes'' \<longrightarrow> 1 \<le> v"
    using humanSize_units [of q] assms by auto
  have "1 \<le> v" using v(3,5) assms(1) by (cases "u = ''bytes''") (simp_all add: factor_of_def)
  moreover have "v \<le> 999999" using v(4) by simp
  ultimately obtain y where y: "read_decimal (show_double v) = Some y" "\<bar>y - v\<bar> \<le> v / 200000"
    using show_double_small by blast
  have pos: "0 < factor_of u" by (simp add: factor_of_def)
  have "\<bar>y * factor_of u - q\<bar> = \<bar>y - v\<bar> * factor_of u"
    using pos by (simp add: v(3) [symmetric] abs_mult left_diff_distrib [symmetric])
  also have "\<dots> \<le> v / 200000 * factor_of u" using y(2) pos by (intro mult_right_mono) simp_all
  also have "\<dots> = q / 200000" using v(3) by simp
  finally show ?thesis
    using v(1,2) y(1) by (intro exI [of _ "show_double v"] exI [of _ u] exI [of _ y]) (simp add: human_text_def)
qed

theorem human_text_accurate_witness:
  "\<exists>d u y. human_text (humanSize (Fin 5000)) = d @ '' '' @ u \<and> u \<in> set units
    \<and> read_decimal d = Some y \<and> \<bar>y * factor_of u - 5000\<bar> \<le> 1 / 40"
  using human_text_accurate [of 5000] by simp

end
