(* ===== verification/Memory_Map.thy ===== *)
theory Memory_Map
  imports Prelude
begin

text \<open>
  \<^verbatim>\<open>mmap-counter/memory-map.h\<close>: the map from start addresses to slices of mapped memory. A
  std::map is a list of pairs in strictly ascending order of keys. Addresses are intptr_t (int
  within 64 bits), sizes are size_t; their sum is computed in unsigned 64-bit arithmetic and
  converted back, as the C++ conversions prescribe. A shared pointer to an allocation is the
  allocation's (immutable) value, with the identity of the shared object as a field.
\<close>

section \<open>The map\<close>

record MMapAllocation =
  identity :: nat
  stackTraceHandle :: nat
  originalStart :: int
  originalSize :: uint64

definition ptr_plus :: "int \<Rightarrow> uint64 \<Rightarrow> int" where
  "ptr_plus p n = sint (word_of_int p + n :: uint64)"

definition MMapAllocation_construct :: "nat \<Rightarrow> nat \<Rightarrow> int \<Rightarrow> int \<Rightarrow> MMapAllocation" where
  "MMapAllocation_construct object handle start n =
     \<lparr>identity = object, stackTraceHandle = handle, originalStart = start, originalSize = word_of_int n\<rparr>"

definition originalEnd :: "MMapAllocation \<Rightarrow> int" where
  "originalEnd a = ptr_plus (originalStart a) (originalSize a)"

record MemorySlice =
  slice_start :: int
  slice_size :: uint64
  slice_allocation :: MMapAllocation

definition slice_end :: "MemorySlice \<Rightarrow> int" where
  "slice_end s = ptr_plus (slice_start s) (slice_size s)"

type_synonym MemoryMap = "(int \<times> MemorySlice) list"

fun om_insert :: "int \<Rightarrow> 'v \<Rightarrow> (int \<times> 'v) list \<Rightarrow> (int \<times> 'v) list" where
  "om_insert k v [] = [(k, v)]"
| "om_insert k v ((k', v') # m) =
     (if k < k' then (k, v) # (k', v') # m
      else if k = k' then (k', v') # m
      else (k', v') # om_insert k v m)"

definition lower_bound :: "(int \<times> 'v) list \<Rightarrow> int \<Rightarrow> nat" where
  "lower_bound m k = length (takeWhile (\<lambda>(k', _). k' < k) m)"

definition upper_bound :: "(int \<times> 'v) list \<Rightarrow> int \<Rightarrow> nat" where
  "upper_bound m k = length (takeWhile (\<lambda>(k', _). k' \<le> k) m)"

definition registerMap :: "MMapAllocation \<Rightarrow> MemoryMap \<Rightarrow> MemoryMap" where
  "registerMap a m = om_insert (originalStart a)
     \<lparr>slice_start = originalStart a, slice_size = originalSize a, slice_allocation = a\<rparr> m"

definition splitAt :: "int \<Rightarrow> MemoryMap \<Rightarrow> MemoryMap outcome" where
  "splitAt pointer m =
     (let next = upper_bound m pointer
      in if next = 0 then Inr m
         else let (k, s) = m ! (next - 1)
              in andThen (check (slice_start s \<le> pointer) AssertionFailed) (\<lambda>_.
                 if pointer = slice_start s \<or> slice_end s \<le> pointer then Inr m
                 else let newSliceEnd = slice_end s;
                          m1 = m[next - 1 := (k, s\<lparr>slice_size := word_of_int (pointer - slice_start s)\<rparr>)]
                      in Inr (om_insert pointer
                           \<lparr>slice_start = pointer, slice_size = word_of_int (newSliceEnd - pointer),
                            slice_allocation = slice_allocation s\<rparr> m1)))"

definition registerUnmap :: "int \<Rightarrow> uint64 \<Rightarrow> MemoryMap \<Rightarrow> (bool \<times> MemoryMap) outcome" where
  "registerUnmap start n m =
     (let stop = ptr_plus start n
      in andThen (splitAt start m) (\<lambda>m1.
         andThen (splitAt stop m1) (\<lambda>m2.
         let eraseStart = lower_bound m2 start; eraseEnd = lower_bound m2 stop
         in if eraseEnd < eraseStart then Inl UndefinedCall
            else Inr (eraseStart \<noteq> eraseEnd, take eraseStart m2 @ drop eraseEnd m2))))"

section \<open>The abstract map from addresses to allocations\<close>

fun owner :: "MemoryMap \<Rightarrow> int \<Rightarrow> MMapAllocation option" where
  "owner [] a = None"
| "owner ((k, s) # m) a =
     (if k \<le> a \<and> a < k + uint (slice_size s) then Some (slice_allocation s) else owner m a)"

text \<open>
  Slices are stored under their start, in order, without overlap, below the middle of the
  address space, and none is empty.
\<close>

fun chain :: "int \<Rightarrow> MemoryMap \<Rightarrow> bool" where
  "chain b [] = True"
| "chain b ((k, s) # m) = (b \<le> k \<and> slice_start s = k \<and> 0 < uint (slice_size s)
     \<and> k + uint (slice_size s) < 2 ^ 63 \<and> chain (k + uint (slice_size s)) m)"

definition map_ok :: "MemoryMap \<Rightarrow> bool" where
  "map_ok m \<longleftrightarrow> chain 0 m"

fun map_end :: "int \<Rightarrow> MemoryMap \<Rightarrow> int" where
  "map_end b [] = b"
| "map_end b ((k, s) # m) = map_end (k + uint (slice_size s)) m"

lemma ptr_plus_eq:
  assumes "0 \<le> p" and "p + uint n < 2 ^ 63"
  shows "ptr_plus p n = p + uint n"
proof -
  have n: "0 \<le> uint n" by simp
  have wide: "(2 :: int) ^ 63 < 2 ^ 64" by simp
  have "p < 2 ^ 64" "p + uint n < 2 ^ 64" using assms n wide by linarith+
  then have sum: "uint (word_of_int p + n :: uint64) = p + uint n"
    using assms(1) n by (simp add: uint_word_ariths(1) unsigned_of_int take_bit_int_eq_self)
  have "- (2 ^ 63) \<le> (0 :: int)" by simp
  then have "- (2 ^ 63) \<le> p + uint n" using assms(1) n by linarith
  then have "signed_take_bit 63 (p + uint n) = p + uint n"
    using assms(2) by (intro signed_take_bit_int_eq_self)
  then show ?thesis using sum by (simp add: ptr_plus_def sint_uint)
qed

lemma chain_append: "chain b (xs @ ys) \<longleftrightarrow> chain b xs \<and> chain (map_end b xs) ys"
  by (induction b xs rule: chain.induct) auto

lemma top_append [simp]: "map_end b (xs @ ys) = map_end (map_end b xs) ys"
  by (induction b xs rule: map_end.induct) auto

lemma chain_end: "chain b xs \<Longrightarrow> b \<le> map_end b xs"
proof (induction b xs rule: chain.induct)
  case (2 b k s m)
  then have "b \<le> k" "k + uint (slice_size s) \<le> map_end (k + uint (slice_size s)) m" by auto
  moreover have "0 \<le> uint (slice_size s)" by simp
  ultimately show ?case unfolding map_end.simps by linarith
qed simp

lemma chain_mono: "chain b m \<Longrightarrow> b' \<le> b \<Longrightarrow> chain b' m"
  by (cases m) auto

lemma chain_bounds:
  assumes "chain b m" and "(k, s) \<in> set m"
  shows "b \<le> k" "slice_start s = k" "0 < uint (slice_size s)" "k + uint (slice_size s) < 2 ^ 63"
    "k + uint (slice_size s) \<le> map_end b m"
proof -
  obtain xs ys where m: "m = xs @ (k, s) # ys" using assms(2) by (metis split_list)
  with assms(1) have xs: "chain b xs" and s: "map_end b xs \<le> k" "slice_start s = k"
    "0 < uint (slice_size s)" "k + uint (slice_size s) < 2 ^ 63" and ys: "chain (k + uint (slice_size s)) ys"
    by (auto simp: chain_append)
  from s show "slice_start s = k" "0 < uint (slice_size s)" "k + uint (slice_size s) < 2 ^ 63"
    by simp_all
  show "b \<le> k" using chain_end [OF xs] s(1) by simp
  show "k + uint (slice_size s) \<le> map_end b m" using chain_end [OF ys] m by simp
qed

lemma uint_of_int_64: "0 \<le> i \<Longrightarrow> i < 2 ^ 63 \<Longrightarrow> uint (word_of_int i :: uint64) = i"
  by (simp add: unsigned_of_int take_bit_int_eq_self)

lemma owner_iff:
  assumes "chain b m"
  shows "owner m a = Some al \<longleftrightarrow>
    (\<exists>(k, s) \<in> set m. k \<le> a \<and> a < k + uint (slice_size s) \<and> slice_allocation s = al)"
  using assms
proof (induction b m rule: chain.induct)
  case (2 b k s m)
  then have IH: "owner m a = Some al \<longleftrightarrow>
      (\<exists>(k, s) \<in> set m. k \<le> a \<and> a < k + uint (slice_size s) \<and> slice_allocation s = al)" by simp
  have "\<not> (k' \<le> a \<and> a < k' + uint (slice_size s'))"
    if "(k', s') \<in> set m" "a < k + uint (slice_size s)" for k' s'
    using chain_bounds(1) [of "k + uint (slice_size s)" m k' s'] 2(2) that by auto
  with IH show ?case by auto
qed simp

lemma slice_end_eq:
  assumes "chain 0 m" and "(k, s) \<in> set m"
  shows "slice_end s = k + uint (slice_size s)"
  using chain_bounds [OF assms] by (simp add: slice_end_def ptr_plus_eq)

text \<open>Where a key falls in the list.\<close>

lemma chain_split:
  assumes "chain b m"
  obtains xs ys where "m = xs @ ys" "takeWhile (\<lambda>(k', _). k' \<le> p) m = xs"
    "\<forall>(k, s) \<in> set xs. k \<le> p" "\<forall>(k, s) \<in> set ys. p < k"
proof -
  let ?P = "\<lambda>(k', _). k' \<le> p"
  have m: "m = takeWhile ?P m @ dropWhile ?P m" by simp
  have "\<forall>(k, s) \<in> set (dropWhile ?P m). p < k"
  proof (cases "dropWhile ?P m")
    case (Cons x zs)
    obtain k s where x: "x = (k, s)" by (cases x)
    have "p < k" using Cons x by (metis (mono_tags, lifting) case_prod_conv dropWhile_eq_Cons_conv not_le)
    moreover have "chain (map_end b (takeWhile ?P m)) ((k, s) # zs)"
      using assms m Cons x by (metis chain_append)
    ultimately show ?thesis
      using chain_bounds(1) [of "k + uint (slice_size s)" zs] Cons x by fastforce
  next
    case Nil
    then show ?thesis by (simp only: list.set ball_empty)
  qed
  moreover have "\<forall>(k, s) \<in> set (takeWhile ?P m). k \<le> p"
    using set_takeWhileD by fastforce
  ultimately show ?thesis using that [OF m] by blast
qed

lemma om_insert_between:
  "\<forall>(k', v') \<in> set xs. k' < k \<Longrightarrow> \<forall>(k', v') \<in> set ys. k < k' \<Longrightarrow>
     om_insert k v (xs @ ys) = xs @ (k, v) # ys"
  by (induction xs) (auto, cases ys, auto)

text \<open>Splitting keeps the abstract map and leaves no slice across the address.\<close>

definition cut :: "int \<Rightarrow> MemoryMap \<Rightarrow> bool" where
  "cut p m \<longleftrightarrow> (\<forall>(k, s) \<in> set m. k < p \<longrightarrow> k + uint (slice_size s) \<le> p)"

lemma splitAt_cases:
  assumes "map_ok m"
  obtains "splitAt p m = Inr m" "cut p m"
  | xs k s ys s1 s2 where "m = xs @ (k, s) # ys" "k < p" "p < k + uint (slice_size s)"
      "slice_start s1 = k" "uint (slice_size s1) = p - k" "slice_allocation s1 = slice_allocation s"
      "slice_start s2 = p" "uint (slice_size s2) = k + uint (slice_size s) - p"
      "slice_allocation s2 = slice_allocation s"
      "splitAt p m = Inr (xs @ (k, s1) # (p, s2) # ys)"
proof -
  have chain: "chain 0 m" using assms by (simp add: map_ok_def)
  obtain le ys where m: "m = le @ ys" and le: "takeWhile (\<lambda>(k', _). k' \<le> p) m = le"
    and small: "\<forall>(k, s) \<in> set le. k \<le> p" and large: "\<forall>(k, s) \<in> set ys. p < k"
    using chain_split [OF chain] .
  show ?thesis
  proof (cases le rule: rev_cases)
    case Nil
    with le have "splitAt p m = Inr m" by (simp add: splitAt_def upper_bound_def)
    moreover have "cut p m" using Nil m large by (fastforce simp: cut_def)
    ultimately show ?thesis using that(1) by blast
  next
    case (snoc xs x)
    obtain k s where x: "x = (k, s)" by (cases x)
    have m': "m = xs @ (k, s) # ys" using m snoc x by simp
    have ks: "(k, s) \<in> set m" and kp: "k \<le> p" using m' small snoc x by auto
    note b = chain_bounds [OF chain ks]
    have size: "uint (slice_size s) < 2 ^ 63" using b(1,4) by linarith
    have nth: "m ! length xs = (k, s)" using m' by (simp add: nth_append)
    have ub: "upper_bound m p = Suc (length xs)" using le snoc by (simp add: upper_bound_def)
    have before: "\<forall>(k', s') \<in> set xs. k' + uint (slice_size s') \<le> k"
      using chain_bounds(5) [of 0 xs] chain m' by (fastforce simp: chain_append intro: order_trans)
    show ?thesis
    proof (cases "p = k \<or> k + uint (slice_size s) \<le> p")
      case True
      then have "splitAt p m = Inr m"
        using b kp by (auto simp: splitAt_def Let_def ub nth slice_end_eq [OF chain ks])
      moreover have "cut p m" using True m' before large kp by (fastforce simp: cut_def)
      ultimately show ?thesis using that(1) by blast
    next
      case False
      let ?s1 = "s\<lparr>slice_size := word_of_int (p - k)\<rparr>"
      let ?s2 = "\<lparr>slice_start = p, slice_size = word_of_int (k + uint (slice_size s) - p),
        slice_allocation = slice_allocation s\<rparr>"
      have "m[length xs := (k, ?s1)] = (xs @ [(k, ?s1)]) @ ys" using m' by simp
      moreover have "\<forall>(k', v') \<in> set (xs @ [(k, ?s1)]). k' < p"
        using before kp False b chain_bounds(3) [of 0 xs] chain m' by (fastforce simp: chain_append)
      ultimately have "splitAt p m = Inr (xs @ (k, ?s1) # (p, ?s2) # ys)"
        using False kp b(2) om_insert_between [of "xs @ [(k, ?s1)]" p ys ?s2] large
        by (simp add: splitAt_def Let_def ub nth slice_end_eq [OF chain ks])
      moreover have "uint (slice_size ?s1) = p - k" "uint (slice_size ?s2) = k + uint (slice_size s) - p"
        using uint_of_int_64 [of "p - k"] uint_of_int_64 [of "k + uint (slice_size s) - p"] False kp size
        by (simp_all del: of_int_add of_int_diff)
      ultimately show ?thesis
        using that(2) [OF m', of ?s1 ?s2] False kp b(2) by simp
    qed
  qed
qed

lemma owner_append: "owner (xs @ ys) a = (case owner xs a of None \<Rightarrow> owner ys a | Some al \<Rightarrow> Some al)"
  by (induction xs) auto

lemma splitAt_ok:
  assumes "map_ok m"
  shows "\<exists>m'. splitAt p m = Inr m' \<and> map_ok m' \<and> owner m' = owner m \<and> cut p m'
    \<and> (\<forall>q. cut q m \<longrightarrow> cut q m')"
  using assms
proof (cases rule: splitAt_cases [of m p, case_names none split])
  case none
  with assms show ?thesis by blast
next
  case (split xs k s ys s1 s2)
  let ?m' = "xs @ (k, s1) # (p, s2) # ys"
  have chain: "chain 0 xs" "map_end 0 xs \<le> k" "k + uint (slice_size s) < 2 ^ 63"
    "chain (k + uint (slice_size s)) ys"
    using assms split(1) by (auto simp: map_ok_def chain_append)
  have "map_ok ?m'"
    using chain split by (auto simp: map_ok_def chain_append)
  moreover have "owner ?m' = owner m"
    using split by (intro ext) (auto simp: owner_append split: option.split)
  moreover have "cut p ?m'"
    using chain_bounds(5) [OF chain(1)] chain_bounds(1) [OF chain(4)] chain(2) split by (fastforce simp: cut_def)
  moreover have "\<forall>q. cut q m \<longrightarrow> cut q ?m'"
    using split by (auto simp: cut_def)
  ultimately show ?thesis using split(10) by blast
qed

text \<open>Erasing a range of keys that no slice straddles.\<close>

lemma chain_tail:
  assumes "chain b ((k, s) # m)" and "(k', s') \<in> set m"
  shows "k < k'"
proof -
  from assms(1) have "chain (k + uint (slice_size s)) m" "0 < uint (slice_size s)" by auto
  with chain_bounds(1) [OF _ assms(2)] show "k < k'" by fastforce
qed

lemma filter_above:
  assumes "chain b ((k, s) # m)" and "p \<le> k"
  shows "filter (\<lambda>(k, _). k < p) m = []" "filter (\<lambda>(k, _). p \<le> k) m = m"
  using chain_tail [OF assms(1)] assms(2) by (fastforce simp: filter_empty_conv filter_id_conv)+

lemma sorted_parts:
  assumes "chain b m"
  shows "takeWhile (\<lambda>(k, _). k < p) m = filter (\<lambda>(k, _). k < p) m
    \<and> dropWhile (\<lambda>(k, _). k < p) m = filter (\<lambda>(k, _). p \<le> k) m"
  using assms
proof (induction b m rule: chain.induct)
  case (2 b k s m)
  then show ?case using filter_above [OF 2(2), of p] by (cases "k < p") simp_all
qed simp

lemma cut_parts:
  assumes "chain b m"
  shows "take (lower_bound m p) m = filter (\<lambda>(k, _). k < p) m"
    "drop (lower_bound m p) m = filter (\<lambda>(k, _). p \<le> k) m"
    "lower_bound m p = length (filter (\<lambda>(k, _). k < p) m)"
  using sorted_parts [OF assms, of p]
  unfolding lower_bound_def takeWhile_eq_take [symmetric] dropWhile_eq_drop [symmetric] by simp_all

lemma filter_range:
  assumes "chain b m" and "lo \<le> hi"
  shows "filter (\<lambda>(k, _). k < lo) m @ filter (\<lambda>(k, _). hi \<le> k) m
    = filter (\<lambda>(k, _). k < lo \<or> hi \<le> k) m"
  using assms(1)
proof (induction b m rule: chain.induct)
  case (2 b k s m)
  show ?case
  proof (cases "k < lo")
    case True
    then have "\<not> hi \<le> k" using assms(2) by simp
    with 2 True show ?thesis by simp
  next
    case False
    then have "filter (\<lambda>(k, _). k < lo) m = []" using filter_above(1) [OF 2(2), of lo] by simp
    moreover from this 2 have "filter (\<lambda>(k, _). hi \<le> k) m = filter (\<lambda>(k, _). k < lo \<or> hi \<le> k) m" by simp
    ultimately show ?thesis using False assms(2) by simp
  qed
qed simp

lemma chain_filter: "chain b m \<Longrightarrow> chain b (filter P m)"
proof (induction b m rule: chain.induct)
  case (2 b k s m)
  then have "chain (k + uint (slice_size s)) (filter P m)" by simp
  moreover have "b \<le> k + uint (slice_size s)" using 2(2) by auto
  ultimately show ?case using 2(2) by (auto intro: chain_mono)
qed simp

lemma lower_bound_count:
  assumes "chain b m" and "lo \<le> hi"
  shows "lower_bound m hi = lower_bound m lo + length (filter (\<lambda>(k, _). lo \<le> k \<and> k < hi) m)"
proof -
  have "length (filter (\<lambda>(k, _). k < hi) xs) =
      length (filter (\<lambda>(k, _). k < lo) xs) + length (filter (\<lambda>(k, _). lo \<le> k \<and> k < hi) xs)"
    for xs :: MemoryMap using assms(2) by (induction xs) auto
  then show ?thesis by (simp add: cut_parts(3) [OF assms(1)])
qed

lemma erase_range:
  assumes "map_ok m" and "cut lo m" and "cut hi m" and "lo \<le> hi"
  defines "m' \<equiv> take (lower_bound m lo) m @ drop (lower_bound m hi) m"
  shows "lower_bound m lo \<le> lower_bound m hi" "map_ok m'"
    "owner m' a = (if lo \<le> a \<and> a < hi then None else owner m a)"
    "lower_bound m lo \<noteq> lower_bound m hi \<longleftrightarrow> (\<exists>a. lo \<le> a \<and> a < hi \<and> owner m a \<noteq> None)"
proof -
  have chain: "chain 0 m" using assms(1) by (simp add: map_ok_def)
  have m': "m' = filter (\<lambda>(k, _). k < lo \<or> hi \<le> k) m"
    using filter_range [OF chain assms(4)] by (simp add: m'_def cut_parts(1,2) [OF chain])
  have chain': "chain 0 m'" unfolding m' by (rule chain_filter [OF chain])
  then show "map_ok m'" by (simp add: map_ok_def)
  have in_range: "(lo \<le> k \<and> k < hi) \<longleftrightarrow> (lo \<le> a \<and> a < hi)"
    if "(k, s) \<in> set m" "k \<le> a" "a < k + uint (slice_size s)" for k s a
    using that assms(2,3) unfolding cut_def by fastforce
  have set': "(k, s) \<in> set m' \<longleftrightarrow> (k, s) \<in> set m \<and> (k < lo \<or> hi \<le> k)" for k s
    by (auto simp: m')
  have "owner m' a = Some al \<longleftrightarrow> \<not> (lo \<le> a \<and> a < hi) \<and> owner m a = Some al" for al
  proof
    assume "owner m' a = Some al"
    then obtain k s where ks: "(k, s) \<in> set m'" "k \<le> a" "a < k + uint (slice_size s)" "slice_allocation s = al"
      using owner_iff [OF chain'] by blast
    then have mem: "(k, s) \<in> set m" and "k < lo \<or> hi \<le> k" using set' by blast+
    with in_range [OF mem ks(2,3)] have "\<not> (lo \<le> a \<and> a < hi)" by linarith
    with mem ks owner_iff [OF chain] show "\<not> (lo \<le> a \<and> a < hi) \<and> owner m a = Some al" by blast
  next
    assume a: "\<not> (lo \<le> a \<and> a < hi) \<and> owner m a = Some al"
    then obtain k s where ks: "(k, s) \<in> set m" "k \<le> a" "a < k + uint (slice_size s)" "slice_allocation s = al"
      using owner_iff [OF chain] by blast
    with in_range [OF ks(1-3)] a have "k < lo \<or> hi \<le> k" by linarith
    with ks set' owner_iff [OF chain'] show "owner m' a = Some al" by blast
  qed
  then show "owner m' a = (if lo \<le> a \<and> a < hi then None else owner m a)"
    by (intro option_eqI) simp
  note bounds = lower_bound_count [OF chain assms(4)]
  show "lower_bound m lo \<le> lower_bound m hi" using bounds by simp
  have "lower_bound m lo \<noteq> lower_bound m hi \<longleftrightarrow> (\<exists>(k, s) \<in> set m. lo \<le> k \<and> k < hi)"
    using bounds by (auto simp: filter_empty_conv)
  also have "\<dots> \<longleftrightarrow> (\<exists>a. lo \<le> a \<and> a < hi \<and> owner m a \<noteq> None)"
  proof
    assume "\<exists>(k, s) \<in> set m. lo \<le> k \<and> k < hi"
    then obtain k s where ks: "(k, s) \<in> set m" "lo \<le> k" "k < hi" by blast
    have "owner m k \<noteq> None"
      using ks(1) chain_bounds(3) [OF chain ks(1)] owner_iff [OF chain, of k "slice_allocation s"] by force
    with ks show "\<exists>a. lo \<le> a \<and> a < hi \<and> owner m a \<noteq> None" by blast
  next
    assume "\<exists>a. lo \<le> a \<and> a < hi \<and> owner m a \<noteq> None"
    then obtain a al where a: "lo \<le> a" "a < hi" "owner m a = Some al" by blast
    then obtain k s where "(k, s) \<in> set m" "k \<le> a" "a < k + uint (slice_size s)"
      using owner_iff [OF chain] by blast
    with in_range a show "\<exists>(k, s) \<in> set m. lo \<le> k \<and> k < hi" by blast
  qed
  finally show "lower_bound m lo \<noteq> lower_bound m hi \<longleftrightarrow> (\<exists>a. lo \<le> a \<and> a < hi \<and> owner m a \<noteq> None)" .
qed

section \<open>The operations on the abstract map\<close>

lemma registerUnmap_spec:
  assumes "map_ok m" and "0 \<le> start" and "start + uint n < 2 ^ 63"
  shows "\<exists>b m'. registerUnmap start n m = Inr (b, m') \<and> map_ok m'
    \<and> owner m' = (\<lambda>a. if start \<le> a \<and> a < start + uint n then None else owner m a)
    \<and> (b \<longleftrightarrow> (\<exists>a. start \<le> a \<and> a < start + uint n \<and> owner m a \<noteq> None))"
proof -
  let ?stop = "start + uint n"
  have stop_eq: "ptr_plus start n = ?stop" using assms(2,3) by (rule ptr_plus_eq)
  have le: "start \<le> ?stop" by simp
  obtain m1 where m1: "splitAt start m = Inr m1" "map_ok m1" "owner m1 = owner m" "cut start m1"
    using splitAt_ok [OF assms(1), of start] by blast
  obtain m2 where m2: "splitAt ?stop m1 = Inr m2" "map_ok m2" "owner m2 = owner m1" "cut ?stop m2" "cut start m2"
    using splitAt_ok [OF m1(2), of ?stop] m1(4) by blast
  note erase = erase_range [OF m2(2,5,4) le]
  let ?m' = "take (lower_bound m2 start) m2 @ drop (lower_bound m2 ?stop) m2"
  have "registerUnmap start n m = Inr (lower_bound m2 start \<noteq> lower_bound m2 ?stop, ?m')"
    using m1(1) m2(1) erase(1) by (simp add: registerUnmap_def Let_def stop_eq)
  moreover have "owner ?m' = (\<lambda>a. if start \<le> a \<and> a < ?stop then None else owner m a)"
    using erase(3) m1(3) m2(3) by auto
  moreover have "lower_bound m2 start \<noteq> lower_bound m2 ?stop
      \<longleftrightarrow> (\<exists>a. start \<le> a \<and> a < ?stop \<and> owner m a \<noteq> None)"
    using erase(4) by (simp only: m1(3) m2(3))
  ultimately show ?thesis using erase(2) by (intro exI conjI) assumption+
qed

text \<open>The slice of a new mapping goes between the slices before and behind its region.\<close>

lemma free_region_between:
  assumes "map_ok m" and "0 < n" and free: "\<And>x. p \<le> x \<Longrightarrow> x < p + n \<Longrightarrow> owner m x = None"
  obtains xs ys where "m = xs @ ys" "\<forall>(k, s) \<in> set xs. k < p" "\<forall>(k, s) \<in> set xs. k + uint (slice_size s) \<le> p"
    "\<forall>(k, s) \<in> set ys. p < k" "\<forall>(k, s) \<in> set ys. p + n \<le> k"
proof -
  have chain: "chain 0 m" using assms(1) by (simp add: map_ok_def)
  obtain xs ys where m: "m = xs @ ys" and small: "\<forall>(k, s) \<in> set xs. k \<le> p" and large: "\<forall>(k, s) \<in> set ys. p < k"
    using chain_split [OF chain, of p] by metis
  have own: "owner m x \<noteq> None" if "(k, s) \<in> set m" "k \<le> x" "x < k + uint (slice_size s)" for k s x
    using that owner_iff [OF chain, of x "slice_allocation s"] by force
  have below: "k + uint (slice_size s) \<le> p" if "(k, s) \<in> set xs" for k s
    using own [of k s p] free [of p] assms(2) that small m by force
  have above: "p + n \<le> k" if "(k, s) \<in> set ys" for k s
    using own [of k s k] free [of k] chain_bounds(3) [OF chain, of k s] that large m by force
  have "chain 0 xs" using chain m by (simp add: chain_append)
  then have "\<forall>(k, s) \<in> set xs. k < p" using below chain_bounds(3) [of 0 xs] by fastforce
  then show ?thesis using that [OF m] large below above by blast
qed

lemma registerMap_spec:
  assumes ok: "map_ok m" and region: "0 \<le> originalStart a" "0 < uint (originalSize a)"
    "originalStart a + uint (originalSize a) < 2 ^ 63"
    and free: "\<And>x. originalStart a \<le> x \<Longrightarrow> x < originalStart a + uint (originalSize a) \<Longrightarrow> owner m x = None"
  shows "map_ok (registerMap a m)"
    and "owner (registerMap a m) =
      (\<lambda>x. if originalStart a \<le> x \<and> x < originalStart a + uint (originalSize a) then Some a else owner m x)"
proof -
  let ?p = "originalStart a" and ?n = "uint (originalSize a)"
  let ?s = "\<lparr>slice_start = ?p, slice_size = originalSize a, slice_allocation = a\<rparr>"
  have chain: "chain 0 m" using ok by (simp add: map_ok_def)
  obtain xs ys where m: "m = xs @ ys" and strict: "\<forall>(k, s) \<in> set xs. k < ?p"
    and below: "\<forall>(k, s) \<in> set xs. k + uint (slice_size s) \<le> ?p"
    and large: "\<forall>(k, s) \<in> set ys. ?p < k" and above: "\<forall>(k, s) \<in> set ys. ?p + ?n \<le> k"
    using free_region_between [OF ok region(2) free] .
  have xs: "chain 0 xs" and ys: "chain (map_end 0 xs) ys" using chain m by (simp_all add: chain_append)
  have insert: "registerMap a m = xs @ (?p, ?s) # ys"
    unfolding registerMap_def m using strict large by (rule om_insert_between)
  have "map_end 0 xs \<le> ?p"
  proof (cases xs rule: rev_cases)
    case (snoc zs z)
    then show ?thesis using below by (cases z) simp
  qed (use region in simp)
  moreover have "chain (?p + ?n) ys"
  proof (cases ys)
    case (Cons z zs)
    then show ?thesis using ys above by (cases z) simp
  qed simp
  ultimately show ok': "map_ok (registerMap a m)"
    using xs region by (simp add: insert map_ok_def chain_append)
  show "owner (registerMap a m) = (\<lambda>x. if ?p \<le> x \<and> x < ?p + ?n then Some a else owner m x)"
  proof
    fix x
    have "owner xs x = None" if "?p \<le> x" "x < ?p + ?n"
      using free [OF that] by (simp add: m owner_append split: option.splits)
    then show "owner (registerMap a m) x = (if ?p \<le> x \<and> x < ?p + ?n then Some a else owner m x)"
      unfolding insert by (auto simp: m owner_append split: option.split)
  qed
qed

text \<open>
  The contract of the map, for the wrappers that use it: what is mapped after each of its two
  operations.
\<close>

locale address_map =
  fixes own :: "'m \<Rightarrow> int \<Rightarrow> 'a option"
    and add :: "'a \<Rightarrow> 'm \<Rightarrow> 'm"
    and remove :: "int \<Rightarrow> uint64 \<Rightarrow> 'm \<Rightarrow> (bool \<times> 'm) outcome"
    and ok :: "'m \<Rightarrow> bool"
    and base :: "'a \<Rightarrow> int"
    and len :: "'a \<Rightarrow> uint64"
  assumes remove_spec: "ok m \<Longrightarrow> 0 \<le> p \<Longrightarrow> p + uint n < 2 ^ 63 \<Longrightarrow>
      \<exists>b m'. remove p n m = Inr (b, m') \<and> ok m'
        \<and> own m' = (\<lambda>x. if p \<le> x \<and> x < p + uint n then None else own m x)
        \<and> (b \<longleftrightarrow> (\<exists>x. p \<le> x \<and> x < p + uint n \<and> own m x \<noteq> None))"
    and add_ok: "ok m \<Longrightarrow> 0 \<le> base a \<Longrightarrow> 0 < uint (len a) \<Longrightarrow> base a + uint (len a) < 2 ^ 63 \<Longrightarrow>
      (\<And>x. base a \<le> x \<Longrightarrow> x < base a + uint (len a) \<Longrightarrow> own m x = None) \<Longrightarrow> ok (add a m)"
    and add_own: "ok m \<Longrightarrow> 0 \<le> base a \<Longrightarrow> 0 < uint (len a) \<Longrightarrow> base a + uint (len a) < 2 ^ 63 \<Longrightarrow>
      (\<And>x. base a \<le> x \<Longrightarrow> x < base a + uint (len a) \<Longrightarrow> own m x = None) \<Longrightarrow>
      own (add a m) = (\<lambda>x. if base a \<le> x \<and> x < base a + uint (len a) then Some a else own m x)"
begin

lemma add_remove:
  assumes "ok m" and "0 \<le> base a" and "0 < uint (len a)" and "base a + uint (len a) < 2 ^ 63"
    and "\<And>x. base a \<le> x \<Longrightarrow> x < base a + uint (len a) \<Longrightarrow> own m x = None"
  shows "\<exists>m'. remove (base a) (len a) (add a m) = Inr (True, m') \<and> ok m' \<and> own m' = own m"
proof -
  note add = add_ok [OF assms] add_own [OF assms]
  from remove_spec [OF add(1) assms(2,4)] obtain b m' where m': "remove (base a) (len a) (add a m) = Inr (b, m')"
    "ok m'" "own m' = (\<lambda>x. if base a \<le> x \<and> x < base a + uint (len a) then None else own (add a m) x)"
    and b: "b \<longleftrightarrow> (\<exists>x. base a \<le> x \<and> x < base a + uint (len a) \<and> own (add a m) x \<noteq> None)" by blast
  have "own m' = own m" using assms(5) by (intro ext) (simp add: m'(3) add(2))
  moreover have b unfolding b using assms(3) by (intro exI [of _ "base a"]) (simp add: add(2))
  ultimately show ?thesis using m'(1,2) by auto
qed

lemma remove_removed:
  assumes "ok m" and "0 \<le> p" and "p + uint n < 2 ^ 63" and "remove p n m = Inr (b, m')"
  shows "\<exists>m''. remove p n m' = Inr (False, m'') \<and> own m'' = own m'"
proof -
  from remove_spec [OF assms(1-3)] assms(4) have ok: "ok m'"
    and own: "own m' = (\<lambda>x. if p \<le> x \<and> x < p + uint n then None else own m x)" by auto
  from remove_spec [OF ok assms(2,3)] own show ?thesis by (auto simp: fun_eq_iff)
qed

end

interpretation mm: address_map owner registerMap registerUnmap map_ok originalStart originalSize
  by unfold_locales (rule registerUnmap_spec registerMap_spec; assumption)+

text \<open>
  C16. Unmapping a range removes exactly that range from the known mappings, cutting the slices it
  overlaps partly, wherever its bounds fall; it reports whether any address of the range was
  known, and its assertions hold.
\<close>

theorem registerUnmap_restricts:
  assumes "map_ok m" and "0 \<le> start" and "start + uint n < 2 ^ 63"
  shows "\<exists>b m'. registerUnmap start n m = Inr (b, m') \<and> map_ok m'
    \<and> (\<forall>a. owner m' a = (if start \<le> a \<and> a < start + uint n then None else owner m a))
    \<and> (b \<longleftrightarrow> (\<exists>a. start \<le> a \<and> a < start + uint n \<and> owner m a \<noteq> None))"
  using mm.remove_spec [OF assms] by (metis (no_types, lifting))

definition sample_mapping :: MMapAllocation where
  "sample_mapping = \<lparr>identity = 1, stackTraceHandle = 1, originalStart = 4096, originalSize = 12288\<rparr>"

definition sample_map :: MemoryMap where
  "sample_map = registerMap sample_mapping []"

lemma sample_map_ok: "map_ok sample_map"
  by (simp add: sample_map_def map_ok_def registerMap_def sample_mapping_def)

theorem registerUnmap_restricts_witness:
  "\<exists>b m'. registerUnmap 8192 4096 sample_map = Inr (b, m') \<and> b \<and> owner m' 8192 = None
    \<and> owner m' 4096 = Some sample_mapping \<and> owner m' 12288 = Some sample_mapping"
proof -
  have "owner sample_map a = (if 4096 \<le> a \<and> a < 16384 then Some sample_mapping else None)" for a
    by (simp add: sample_map_def registerMap_def sample_mapping_def)
  with registerUnmap_restricts [OF sample_map_ok, of 8192 4096] show ?thesis by fastforce
qed

text \<open>
  Mapping a region and unmapping it again leaves the known mappings as they were, and the
  unmapping is reported as one of known memory.
\<close>

theorem map_unmap_roundtrip:
  assumes "map_ok m" and "0 \<le> originalStart a" and "0 < uint (originalSize a)"
    and "originalStart a + uint (originalSize a) < 2 ^ 63"
    and "\<And>x. originalStart a \<le> x \<Longrightarrow> x < originalStart a + uint (originalSize a) \<Longrightarrow> owner m x = None"
  shows "\<exists>m'. registerUnmap (originalStart a) (originalSize a) (registerMap a m) = Inr (True, m')
    \<and> map_ok m' \<and> owner m' = owner m"
  using assms by (rule mm.add_remove)

theorem map_unmap_roundtrip_witness:
  "\<exists>m'. registerUnmap 65536 4096 (registerMap \<lparr>identity = 2, stackTraceHandle = 2, originalStart = 65536, originalSize = 4096\<rparr>
      sample_map) = Inr (True, m') \<and> owner m' 65536 = None"
proof -
  have "owner sample_map a = (if 4096 \<le> a \<and> a < 16384 then Some sample_mapping else None)" for a
    by (simp add: sample_map_def registerMap_def sample_mapping_def)
  with map_unmap_roundtrip [OF sample_map_ok, of "\<lparr>identity = 2, stackTraceHandle = 2, originalStart = 65536, originalSize = 4096\<rparr>"]
  show ?thesis by (auto simp: fun_eq_iff)
qed

text \<open>
  Mapping over a known slice (which mmap allows with a fixed address) is lost: the insertion
  keeps the old slice, so the range goes on being attributed to the old allocation.
\<close>

theorem registerMap_keeps_stale_slice:
  assumes "map_ok m" and "(originalStart a, s) \<in> set m"
  shows "registerMap a m = m \<and> owner (registerMap a m) (originalStart a) = Some (slice_allocation s)"
proof -
  have "om_insert k v m = m" if "chain b m" "(k, s) \<in> set m" for b k v
    using that
  proof (induction b m rule: chain.induct)
    case (2 b k' s' m)
    then show ?case using chain_tail [OF 2(2), of k s] by (cases "k = k'") auto
  qed simp
  then have "registerMap a m = m"
    using assms by (auto simp: registerMap_def map_ok_def)
  moreover have "owner m (originalStart a) = Some (slice_allocation s)"
    using owner_iff [of 0 m] chain_bounds(3) [of 0 m] assms by (fastforce simp: map_ok_def)
  ultimately show ?thesis by simp
qed

theorem registerMap_keeps_stale_slice_witness:
  "owner (registerMap (sample_mapping\<lparr>stackTraceHandle := 2, originalSize := 4096\<rparr>) sample_map) 4096
     = Some sample_mapping"
proof -
  let ?a = "sample_mapping\<lparr>stackTraceHandle := 2, originalSize := 4096\<rparr>"
  have "(originalStart ?a, \<lparr>slice_start = 4096, slice_size = 12288, slice_allocation = sample_mapping\<rparr>)
      \<in> set sample_map"
    by (simp add: sample_map_def registerMap_def sample_mapping_def)
  note stale = registerMap_keeps_stale_slice [OF sample_map_ok this, THEN conjunct2]
  have "originalStart ?a = 4096" "slice_allocation \<lparr>slice_start = 4096, slice_size = 12288,
      slice_allocation = sample_mapping\<rparr> = sample_mapping" by (simp_all add: sample_mapping_def)
  with stale show ?thesis by (simp only:)
qed

end
