(* ===== verification/Memory_Map_Tests.thy ===== *)
theory Memory_Map_Tests
  imports Memory_Map
begin

text \<open>
  \<^verbatim>\<open>mmap-counter-tests/test-memory-map.cpp\<close>: the program's own unit tests of the memory map, run
  on the model. A test is the list of its calls and expectations; a call that faults and an
  expectation that fails (a missing key included) fail the test. Objects get fresh identities
  in the order they are made; the tests do not look at them or at stack traces.
\<close>

section \<open>Running a test\<close>

datatype TestStep = DoMap int int | DoUnmap int uint64 | DoSplit int
  | ExpectSize nat | ExpectFound int | ExpectStart int int | ExpectSliceSize int uint64 | ExpectEnd int int

definition expect_at :: "MemoryMap \<Rightarrow> int \<Rightarrow> (MemorySlice \<Rightarrow> bool) \<Rightarrow> bool" where
  "expect_at m k P = (case map_of m k of None \<Rightarrow> False | Some s \<Rightarrow> P s)"

fun run_test :: "TestStep list \<Rightarrow> nat \<Rightarrow> MemoryMap \<Rightarrow> bool" where
  "run_test [] i m = True"
| "run_test (DoMap a n # ts) i m = run_test ts (i + 1) (registerMap (MMapAllocation_construct i 0 a n) m)"
| "run_test (DoUnmap a n # ts) i m = (case registerUnmap a n m of Inl _ \<Rightarrow> False | Inr (_, m') \<Rightarrow> run_test ts i m')"
| "run_test (DoSplit a # ts) i m = (case splitAt a m of Inl _ \<Rightarrow> False | Inr m' \<Rightarrow> run_test ts i m')"
| "run_test (ExpectSize n # ts) i m = (length m = n \<and> run_test ts i m)"
| "run_test (ExpectFound k # ts) i m = (expect_at m k (\<lambda>_. True) \<and> run_test ts i m)"
| "run_test (ExpectStart k x # ts) i m = (expect_at m k (\<lambda>s. slice_start s = x) \<and> run_test ts i m)"
| "run_test (ExpectSliceSize k x # ts) i m = (expect_at m k (\<lambda>s. slice_size s = x) \<and> run_test ts i m)"
| "run_test (ExpectEnd k x # ts) i m = (expect_at m k (\<lambda>s. slice_end s = x) \<and> run_test ts i m)"

section \<open>The tests\<close>

definition test_RangesAreStored :: "TestStep list" where
  "test_RangesAreStored = [DoMap 10 20, ExpectSize 1, ExpectFound 10, ExpectStart 10 10,
     ExpectSliceSize 10 20, ExpectEnd 10 30]"

definition test_SplittingInTheMiddle :: "TestStep list" where
  "test_SplittingInTheMiddle = [DoMap 10 20, ExpectSize 1, DoSplit 20, ExpectSize 2,
     ExpectStart 10 10, ExpectEnd 10 20, ExpectStart 20 20, ExpectEnd 20 30]"

definition test_SplittingOutside :: "TestStep list" where
  "test_SplittingOutside = [DoMap 10 20, ExpectSize 1, DoSplit 5, ExpectSize 1, DoSplit 35,
     ExpectSize 1, DoSplit 30, ExpectSize 1, DoSplit 10, ExpectSize 1]"

definition test_SimpleDeallocation :: "TestStep list" where
  "test_SimpleDeallocation = [DoMap 10 20, ExpectSize 1, DoUnmap 10 20, ExpectSize 0]"

definition test_PartialDeallocationMiddle :: "TestStep list" where
  "test_PartialDeallocationMiddle = [DoMap 10 20, ExpectSize 1, DoUnmap 15 5, ExpectSize 2,
     ExpectStart 10 10, ExpectEnd 10 15, ExpectStart 20 20, ExpectEnd 20 30]"

definition test_PartialDeallocationStart :: "TestStep list" where
  "test_PartialDeallocationStart = [DoMap 10 20, ExpectSize 1, DoUnmap 10 5, ExpectSize 1,
     ExpectStart 15 15, ExpectEnd 15 30]"

definition test_PartialDeallocationEnd :: "TestStep list" where
  "test_PartialDeallocationEnd = [DoMap 10 20, ExpectSize 1, DoUnmap 25 5, ExpectSize 1,
     ExpectStart 10 10, ExpectEnd 10 25]"

definition test_OuterDeallocation :: "TestStep list" where
  "test_OuterDeallocation = [DoMap 10 20, ExpectSize 1, DoUnmap 5 30, ExpectSize 0]"

definition test_DoubleDeallocation :: "TestStep list" where
  "test_DoubleDeallocation = [DoMap 10 20, DoMap 0 10, ExpectSize 2, DoUnmap 0 30, ExpectSize 0]"

definition test_OuterDoubleDeallocation :: "TestStep list" where
  "test_OuterDoubleDeallocation = [DoMap 20 20, DoMap 10 10, DoMap 1 5, ExpectSize 3, DoUnmap 7 50,
     ExpectSize 1, ExpectStart 1 1, ExpectEnd 1 6]"

definition test_DoubleDeallocationPartialStart :: "TestStep list" where
  "test_DoubleDeallocationPartialStart = [DoMap 10 20, DoMap 0 10, ExpectSize 2, DoUnmap 0 15,
     ExpectSize 1, ExpectStart 15 15, ExpectEnd 15 30]"

definition test_DoubleDeallocationWithHolePartialStart :: "TestStep list" where
  "test_DoubleDeallocationWithHolePartialStart = [DoMap 10 20, DoMap 0 5, ExpectSize 2,
     DoUnmap 0 15, ExpectSize 1, ExpectStart 15 15, ExpectEnd 15 30]"

definition test_DoubleDeallocationPartialEnd :: "TestStep list" where
  "test_DoubleDeallocationPartialEnd = [DoMap 10 20, DoMap 0 10, ExpectSize 2, DoUnmap 0 25,
     ExpectSize 1, ExpectStart 25 25, ExpectEnd 25 30]"

definition test_DoubleDeallocationWithHolePartialEnd :: "TestStep list" where
  "test_DoubleDeallocationWithHolePartialEnd = [DoMap 10 20, DoMap 0 5, ExpectSize 2, DoUnmap 0 25,
     ExpectSize 1, ExpectStart 25 25, ExpectEnd 25 30]"

section \<open>They pass\<close>

text \<open>
  Every unit test the repository has for the memory map passes on the model: the definitions
  do on these inputs what the authors say the code does.
\<close>

theorem unit_tests_pass:
  "list_all (\<lambda>t. run_test t 0 []) [test_RangesAreStored, test_SplittingInTheMiddle, test_SplittingOutside, 
    test_SimpleDeallocation, test_PartialDeallocationMiddle, test_PartialDeallocationStart, 
    test_PartialDeallocationEnd, test_OuterDeallocation, test_DoubleDeallocation, 
    test_OuterDoubleDeallocation, test_DoubleDeallocationPartialStart, test_DoubleDeallocationWithHolePartialStart, 
    test_DoubleDeallocationPartialEnd, test_DoubleDeallocationWithHolePartialEnd]"
  by code_simp

end
