(* ===== verification/Memory_Protector.thy ===== *)
theory Memory_Protector
  imports Environment
begin

text \<open>
  \<^verbatim>\<open>alloc-counter/memory-protector.h\<close>: ranges of memory whose first access runs a callback. The
  state is the set of watched ranges (a std::set ordered by start, kept as a list), the pages
  without access rights, and the callbacks run so far; a callback is its number. mprotect changes
  the rights of the pages a range touches or fails; whether it succeeds is a parameter. A fault
  of the application, the handler and the retried access are steps on this state and on the
  thread's two handler variables. When the handler faults itself it restores the old
  action and raises the signal, which ends the process (the default action); the line it may
  write to stderr before is not part of the model.
\<close>

section \<open>Ranges\<close>

record PointerRange =
  range_start :: ptr
  range_end :: ptr
  onAccess :: nat

definition range_size :: "PointerRange \<Rightarrow> uint64" where
  "range_size r = range_end r - range_start r"

definition in_range :: "ptr \<Rightarrow> PointerRange \<Rightarrow> bool" where
  "in_range p r \<longleftrightarrow> range_start r \<le> p \<and> p < range_end r"

fun findContainingPointer :: "ptr \<Rightarrow> PointerRange list \<Rightarrow> PointerRange option" where
  "findContainingPointer p [] = None"
| "findContainingPointer p (r # rs) = (if in_range p r then Some r else findContainingPointer p rs)"

fun contains :: "ptr \<Rightarrow> PointerRange list \<Rightarrow> bool" where
  "contains p [] = False"
| "contains p (r # rs) = (if in_range p r then True else contains p rs)"

fun insert_range :: "PointerRange \<Rightarrow> PointerRange list \<Rightarrow> PointerRange list" where
  "insert_range r [] = [r]"
| "insert_range r (r' # rs) =
     (if range_start r < range_start r' then r # r' # rs
      else if range_start r = range_start r' then r' # rs
      else r' # insert_range r rs)"

definition erase_range_at :: "ptr \<Rightarrow> PointerRange list \<Rightarrow> PointerRange list" where
  "erase_range_at p rs = filter (\<lambda>r. range_start r \<noteq> p) rs"

section \<open>The protector\<close>

record MemoryProtector =
  m_watchedPages :: "PointerRange list"
  no_access :: "ptr \<Rightarrow> bool"
  callbacks :: "nat list"

record HandlerThread =
  insideSegfaultHandler :: bool
  accessedAddressParentHandler :: ptr

text \<open>
  The constructor installs the handler with every signal blocked while it runs except the ones a bug in
  the handler itself would raise, and without deferring SIGSEGV; the singleton is created once.
\<close>

record SigAction =
  sa_siginfo :: bool
  sa_nodefer :: bool
  sa_mask :: "string list \<Rightarrow> string list"

definition handler_mask :: "string list \<Rightarrow> string list" where
  "handler_mask signals = foldl (\<lambda>mask s. removeAll s mask) signals
     [''SIGILL'', ''SIGBUS'', ''SIGFPE'', ''SIGSEGV'', ''SIGPIPE'', ''SIGSTKFLT'']"

definition MemoryProtector_construct :: "bool \<Rightarrow> (MemoryProtector \<times> SigAction) outcome" where
  "MemoryProtector_construct sigaction_ok =
     (if sigaction_ok
      then Inr (\<lparr>m_watchedPages = [], no_access = (\<lambda>_. False), callbacks = []\<rparr>,
                \<lparr>sa_siginfo = True, sa_nodefer = True, sa_mask = handler_mask\<rparr>)
      else Inl Aborted)"

definition initialize ::
  "bool \<Rightarrow> (MemoryProtector \<times> SigAction) option \<Rightarrow> (MemoryProtector \<times> SigAction) option outcome" where
  "initialize sigaction_ok inst =
     andThen (check (inst = None) AssertionFailed) (\<lambda>_.
     andThen (MemoryProtector_construct sigaction_ok) (\<lambda>p. Inr (Some p)))"

definition instance_of :: "(MemoryProtector \<times> SigAction) option \<Rightarrow> (MemoryProtector \<times> SigAction) outcome" where
  "instance_of inst = (case inst of None \<Rightarrow> Inl AssertionFailed | Some p \<Rightarrow> Inr p)"

definition pages_touched :: "Environment \<Rightarrow> ptr \<Rightarrow> uint64 \<Rightarrow> ptr \<Rightarrow> bool" where
  "pages_touched env start n a \<longleftrightarrow> (let page = unat (pageSize env)
     in unat start \<le> unat a \<and> unat a < unat start + (unat n + page - 1) div page * page)"

definition mprotect ::
  "(ptr \<Rightarrow> uint64 \<Rightarrow> bool) \<Rightarrow> Environment \<Rightarrow> ptr \<Rightarrow> uint64 \<Rightarrow> bool \<Rightarrow> MemoryProtector \<Rightarrow> MemoryProtector outcome" where
  "mprotect succeeds env start n none s =
     (if succeeds start n
      then Inr (s\<lparr>no_access := (\<lambda>a. if pages_touched env start n a then none else no_access s a)\<rparr>)
      else Inl Aborted)"

definition page_aligned :: "Environment \<Rightarrow> ptr \<Rightarrow> bool" where
  "page_aligned env start \<longleftrightarrow> start = and start (to_uint64 (not (pageSize env - 1)))"

definition watchRange ::
  "(ptr \<Rightarrow> uint64 \<Rightarrow> bool) \<Rightarrow> Environment \<Rightarrow> ptr \<Rightarrow> uint64 \<Rightarrow> nat \<Rightarrow> MemoryProtector \<Rightarrow> MemoryProtector outcome" where
  "watchRange succeeds env start n cb s =
     andThen (check (page_aligned env start) AssertionFailed) (\<lambda>_.
     andThen (check (\<not> contains start (m_watchedPages s)) AssertionFailed) (\<lambda>_.
     andThen (check (\<not> contains (start + n) (m_watchedPages s)) AssertionFailed) (\<lambda>_.
     let allocationRange = \<lparr>range_start = start, range_end = start + n, onAccess = cb\<rparr>
     in mprotect succeeds env start n True
          (s\<lparr>m_watchedPages := insert_range allocationRange (m_watchedPages s)\<rparr>))))"

definition removeWatch ::
  "(ptr \<Rightarrow> uint64 \<Rightarrow> bool) \<Rightarrow> Environment \<Rightarrow> ptr \<Rightarrow> MemoryProtector \<Rightarrow> MemoryProtector outcome" where
  "removeWatch succeeds env start s =
     (case findContainingPointer start (m_watchedPages s) of
        None \<Rightarrow> Inr s
      | Some r \<Rightarrow> andThen (mprotect succeeds env (range_start r) (range_size r) False s) (\<lambda>s'.
          Inr (s'\<lparr>m_watchedPages := erase_range_at (range_start r) (m_watchedPages s')\<rparr>)))"

definition segfaultHandler ::
  "(ptr \<Rightarrow> uint64 \<Rightarrow> bool) \<Rightarrow> (ptr \<Rightarrow> bool) \<Rightarrow> Environment \<Rightarrow> ptr \<Rightarrow> HandlerThread \<Rightarrow> MemoryProtector \<Rightarrow>
     (HandlerThread \<times> MemoryProtector) outcome" where
  "segfaultHandler succeeds mapped env accessedAddress t s =
     (if insideSegfaultHandler t then Inl Aborted
      else let t' = t\<lparr>insideSegfaultHandler := True, accessedAddressParentHandler := accessedAddress\<rparr>
           in andThen (case findContainingPointer accessedAddress (m_watchedPages s) of
                Some r \<Rightarrow> andThen (mprotect succeeds env (range_start r) (range_size r) False s) (\<lambda>s1.
                  let s2 = s1\<lparr>callbacks := callbacks s1 @ [onAccess r]\<rparr>
                  in Inr (s2\<lparr>m_watchedPages := erase_range_at (range_start r) (m_watchedPages s2)\<rparr>))
              | None \<Rightarrow> if mapped accessedAddress \<and> \<not> no_access s accessedAddress then Inr s
                        else Inl Aborted)
              (\<lambda>s'. Inr (t'\<lparr>insideSegfaultHandler := False\<rparr>, s')))"

text \<open>
  An access by the application: it goes through, or faults into the handler and is retried when
  the handler returns; an access that still faults is reported as None.
\<close>

definition app_access ::
  "(ptr \<Rightarrow> uint64 \<Rightarrow> bool) \<Rightarrow> (ptr \<Rightarrow> bool) \<Rightarrow> Environment \<Rightarrow> ptr \<Rightarrow> HandlerThread \<Rightarrow> MemoryProtector \<Rightarrow>
     (HandlerThread \<times> MemoryProtector) option outcome" where
  "app_access succeeds mapped env a t s =
     (if mapped a \<and> \<not> no_access s a then Inr (Some (t, s))
      else andThen (segfaultHandler succeeds mapped env a t s) (\<lambda>(t', s').
        Inr (if mapped a \<and> \<not> no_access s' a then Some (t', s') else None)))"

section \<open>Watched ranges are exactly the pages without access\<close>

definition ranges_ok :: "nat \<Rightarrow> PointerRange list \<Rightarrow> bool" where
  "ranges_ok k rs \<longleftrightarrow> sorted_wrt (\<lambda>a b. range_end a \<le> range_start b) rs
     \<and> (\<forall>r \<in> set rs. range_start r < range_end r \<and> 2 ^ k dvd unat (range_start r) \<and> 2 ^ k dvd unat (range_end r))"

definition protector_ok :: "nat \<Rightarrow> MemoryProtector \<Rightarrow> bool" where
  "protector_ok k s \<longleftrightarrow> ranges_ok k (m_watchedPages s)
     \<and> (\<forall>a. no_access s a \<longleftrightarrow> contains a (m_watchedPages s))"

lemma contains_iff: "contains p rs \<longleftrightarrow> (\<exists>r \<in> set rs. in_range p r)"
  by (induction rs) auto

lemma find_Some: "findContainingPointer p rs = Some r \<Longrightarrow> r \<in> set rs \<and> in_range p r"
  by (induction rs) (auto split: if_splits)

lemma find_None_iff: "findContainingPointer p rs = None \<longleftrightarrow> \<not> contains p rs"
  by (induction rs) auto

lemma pages_touched_range:
  assumes "page_env env k" and "range_start r < range_end r"
    and "2 ^ k dvd unat (range_start r)" and "2 ^ k dvd unat (range_end r)"
  shows "pages_touched env (range_start r) (range_size r) a \<longleftrightarrow> in_range a r"
proof -
  have le: "range_start r \<le> range_end r" using assms(2) by simp
  then have size: "unat (range_size r) = unat (range_end r) - unat (range_start r)"
    by (simp add: range_size_def unat_sub)
  then have "2 ^ k dvd unat (range_size r)" using assms(3,4) by simp
  then obtain q where q: "unat (range_size r) = 2 ^ k * q" ..
  have "2 ^ k * q + 2 ^ k - 1 = (2 ^ k - 1) + q * 2 ^ k" by (simp add: mult.commute)
  then have "(2 ^ k * q + 2 ^ k - 1) div 2 ^ k = ((2 ^ k - 1) + q * 2 ^ k) div 2 ^ k" by (simp only:)
  also have "\<dots> = q + (2 ^ k - 1) div 2 ^ k" by (rule div_mult_self1) simp
  also have "\<dots> = q" by simp
  finally have "(2 ^ k * q + 2 ^ k - 1) div 2 ^ k = q" .
  then have "(unat (range_size r) + 2 ^ k - 1) div 2 ^ k * 2 ^ k = unat (range_size r)" by (simp add: q)
  moreover have "unat (range_start r) \<le> unat (range_end r)" using le by (simp add: word_le_nat_alt)
  ultimately show ?thesis
    using assms(1) by (simp add: pages_touched_def page_env_def in_range_def word_le_nat_alt word_less_nat_alt size)
qed


lemma in_range_unique:
  assumes "ranges_ok k rs" and "r \<in> set rs" "r' \<in> set rs" and "in_range p r" "in_range p r'"
  shows "r = r'"
proof -
  have less: "\<not> (range_end a \<le> range_start b)" if "in_range p a" "in_range p b" for a b
    using that by (auto simp: in_range_def)
  from assms(1) have "sorted_wrt (\<lambda>a b. range_end a \<le> range_start b) rs" by (simp add: ranges_ok_def)
  then show ?thesis
    using assms(2,3) less [OF assms(4,5)] less [OF assms(5,4)] by (induction rs) auto
qed

lemma erase_range_set:
  assumes "ranges_ok k rs" and "r \<in> set rs"
  shows "set (erase_range_at (range_start r) rs) = set rs - {r}"
proof -
  have self: "in_range (range_start x) x" if "x \<in> set rs" for x
    using assms(1) that by (simp add: ranges_ok_def in_range_def)
  have "x = r" if "x \<in> set rs" "range_start x = range_start r" for x
    using in_range_unique [OF assms(1) that(1) assms(2), of "range_start r"] self [OF that(1)] self [OF assms(2)] that(2)
    by simp
  then show ?thesis by (auto simp: erase_range_at_def)
qed

lemma ranges_ok_erase: "ranges_ok k rs \<Longrightarrow> ranges_ok k (erase_range_at p rs)"
  by (auto simp: ranges_ok_def erase_range_at_def sorted_wrt_filter)

lemma contains_erase:
  assumes "ranges_ok k rs" and "r \<in> set rs"
  shows "contains a (erase_range_at (range_start r) rs) \<longleftrightarrow> contains a rs \<and> \<not> in_range a r"
  using in_range_unique [OF assms(1) _ assms(2), of _ a] by (auto simp: contains_iff erase_range_set [OF assms])

text \<open>Giving access back to one range and forgetting it.\<close>

lemma unprotect_erase:
  assumes ok: "protector_ok k s" and env: "page_env env k" and r: "r \<in> set (m_watchedPages s)"
    and succeeds: "succeeds (range_start r) (range_size r)"
  shows "\<exists>s'. mprotect succeeds env (range_start r) (range_size r) False s = Inr s'
    \<and> m_watchedPages s' = m_watchedPages s \<and> callbacks s' = callbacks s
    \<and> protector_ok k (s'\<lparr>callbacks := cs, m_watchedPages := erase_range_at (range_start r) (m_watchedPages s)\<rparr>)
    \<and> (\<forall>a. no_access s' a \<longleftrightarrow> no_access s a \<and> \<not> in_range a r)"
proof -
  have ranges: "ranges_ok k (m_watchedPages s)" using ok by (simp add: protector_ok_def)
  with r have "range_start r < range_end r" "2 ^ k dvd unat (range_start r)" "2 ^ k dvd unat (range_end r)"
    by (simp_all add: ranges_ok_def)
  note touched = pages_touched_range [OF env this]
  show ?thesis
    using ok succeeds touched contains_erase [OF ranges r] ranges_ok_erase [OF ranges]
    by (simp add: mprotect_def protector_ok_def)
qed

lemma insert_range_split:
  assumes "ranges_ok k rs" and "range_start r < range_end r"
    and "\<And>r'. r' \<in> set rs \<Longrightarrow> range_end r' \<le> range_start r \<or> range_end r \<le> range_start r'"
    and "2 ^ k dvd unat (range_start r)" "2 ^ k dvd unat (range_end r)"
  shows "set (insert_range r rs) = insert r (set rs) \<and> ranges_ok k (insert_range r rs)"
  using assms(1,3)
proof (induction rs)
  case Nil
  with assms show ?case by (simp add: ranges_ok_def)
next
  case (Cons r' rs)
  have r': "range_start r' < range_end r'" using Cons.prems(1) by (simp add: ranges_ok_def)
  have rs: "ranges_ok k rs" and later: "\<forall>x \<in> set rs. range_end r' \<le> range_start x"
    using Cons.prems(1) by (simp_all add: ranges_ok_def)
  have disjoint: "range_end r' \<le> range_start r \<or> range_end r \<le> range_start r'" using Cons.prems(2) by simp
  show ?case
  proof (cases "range_end r \<le> range_start r'")
    case True
    then have "range_start r < range_start r'" using assms(2) by simp
    moreover have "\<forall>x \<in> set rs. range_end r \<le> range_start x"
      using later True r' by (meson less_imp_le order_trans)
    ultimately show ?thesis using Cons.prems(1) True assms by (simp add: ranges_ok_def)
  next
    case False
    then have before: "range_end r' \<le> range_start r" using disjoint by simp
    then have "range_start r' < range_start r" using r' by simp
    moreover have "set (insert_range r rs) = insert r (set rs) \<and> ranges_ok k (insert_range r rs)"
      using Cons.IH [OF rs] Cons.prems(2) by simp
    ultimately show ?thesis using Cons.prems(1) before by (auto simp: ranges_ok_def)
  qed
qed

text \<open>A free range: of whole pages, below 4 GiB, with neither an address nor its end in a watched range.\<close>

definition watchable :: "Environment \<Rightarrow> nat \<Rightarrow> ptr \<Rightarrow> uint64 \<Rightarrow> MemoryProtector \<Rightarrow> bool" where
  "watchable env k start n s \<longleftrightarrow> page_aligned env start \<and> 2 ^ k dvd unat start \<and> 2 ^ k dvd unat n \<and> 0 < unat n
     \<and> unat start + unat n < 2 ^ 64
     \<and> (\<forall>a. start \<le> a \<longrightarrow> a \<le> start + n \<longrightarrow> \<not> contains a (m_watchedPages s))"

lemma watchRange_ok:
  assumes ok: "protector_ok k s" and env: "page_env env k" and range: "watchable env k start n s"
    and succeeds: "succeeds start n"
  shows "\<exists>s'. watchRange succeeds env start n cb s = Inr s' \<and> protector_ok k s' \<and> callbacks s' = callbacks s
    \<and> (\<forall>a. no_access s' a \<longleftrightarrow> no_access s a \<or> (start \<le> a \<and> a < start + n))
    \<and> set (m_watchedPages s') = insert \<lparr>range_start = start, range_end = start + n, onAccess = cb\<rparr> (set (m_watchedPages s))"
proof -
  let ?r = "\<lparr>range_start = start, range_end = start + n, onAccess = cb\<rparr>" and ?rs = "m_watchedPages s"
  have ranges: "ranges_ok k ?rs" using ok by (simp add: protector_ok_def)
  have n: "2 ^ k dvd unat start" "2 ^ k dvd unat n" "0 < unat n" "unat start + unat n < 2 ^ 64"
    using range by (simp_all add: watchable_def)
  have free: "\<not> contains a ?rs" if "start \<le> a" "a \<le> start + n" for a
    using range that by (simp add: watchable_def)
  have end_eq: "unat (start + n) = unat start + unat n" using n(4) by (simp add: unat_word_ariths)
  then have less: "start < start + n" using n(3) by (simp add: word_less_nat_alt)
  have disjoint: "range_end r' \<le> range_start ?r \<or> range_end ?r \<le> range_start r'" if r': "r' \<in> set ?rs" for r'
  proof (rule ccontr)
    assume "\<not> ?thesis"
    then have inside: "start < range_end r'" "range_start r' < start + n" by (simp_all add: not_le)
    have self: "in_range (range_start r') r'" using ranges r' by (simp add: ranges_ok_def in_range_def)
    show False
    proof (cases "range_start r' \<le> start")
      case True
      then have "contains start ?rs" using inside r' by (auto simp: contains_iff in_range_def)
      with free [of start] less less_imp_le [OF less] show False by simp
    next
      case False
      have "contains (range_start r') ?rs" using self r' by (auto simp: contains_iff)
      moreover have "start \<le> range_start r'" "range_start r' \<le> start + n"
        using False inside(2) by (simp_all add: not_le less_imp_le)
      ultimately show False using free [of "range_start r'"] by blast
    qed
  qed
  have "2 ^ k dvd unat (range_end ?r)" using n(1,2) by (simp add: end_eq)
  then have new: "set (insert_range ?r ?rs) = insert ?r (set ?rs)" "ranges_ok k (insert_range ?r ?rs)"
    using insert_range_split [OF ranges, of ?r] disjoint n(1) less by simp_all
  have touched: "pages_touched env start n a \<longleftrightarrow> in_range a ?r" for a
    using pages_touched_range [OF env, of ?r a] n(1) \<open>2 ^ k dvd unat (range_end ?r)\<close> less
    by (simp add: range_size_def)
  have "page_aligned env start" using range by (simp add: watchable_def)
  moreover have "\<not> contains start ?rs" "\<not> contains (start + n) ?rs" using free less_imp_le [OF less] by simp_all
  ultimately have "watchRange succeeds env start n cb s = Inr (s\<lparr>m_watchedPages := insert_range ?r ?rs,
      no_access := (\<lambda>a. if pages_touched env start n a then True else no_access s a)\<rparr>)"
    using succeeds by (simp add: watchRange_def mprotect_def Let_def)
  moreover have "no_access s a \<longleftrightarrow> contains a ?rs" for a using ok by (simp add: protector_ok_def)
  ultimately show ?thesis
    using new touched by (auto simp: protector_ok_def contains_iff in_range_def)
qed


section \<open>Histories and properties\<close>

text \<open>
  What the caller of watchRange must ensure: a range of whole pages that does not wrap around and encloses no
  watched range. That it starts on a page and that its ends lie in no watched range is what the code asserts.
\<close>

definition whole_pages :: "nat \<Rightarrow> ptr \<Rightarrow> uint64 \<Rightarrow> bool" where
  "whole_pages k start n \<longleftrightarrow> 2 ^ k dvd unat n \<and> 0 < unat n \<and> unat start + unat n < 2 ^ 64"

definition encloses_watched :: "ptr \<Rightarrow> uint64 \<Rightarrow> MemoryProtector \<Rightarrow> bool" where
  "encloses_watched start n s \<longleftrightarrow> (\<exists>r \<in> set (m_watchedPages s). start \<le> range_start r \<and> range_end r \<le> start + n)"

lemma page_aligned_dvd:
  assumes "page_env env k" and "page_aligned env start"
  shows "2 ^ k dvd unat start"
proof -
  have "to_uint64 (not (mask k :: uint32)) = (and (mask 32) (not (mask k)) :: uint64)"
    by (rule bit_eqI) (auto simp: bit_simps)
  then have "start = and (and start (mask 32)) (not (mask k))"
    using assms by (simp add: page_aligned_def page_env_mask and.assoc)
  then have "unat start = unat (and start (mask 32)) div 2 ^ k * 2 ^ k" by (metis unat_and_not_mask)
  then show ?thesis by simp
qed

text \<open>The assertions on the two end points keep the ranges disjoint.\<close>

lemma watchRange_watchable:
  assumes ok: "protector_ok k s" and env: "page_env env k" and n: "whole_pages k start n"
    and apart: "\<not> encloses_watched start n s" and watch: "watchRange succeeds env start n cb s = Inr s'"
  shows "watchable env k start n s" "succeeds start n"
proof -
  have code: "page_aligned env start" "\<not> contains start (m_watchedPages s)" "\<not> contains (start + n) (m_watchedPages s)"
    using watch by (auto simp: watchRange_def andThen_Inr_iff)
  have "unat (start + n) = unat start + unat n" using n by (simp add: whole_pages_def unat_word_ariths)
  then have less: "start < start + n" using n by (simp add: whole_pages_def word_less_nat_alt)
  have "\<not> in_range a r" if r: "r \<in> set (m_watchedPages s)" and a: "start \<le> a" "a \<le> start + n" for a r
  proof
    assume "in_range a r"
    then have "range_start r \<le> start + n" "start < range_end r" using a by (auto simp: in_range_def)
    moreover have "\<not> in_range start r" "\<not> in_range (start + n) r" using code(2,3) r by (auto simp: contains_iff)
    ultimately have "start \<le> range_start r" "range_end r \<le> start + n" by (auto simp: in_range_def)
    then show False using apart r unfolding encloses_watched_def by blast
  qed
  then show "watchable env k start n s"
    using n code(1) page_aligned_dvd [OF env code(1)] by (auto simp: watchable_def whole_pages_def contains_iff)
  show "succeeds start n" using watch by (auto simp: watchRange_def andThen_Inr_iff mprotect_def Let_def split: if_splits)
qed

text \<open>
  Steps of the patrol thread (watch, remove) and faults of the application, one after the other. mprotect
  succeeds on the ranges it is given.
\<close>

inductive protector_reach :: "Environment \<Rightarrow> nat \<Rightarrow> (ptr \<Rightarrow> bool) \<Rightarrow> MemoryProtector \<Rightarrow> bool"
  for env k mapped where
  start: "protector_reach env k mapped \<lparr>m_watchedPages = [], no_access = (\<lambda>_. False), callbacks = []\<rparr>"
| watch: "protector_reach env k mapped s \<Longrightarrow> whole_pages k p n \<Longrightarrow> \<not> encloses_watched p n s \<Longrightarrow>
    watchRange (\<lambda>_ _. True) env p n cb s = Inr s' \<Longrightarrow> protector_reach env k mapped s'"
| remove: "protector_reach env k mapped s \<Longrightarrow> removeWatch (\<lambda>_ _. True) env p s = Inr s' \<Longrightarrow>
    protector_reach env k mapped s'"
| fault: "protector_reach env k mapped s \<Longrightarrow>
    segfaultHandler (\<lambda>_ _. True) mapped env a t s = Inr (t', s') \<Longrightarrow> protector_reach env k mapped s'"

lemma removeWatch_ok:
  assumes ok: "protector_ok k s" and env: "page_env env k"
    and succeeds: "\<And>r. r \<in> set (m_watchedPages s) \<Longrightarrow> succeeds (range_start r) (range_size r)"
  shows "\<exists>s'. removeWatch succeeds env p s = Inr s' \<and> protector_ok k s' \<and> callbacks s' = callbacks s
    \<and> (\<forall>r a. r \<in> set (m_watchedPages s) \<longrightarrow> in_range p r \<longrightarrow>
        (no_access s' a \<longleftrightarrow> no_access s a \<and> \<not> in_range a r) \<and> set (m_watchedPages s') = set (m_watchedPages s) - {r})"
proof (cases "findContainingPointer p (m_watchedPages s)")
  case None
  then have "\<not> in_range p r" if "r \<in> set (m_watchedPages s)" for r
    using that by (auto simp: find_None_iff contains_iff)
  with None ok show ?thesis by (auto simp: removeWatch_def)
next
  case (Some r)
  note r = find_Some [OF Some]
  have ranges: "ranges_ok k (m_watchedPages s)" using ok by (simp add: protector_ok_def)
  have only: "r' = r" if "r' \<in> set (m_watchedPages s)" "in_range p r'" for r'
    using in_range_unique [OF ranges that(1) _ that(2)] r by blast
  from unprotect_erase [where succeeds = succeeds and cs = "callbacks s" and r = r, OF ok env conjunct1 [OF r] succeeds [OF conjunct1 [OF r]]]
  obtain s' where
    s': "mprotect succeeds env (range_start r) (range_size r) False s = Inr s'"
      "m_watchedPages s' = m_watchedPages s" "callbacks s' = callbacks s"
      "protector_ok k (s'\<lparr>callbacks := callbacks s, m_watchedPages := erase_range_at (range_start r) (m_watchedPages s)\<rparr>)"
      "\<forall>a. no_access s' a \<longleftrightarrow> no_access s a \<and> \<not> in_range a r" by blast
  let ?s = "s'\<lparr>m_watchedPages := erase_range_at (range_start r) (m_watchedPages s)\<rparr>"
  have "removeWatch succeeds env p s = Inr ?s" using Some s'(1,2) by (simp add: removeWatch_def)
  moreover have "protector_ok k ?s" using s'(4) by (simp add: protector_ok_def)
  moreover have "(no_access ?s a \<longleftrightarrow> no_access s a \<and> \<not> in_range a r')
      \<and> set (m_watchedPages ?s) = set (m_watchedPages s) - {r'}"
    if "r' \<in> set (m_watchedPages s)" "in_range p r'" for r' a
    using only [OF that] s'(5) erase_range_set [OF ranges conjunct1 [OF r]] by simp
  ultimately show ?thesis using s'(3) by (intro exI [of _ ?s]) simp
qed

lemma segfaultHandler_watched:
  assumes ok: "protector_ok k s" and env: "page_env env k" and outside: "\<not> insideSegfaultHandler t"
    and r: "r \<in> set (m_watchedPages s)" "in_range a r" and succeeds: "succeeds (range_start r) (range_size r)"
  shows "\<exists>t' s'. segfaultHandler succeeds mapped env a t s = Inr (t', s') \<and> \<not> insideSegfaultHandler t'
    \<and> protector_ok k s' \<and> callbacks s' = callbacks s @ [onAccess r]
    \<and> (\<forall>b. no_access s' b \<longleftrightarrow> no_access s b \<and> \<not> in_range b r) \<and> set (m_watchedPages s') = set (m_watchedPages s) - {r}"
proof -
  have ranges: "ranges_ok k (m_watchedPages s)" using ok by (simp add: protector_ok_def)
  have "findContainingPointer a (m_watchedPages s) \<noteq> None" using r by (auto simp: find_None_iff contains_iff)
  then obtain r' where r': "findContainingPointer a (m_watchedPages s) = Some r'" by auto
  then have "r' = r" using find_Some [OF r'] in_range_unique [OF ranges _ r(1) _ r(2)] by blast
  with r' have found: "findContainingPointer a (m_watchedPages s) = Some r" by simp
  from unprotect_erase [where succeeds = succeeds and cs = "callbacks s @ [onAccess r]", OF ok env r(1) succeeds]
  obtain s' where
    s': "mprotect succeeds env (range_start r) (range_size r) False s = Inr s'"
      "m_watchedPages s' = m_watchedPages s" "callbacks s' = callbacks s"
      "protector_ok k (s'\<lparr>callbacks := callbacks s @ [onAccess r],
         m_watchedPages := erase_range_at (range_start r) (m_watchedPages s)\<rparr>)"
      "\<forall>b. no_access s' b \<longleftrightarrow> no_access s b \<and> \<not> in_range b r" by blast
  then show ?thesis
    using outside found erase_range_set [OF ranges r(1)] by (simp add: segfaultHandler_def Let_def)
qed

lemma segfaultHandler_unwatched:
  assumes "\<not> insideSegfaultHandler t" and "\<not> contains a (m_watchedPages s)"
  shows "segfaultHandler succeeds mapped env a t s =
    (if mapped a \<and> \<not> no_access s a then Inr (t\<lparr>accessedAddressParentHandler := a\<rparr>, s) else Inl Aborted)"
  using assms by (cases t) (simp add: segfaultHandler_def find_None_iff [symmetric])

lemma protector_reach_ok:
  assumes "protector_reach env k mapped s" and env: "page_env env k"
  shows "protector_ok k s"
  using assms(1)
proof (induction rule: protector_reach.induct)
  case start
  show ?case by (simp add: protector_ok_def ranges_ok_def)
next
  case (watch s p n cb s')
  have "watchable env k p n s" using watchRange_watchable [OF watch.IH env watch.hyps(2-4)] by blast
  then show ?case using watchRange_ok [OF watch.IH env, of p n "\<lambda>_ _. True" cb] watch.hyps(4) by auto
next
  case (remove s p s')
  then show ?case using removeWatch_ok [OF remove.IH env, of "\<lambda>_ _. True" p] by auto
next
  case (fault s a t t' s')
  then have outside: "\<not> insideSegfaultHandler t" by (auto simp: segfaultHandler_def)
  show ?case
  proof (cases "contains a (m_watchedPages s)")
    case True
    then obtain r where "r \<in> set (m_watchedPages s)" "in_range a r" by (auto simp: contains_iff)
    with segfaultHandler_watched [OF fault.IH env outside this, of "\<lambda>_ _. True" mapped] fault.hyps(2)
    show ?thesis by auto
  next
    case False
    with segfaultHandler_unwatched [OF outside False, of "\<lambda>_ _. True" mapped env] fault show ?thesis
      by (auto split: if_splits)
  qed
qed


lemma initialize_reach:
  assumes "initialize ok inst = Inr inst'" and "instance_of inst' = Inr (s, act)"
  shows "protector_reach env k mapped s" "''SIGSEGV'' \<notin> set (sa_mask act signals)" "sa_nodefer act" "inst = None"
  using assms protector_reach.start [of env k mapped]
  by (auto simp: initialize_def MemoryProtector_construct_def instance_of_def andThen_Inr_iff handler_mask_def
      split: if_splits)

text \<open>
  C22. As long as the calls of watchRange and removeWatch and the runs of the handler do not overlap, mprotect
  succeeds, and every range given to watchRange is of whole pages, does not wrap around and encloses no
  watched range, the code's assertions are enough: the addresses without access are exactly those of the watched
  ranges, which are page aligned and disjoint; so the protector never takes away access to memory
  it does not watch. It can then watch every further range of whole pages below 4 GiB with neither an
  address nor its end in a watched range, which takes access to that range and nothing else, and it
  can stop watching whatever range an address is in, and the address is accessible again.
\<close>

theorem protector_invariant:
  assumes "protector_reach env k mapped s" and "page_env env k"
  shows "ranges_ok k (m_watchedPages s) \<and> (\<forall>a. no_access s a \<longleftrightarrow> contains a (m_watchedPages s))
    \<and> (\<forall>p n cb. watchable env k p n s \<longrightarrow> (\<exists>s'. watchRange (\<lambda>_ _. True) env p n cb s = Inr s'
          \<and> (\<forall>a. no_access s' a \<longleftrightarrow> no_access s a \<or> (p \<le> a \<and> a < p + n))))
    \<and> (\<forall>p. \<exists>s'. removeWatch (\<lambda>_ _. True) env p s = Inr s' \<and> \<not> no_access s' p)"
proof -
  have ok: "protector_ok k s" using assms by (rule protector_reach_ok)
  have "\<exists>s'. removeWatch (\<lambda>_ _. True) env p s = Inr s' \<and> \<not> no_access s' p" for p
  proof (cases "contains p (m_watchedPages s)")
    case True
    then obtain r where "r \<in> set (m_watchedPages s)" "in_range p r" by (auto simp: contains_iff)
    then show ?thesis using removeWatch_ok [OF ok assms(2), of "\<lambda>_ _. True" p] by blast
  next
    case False
    then have "removeWatch (\<lambda>_ _. True) env p s = Inr s"
      by (simp add: removeWatch_def find_None_iff [symmetric])
    with False ok show ?thesis by (simp add: protector_ok_def)
  qed
  moreover have "\<exists>s'. watchRange (\<lambda>_ _. True) env p n cb s = Inr s'
      \<and> (\<forall>a. no_access s' a \<longleftrightarrow> no_access s a \<or> (p \<le> a \<and> a < p + n))" if "watchable env k p n s" for p n cb
    using watchRange_ok [OF ok assms(2) that, of "\<lambda>_ _. True" cb] by blast
  ultimately show ?thesis using ok by (simp add: protector_ok_def)
qed

definition watched_protector :: MemoryProtector where
  "watched_protector = \<lparr>m_watchedPages = [\<lparr>range_start = 8192, range_end = 16384, onAccess = 3\<rparr>],
     no_access = (\<lambda>a. pages_touched sample_env 8192 8192 a), callbacks = []\<rparr>"

lemma page_aligned_sample: "page_aligned sample_env 8192"
  by (simp add: page_aligned_def sample_env_def)

lemma watched_protector_reached: "protector_reach sample_env 12 mapped watched_protector"
proof -
  let ?s = "\<lparr>m_watchedPages = [], no_access = (\<lambda>_. False), callbacks = []\<rparr>"
  have "whole_pages 12 8192 8192" "\<not> encloses_watched 8192 8192 ?s"
    by (simp_all add: whole_pages_def encloses_watched_def)
  moreover have "watchRange (\<lambda>_ _. True) sample_env 8192 8192 3 ?s = Inr watched_protector"
    by (simp add: watchRange_def page_aligned_sample mprotect_def watched_protector_def)
  ultimately show ?thesis by (rule protector_reach.watch [OF protector_reach.start])
qed

theorem protector_invariant_witness:
  "no_access watched_protector 12288 \<and> \<not> no_access watched_protector 16384
   \<and> (\<exists>s'. removeWatch (\<lambda>_ _. True) sample_env 8200 watched_protector = Inr s' \<and> \<not> no_access s' 8200)"
proof -
  note inv = protector_invariant [OF watched_protector_reached page_sample_env]
  then have "no_access watched_protector a \<longleftrightarrow> contains a (m_watchedPages watched_protector)" for a by blast
  moreover have "contains 12288 (m_watchedPages watched_protector)" "\<not> contains 16384 (m_watchedPages watched_protector)"
    by (simp_all add: watched_protector_def in_range_def)
  ultimately show ?thesis using inv by blast
qed

text \<open>
  When the handlers do not overlap, the first access to a watched range runs its callback once, gives the
  whole range back, and the access goes through when retried; an access by another thread that faulted
  before the handler ran but handles its fault after it, and every later one, goes through with no
  callback, and other ranges keep their protection. (What happens when handlers overlap is in
  Protector_Threads.)
\<close>

theorem watched_access_once:
  assumes "protector_reach env k mapped s" and "page_env env k"
    and "r \<in> set (m_watchedPages s)" and "in_range a r" and "mapped a" and "\<not> insideSegfaultHandler t"
  shows "\<exists>t' s'. app_access (\<lambda>_ _. True) mapped env a t s = Inr (Some (t', s'))
    \<and> callbacks s' = callbacks s @ [onAccess r] \<and> \<not> insideSegfaultHandler t'
    \<and> (\<forall>b. \<not> in_range b r \<longrightarrow> (no_access s' b \<longleftrightarrow> no_access s b))
    \<and> (\<forall>b u. in_range b r \<longrightarrow> mapped b \<longrightarrow> \<not> insideSegfaultHandler u \<longrightarrow>
        app_access (\<lambda>_ _. True) mapped env b u s' = Inr (Some (u, s'))
        \<and> segfaultHandler (\<lambda>_ _. True) mapped env b u s' = Inr (u\<lparr>accessedAddressParentHandler := b\<rparr>, s'))"
proof -
  have ok: "protector_ok k s" using assms(1,2) by (rule protector_reach_ok)
  have blocked: "no_access s a" using ok assms(3,4) by (auto simp: protector_ok_def contains_iff)
  obtain t' s' where s': "segfaultHandler (\<lambda>_ _. True) mapped env a t s = Inr (t', s')" "\<not> insideSegfaultHandler t'"
    "protector_ok k s'" "callbacks s' = callbacks s @ [onAccess r]"
    "\<forall>b. no_access s' b \<longleftrightarrow> no_access s b \<and> \<not> in_range b r"
    using segfaultHandler_watched [OF ok assms(2,6,3,4), of "\<lambda>_ _. True" mapped] by blast
  have free: "\<not> contains b (m_watchedPages s')" if "in_range b r" for b
    using s'(3,5) that unfolding protector_ok_def by blast
  have "app_access (\<lambda>_ _. True) mapped env a t s = Inr (Some (t', s'))"
    using blocked s'(1,5) assms(4,5) by (simp add: app_access_def)
  moreover have "segfaultHandler (\<lambda>_ _. True) mapped env b u s' = Inr (u\<lparr>accessedAddressParentHandler := b\<rparr>, s')"
    if "in_range b r" "mapped b" "\<not> insideSegfaultHandler u" for b u
    using that s'(5) by (simp add: segfaultHandler_unwatched [OF that(3) free [OF that(1)]])
  ultimately show ?thesis
    using s'(2,4,5) by (intro exI [of _ t'] exI [of _ s']) (simp add: app_access_def)
qed

theorem watched_access_once_witness:
  "\<exists>t' s'. app_access (\<lambda>_ _. True) (\<lambda>a. a \<noteq> 0) sample_env 9000
      \<lparr>insideSegfaultHandler = False, accessedAddressParentHandler = 0\<rparr> watched_protector = Inr (Some (t', s'))
    \<and> callbacks s' = [3]"
  using watched_access_once [OF watched_protector_reached page_sample_env, where a = 9000 and mapped = "\<lambda>a. a \<noteq> 0"
      and t = "\<lparr>insideSegfaultHandler = False, accessedAddressParentHandler = 0\<rparr>"
      and r = "\<lparr>range_start = 8192, range_end = 16384, onAccess = 3\<rparr>"]
  by (fastforce simp: watched_protector_def in_range_def)

text \<open>
  A stray pointer is still fatal: an access outside the application's memory and outside the
  watched ranges enters the handler, which touches the address itself and ends the process.
\<close>

theorem stray_access_aborts:
  assumes "protector_reach env k mapped s" and "page_env env k" and "\<not> mapped a"
    and "\<not> contains a (m_watchedPages s)"
  shows "app_access succeeds mapped env a t s = Inl Aborted"
  using assms(3,4) segfaultHandler_unwatched [of t a s succeeds mapped env]
  by (cases "insideSegfaultHandler t") (auto simp: app_access_def segfaultHandler_def)

theorem stray_access_aborts_witness:
  "app_access (\<lambda>_ _. True) (\<lambda>a. a \<noteq> 0) sample_env 0
     \<lparr>insideSegfaultHandler = False, accessedAddressParentHandler = 0\<rparr> watched_protector = Inl Aborted"
  by (rule stray_access_aborts [OF watched_protector_reached page_sample_env])
    (simp_all add: watched_protector_def in_range_def)

text \<open>
  The alignment check masks the address with a 32-bit value, which clears its upper half: no
  range that starts at or above 4 GiB, aligned or not, can be watched.
\<close>

theorem watchRange_high_asserts:
  assumes "2 ^ 32 \<le> unat start"
  shows "watchRange succeeds env start n cb s = Inl AssertionFailed"
proof -
  have "unat (and start (to_uint64 (not (pageSize env - 1)))) \<le> unat (to_uint64 (not (pageSize env - 1)) :: uint64)"
    by (metis word_and_le1 word_le_nat_alt)
  also have "\<dots> < 2 ^ 32"
    using unat_lt_32 [of "not (pageSize env - 1)"] by (simp add: unsigned_ucast_eq)
  finally have "\<not> page_aligned env start" using assms unfolding page_aligned_def by (metis not_le)
  then show ?thesis by (simp add: watchRange_def)
qed

theorem watchRange_high_asserts_witness:
  "watchRange (\<lambda>_ _. True) sample_env 8589934592 4096 1 watched_protector = Inl AssertionFailed"
  by (rule watchRange_high_asserts) simp

end
