(* ===== verification/Protector_Threads.thy ===== *)
theory Protector_Threads
  imports Memory_Protector
begin

text \<open>
  \<^verbatim>\<open>alloc-counter/memory-protector.h\<close> as threads run it. The declarations that should take
  the lock (lines 61, 76 and 148) declare functions, so nothing keeps the handler of one thread, the
  handler of another and the patrol thread's operations apart. Each is a sequence of steps here: the
  search of the set, mprotect, the callback, the change of the set. A step is taken to be atomic, which is
  more than the code promises; an iterator that points to a range that has left the set dangles. The
  set, the page rights and the callbacks are shared; the two thread_local variables of the handler are
  each thread's own. Proved: run alone, the steps are the operations of Memory_Protector; and the
  handlers of two threads that fault on the same range can both run its callback.
\<close>

section \<open>Threads\<close>

datatype ProtectorThread =
    Faulted ptr
  | Searched ptr "PointerRange option"
  | Opened ptr PointerRange
  | CalledBack ptr PointerRange
  | Returning ptr
  | Returned ptr
  | WatchCalled ptr uint64 nat
  | WatchChecked ptr uint64 nat
  | WatchInserted ptr uint64
  | RemoveCalled ptr
  | RemoveSearched "PointerRange option"
  | RemoveOpened PointerRange
  | PatrolDone

record ProtectorMachine =
  protector :: MemoryProtector
  handler :: "nat \<Rightarrow> HandlerThread"
  doing :: "nat \<Rightarrow> ProtectorThread"

definition move_on :: "nat \<Rightarrow> ProtectorThread \<Rightarrow> MemoryProtector \<Rightarrow> ProtectorMachine \<Rightarrow> ProtectorMachine" where
  "move_on t pc s m = m\<lparr>protector := s, doing := (doing m)(t := pc)\<rparr>"

definition set_handler :: "nat \<Rightarrow> HandlerThread \<Rightarrow> ProtectorMachine \<Rightarrow> ProtectorMachine" where
  "set_handler t h m = m\<lparr>handler := (handler m)(t := h)\<rparr>"

text \<open>Reading through an iterator.\<close>

definition deref :: "PointerRange \<Rightarrow> MemoryProtector \<Rightarrow> PointerRange outcome" where
  "deref r s = (if r \<in> set (m_watchedPages s) then Inr r else Inl DanglingReference)"

fun handler_step ::
  "(ptr \<Rightarrow> uint64 \<Rightarrow> bool) \<Rightarrow> (ptr \<Rightarrow> bool) \<Rightarrow> Environment \<Rightarrow> nat \<Rightarrow> ProtectorThread \<Rightarrow> ProtectorMachine \<Rightarrow>
     ProtectorMachine outcome option" where
  "handler_step succeeds mapped env t (Faulted a) m =
     (let h = handler m t; s = protector m
      in Some (if insideSegfaultHandler h then Inl Aborted
               else Inr (set_handler t (h\<lparr>insideSegfaultHandler := True, accessedAddressParentHandler := a\<rparr>)
                      (move_on t (Searched a (findContainingPointer a (m_watchedPages s))) s m))))"
| "handler_step succeeds mapped env t (Searched a (Some i)) m =
     Some (andThen (deref i (protector m)) (\<lambda>r.
       andThen (mprotect succeeds env (range_start r) (range_size r) False (protector m)) (\<lambda>s.
       Inr (move_on t (Opened a i) s m))))"
| "handler_step succeeds mapped env t (Opened a i) m =
     Some (andThen (deref i (protector m)) (\<lambda>r.
       let s = protector m in Inr (move_on t (CalledBack a i) (s\<lparr>callbacks := callbacks s @ [onAccess r]\<rparr>) m)))"
| "handler_step succeeds mapped env t (CalledBack a i) m =
     Some (andThen (deref i (protector m)) (\<lambda>r.
       let s = protector m
       in Inr (move_on t (Returning a) (s\<lparr>m_watchedPages := erase_range_at (range_start r) (m_watchedPages s)\<rparr>) m)))"
| "handler_step succeeds mapped env t (Searched a None) m =
     (let s = protector m
      in Some (if mapped a \<and> \<not> no_access s a then Inr (move_on t (Returning a) s m) else Inl Aborted))"
| "handler_step succeeds mapped env t (Returning a) m =
     Some (Inr (set_handler t (handler m t\<lparr>insideSegfaultHandler := False\<rparr>) (move_on t (Returned a) (protector m) m)))"
| "handler_step succeeds mapped env t _ m = None"

text \<open>The operations of the patrol thread.\<close>

fun patrol_step ::
  "(ptr \<Rightarrow> uint64 \<Rightarrow> bool) \<Rightarrow> Environment \<Rightarrow> nat \<Rightarrow> ProtectorThread \<Rightarrow> ProtectorMachine \<Rightarrow>
     ProtectorMachine outcome option" where
  "patrol_step succeeds env t (WatchCalled start n cb) m =
     (let s = protector m
      in Some (andThen (check (page_aligned env start) AssertionFailed) (\<lambda>_.
         andThen (check (\<not> contains start (m_watchedPages s)) AssertionFailed) (\<lambda>_.
         andThen (check (\<not> contains (start + n) (m_watchedPages s)) AssertionFailed) (\<lambda>_.
         Inr (move_on t (WatchChecked start n cb) s m))))))"
| "patrol_step succeeds env t (WatchChecked start n cb) m =
     (let s = protector m; allocationRange = \<lparr>range_start = start, range_end = start + n, onAccess = cb\<rparr>
      in Some (Inr (move_on t (WatchInserted start n)
           (s\<lparr>m_watchedPages := insert_range allocationRange (m_watchedPages s)\<rparr>) m)))"
| "patrol_step succeeds env t (WatchInserted start n) m =
     Some (andThen (mprotect succeeds env start n True (protector m)) (\<lambda>s. Inr (move_on t PatrolDone s m)))"
| "patrol_step succeeds env t (RemoveCalled start) m =
     (let s = protector m
      in Some (Inr (move_on t (RemoveSearched (findContainingPointer start (m_watchedPages s))) s m)))"
| "patrol_step succeeds env t (RemoveSearched None) m = Some (Inr (move_on t PatrolDone (protector m) m))"
| "patrol_step succeeds env t (RemoveSearched (Some i)) m =
     Some (andThen (deref i (protector m)) (\<lambda>r.
       andThen (mprotect succeeds env (range_start r) (range_size r) False (protector m)) (\<lambda>s.
       Inr (move_on t (RemoveOpened i) s m))))"
| "patrol_step succeeds env t (RemoveOpened i) m =
     Some (andThen (deref i (protector m)) (\<lambda>r.
       let s = protector m
       in Inr (move_on t PatrolDone (s\<lparr>m_watchedPages := erase_range_at (range_start r) (m_watchedPages s)\<rparr>) m)))"
| "patrol_step succeeds env t _ m = None"

definition protector_step ::
  "(ptr \<Rightarrow> uint64 \<Rightarrow> bool) \<Rightarrow> (ptr \<Rightarrow> bool) \<Rightarrow> Environment \<Rightarrow> nat \<Rightarrow> ProtectorMachine \<Rightarrow> ProtectorMachine outcome option" where
  "protector_step succeeds mapped env t m =
     (case handler_step succeeds mapped env t (doing m t) m of
        Some r \<Rightarrow> Some r
      | None \<Rightarrow> patrol_step succeeds env t (doing m t) m)"

fun run_protector ::
  "(ptr \<Rightarrow> uint64 \<Rightarrow> bool) \<Rightarrow> (ptr \<Rightarrow> bool) \<Rightarrow> Environment \<Rightarrow> nat list \<Rightarrow> ProtectorMachine \<Rightarrow>
     ProtectorMachine outcome option" where
  "run_protector succeeds mapped env [] m = Some (Inr m)"
| "run_protector succeeds mapped env (t # ts) m =
     (case protector_step succeeds mapped env t m of
        Some (Inr m') \<Rightarrow> run_protector succeeds mapped env ts m'
      | r \<Rightarrow> r)"

section \<open>An operation that runs alone\<close>

lemma protector_step_simps:
  "doing m t = pc \<Longrightarrow> protector_step succeeds mapped env t m = (case handler_step succeeds mapped env t pc m of
     Some r \<Rightarrow> Some r | None \<Rightarrow> patrol_step succeeds env t pc m)"
  unfolding protector_step_def by (simp only:)

lemma run_protector_append:
  "run_protector succeeds mapped env (ts @ us) m = (case run_protector succeeds mapped env ts m of
     Some (Inr m') \<Rightarrow> run_protector succeeds mapped env us m' | r \<Rightarrow> r)"
proof (induction ts arbitrary: m)
  case (Cons t ts)
  show ?case by (simp add: Cons.IH split: option.split sum.split)
qed simp

lemma mprotect_watched: "mprotect succeeds env p n b s = Inr s' \<Longrightarrow> m_watchedPages s' = m_watchedPages s"
  by (auto simp: mprotect_def split: if_splits)

lemmas protector_machine_defs = move_on_def set_handler_def deref_def

text \<open>Where an operation ends: with the state it leaves, or with its fault.\<close>

definition ends_with :: "nat \<Rightarrow> ProtectorThread \<Rightarrow> HandlerThread \<Rightarrow> MemoryProtector \<Rightarrow> ProtectorMachine \<Rightarrow> ProtectorMachine" where
  "ends_with t pc h s m = m\<lparr>protector := s, handler := (handler m)(t := h), doing := (doing m)(t := pc)\<rparr>"

lemma handler_alone:
  assumes "doing m t = Faulted a"
  shows "\<exists>j. run_protector succeeds mapped env (replicate j t) m
    = Some (andThen (segfaultHandler succeeds mapped env a (handler m t) (protector m))
        (\<lambda>(h, s). Inr (ends_with t (Returned a) h s m)))"
proof (cases "insideSegfaultHandler (handler m t)")
  case True
  then show ?thesis using assms
    by (intro exI [of _ 1]) (simp add: protector_step_simps segfaultHandler_def)
next
  case outside: False
  show ?thesis
  proof (cases "findContainingPointer a (m_watchedPages (protector m))")
    case None
    show ?thesis
    proof (cases "mapped a \<and> \<not> no_access (protector m) a")
      case True
      then show ?thesis using assms None outside
        by (intro exI [of _ 3]) (simp add: numeral_eq_Suc protector_step_simps protector_machine_defs ends_with_def
            segfaultHandler_def Let_def)
    next
      case False
      then show ?thesis using assms None outside
        by (intro exI [of _ 2]) (auto simp: numeral_eq_Suc protector_step_simps protector_machine_defs
            segfaultHandler_def Let_def)
    qed
  next
    case (Some r)
    have r: "r \<in> set (m_watchedPages (protector m))" using find_Some [OF Some] ..
    show ?thesis
    proof (cases "mprotect succeeds env (range_start r) (range_size r) False (protector m)")
      case (Inr s)
      then show ?thesis using assms Some outside r mprotect_watched [OF Inr]
        by (intro exI [of _ 5]) (simp add: numeral_eq_Suc protector_step_simps protector_machine_defs ends_with_def
            segfaultHandler_def Let_def)
    next
      case (Inl e)
      then show ?thesis using assms Some outside r
        by (intro exI [of _ 2]) (simp add: numeral_eq_Suc protector_step_simps protector_machine_defs
            segfaultHandler_def Let_def)
    qed
  qed
qed

lemma watchRange_alone:
  assumes "doing m t = WatchCalled start n cb"
  shows "\<exists>j. run_protector succeeds mapped env (replicate j t) m
    = Some (andThen (watchRange succeeds env start n cb (protector m))
        (\<lambda>s. Inr (ends_with t PatrolDone (handler m t) s m)))"
proof (cases "page_aligned env start \<and> \<not> contains start (m_watchedPages (protector m))
    \<and> \<not> contains (start + n) (m_watchedPages (protector m))")
  case False
  then show ?thesis using assms
    by (intro exI [of _ 1]) (auto simp: protector_step_simps watchRange_def check_def)
next
  case True
  then show ?thesis using assms
    by (intro exI [of _ 3]) (simp add: numeral_eq_Suc protector_step_simps protector_machine_defs ends_with_def
        watchRange_def mprotect_def Let_def)
qed

lemma removeWatch_alone:
  assumes "doing m t = RemoveCalled start"
  shows "\<exists>j. run_protector succeeds mapped env (replicate j t) m
    = Some (andThen (removeWatch succeeds env start (protector m))
        (\<lambda>s. Inr (ends_with t PatrolDone (handler m t) s m)))"
proof (cases "findContainingPointer start (m_watchedPages (protector m))")
  case None
  then show ?thesis using assms
    by (intro exI [of _ 2]) (simp add: numeral_eq_Suc protector_step_simps protector_machine_defs ends_with_def
        removeWatch_def)
next
  case (Some r)
  have r: "r \<in> set (m_watchedPages (protector m))" using find_Some [OF Some] ..
  show ?thesis
  proof (cases "mprotect succeeds env (range_start r) (range_size r) False (protector m)")
    case (Inr s)
    then show ?thesis using assms Some r mprotect_watched [OF Inr]
      by (intro exI [of _ 3]) (simp add: numeral_eq_Suc protector_step_simps protector_machine_defs ends_with_def
          removeWatch_def Let_def)
  next
    case (Inl e)
    then show ?thesis using assms Some r
      by (intro exI [of _ 2]) (simp add: numeral_eq_Suc protector_step_simps protector_machine_defs removeWatch_def)
  qed
qed

section \<open>Two threads fault on the same range\<close>

text \<open>
  A range of the set is found from each of its addresses.
\<close>

lemma found_range:
  assumes "ranges_ok k rs" and "r \<in> set rs" and "in_range a r"
  shows "findContainingPointer a rs = Some r"
proof (cases "findContainingPointer a rs")
  case None
  then show ?thesis using assms(2,3) by (auto simp: find_None_iff contains_iff)
next
  case (Some r')
  then show ?thesis using find_Some [OF Some] in_range_unique [OF assms(1) _ assms(2) _ assms(3)] by blast
qed

lemma handlers_in_turn:
  assumes ok: "protector_ok k (protector m)" and env: "page_env env k" and "t \<noteq> u"
    and r: "r \<in> set (m_watchedPages (protector m))" "in_range a r" "in_range b r" "mapped b"
    and t: "doing m t = Faulted a" "\<not> insideSegfaultHandler (handler m t)"
    and u: "doing m u = Faulted b" "\<not> insideSegfaultHandler (handler m u)"
  shows "\<exists>i j once. run_protector (\<lambda>_ _. True) mapped env (replicate i t @ replicate j u) m = Some (Inr once)
    \<and> callbacks (protector once) = callbacks (protector m) @ [onAccess r]
    \<and> doing once t = Returned a \<and> doing once u = Returned b"
proof -
  obtain h s where hs: "segfaultHandler (\<lambda>_ _. True) mapped env a (handler m t) (protector m) = Inr (h, s)"
    "protector_ok k s" "callbacks s = callbacks (protector m) @ [onAccess r]"
    "\<forall>b. no_access s b \<longleftrightarrow> no_access (protector m) b \<and> \<not> in_range b r"
    using segfaultHandler_watched [OF ok env t(2) r(1,2), of "\<lambda>_ _. True" mapped] by blast
  let ?m = "ends_with t (Returned a) h s m"
  obtain i where first: "run_protector (\<lambda>_ _. True) mapped env (replicate i t) m = Some (Inr ?m)"
    using handler_alone [where succeeds = "\<lambda>_ _. True" and mapped = mapped and env = env, OF t(1)] hs(1) by auto
  have "\<not> contains b (m_watchedPages s)" using hs(2,4) r(3) unfolding protector_ok_def by blast
  then have "segfaultHandler (\<lambda>_ _. True) mapped env b (handler m u) s = Inr (handler m u\<lparr>accessedAddressParentHandler := b\<rparr>, s)"
    using segfaultHandler_unwatched [OF u(2)] r(3,4) hs(4) by simp
  then have alone: "andThen (segfaultHandler (\<lambda>_ _. True) mapped env b (handler ?m u) (protector ?m))
      (\<lambda>(h, s). Inr (ends_with u (Returned b) h s ?m))
      = Inr (ends_with u (Returned b) (handler m u\<lparr>accessedAddressParentHandler := b\<rparr>) s ?m)"
    using assms(3) by (simp add: ends_with_def)
  have "doing ?m u = Faulted b" using assms(3) u(1) by (simp add: ends_with_def)
  from handler_alone [where succeeds = "\<lambda>_ _. True" and mapped = mapped and env = env, OF this]
  obtain j where "run_protector (\<lambda>_ _. True) mapped env (replicate j u) ?m
      = Some (Inr (ends_with u (Returned b) (handler m u\<lparr>accessedAddressParentHandler := b\<rparr>) s ?m))"
    unfolding alone by blast
  then have "run_protector (\<lambda>_ _. True) mapped env (replicate i t @ replicate j u) m
      = Some (Inr (ends_with u (Returned b) (handler m u\<lparr>accessedAddressParentHandler := b\<rparr>) s ?m))"
    by (simp only: run_protector_append first option.case sum.case)
  then show ?thesis
    using hs(3) assms(3) by (intro exI [of _ i] exI [of _ j] exI conjI) (assumption | simp add: ends_with_def)+
qed

lemma handlers_overlapping:
  assumes ok: "protector_ok k (protector m)" and "t \<noteq> u"
    and r: "r \<in> set (m_watchedPages (protector m))" "in_range a r" "in_range b r"
    and t: "doing m t = Faulted a" "\<not> insideSegfaultHandler (handler m t)"
    and u: "doing m u = Faulted b" "\<not> insideSegfaultHandler (handler m u)"
  shows "\<exists>twice. run_protector (\<lambda>_ _. True) mapped env [t, u, t, u, t, u] m = Some (Inr twice)
    \<and> callbacks (protector twice) = callbacks (protector m) @ [onAccess r, onAccess r]
    \<and> run_protector (\<lambda>_ _. True) mapped env [t, u] twice = Some (Inl DanglingReference)"
proof -
  have found: "findContainingPointer a (m_watchedPages (protector m)) = Some r"
    "findContainingPointer b (m_watchedPages (protector m)) = Some r"
    using ok r found_range unfolding protector_ok_def by blast+
  have gone: "r \<notin> set (erase_range_at (range_start r) (m_watchedPages (protector m)))"
    by (simp add: erase_range_at_def)
  show ?thesis using assms found gone
    by (simp add: protector_step_simps protector_machine_defs mprotect_def Let_def)
qed

text \<open>
  C23. The comment in the handler promises that when two threads access the same page simultaneously only one
  executes the callback. Take two threads that have faulted on a watched range, none of them inside the handler already, in a state
  the protector reaches, and let mprotect succeed. If one handler runs
  after the other, the callback runs once and both return. But the line that should take the lock
  declares a function, and nothing keeps the handlers apart: if both search the set before either has erased
  the range, both run the callback, and the handler that comes second to erase the range uses an
  iterator that dangles.
\<close>

theorem handlers_race_runs_callback_twice:
  assumes "protector_reach env k mapped (protector m)" and "page_env env k" and "t \<noteq> u"
    and "r \<in> set (m_watchedPages (protector m))" "in_range a r" "in_range b r" "mapped b"
    and "doing m t = Faulted a" "\<not> insideSegfaultHandler (handler m t)"
    and "doing m u = Faulted b" "\<not> insideSegfaultHandler (handler m u)"
  shows "(\<exists>i j once. run_protector (\<lambda>_ _. True) mapped env (replicate i t @ replicate j u) m = Some (Inr once)
      \<and> callbacks (protector once) = callbacks (protector m) @ [onAccess r]
      \<and> doing once t = Returned a \<and> doing once u = Returned b)
    \<and> (\<exists>twice. run_protector (\<lambda>_ _. True) mapped env [t, u, t, u, t, u] m = Some (Inr twice)
      \<and> callbacks (protector twice) = callbacks (protector m) @ [onAccess r, onAccess r]
      \<and> run_protector (\<lambda>_ _. True) mapped env [t, u] twice = Some (Inl DanglingReference))"
proof -
  have ok: "protector_ok k (protector m)" using assms(1,2) by (rule protector_reach_ok)
  show ?thesis
    using handlers_in_turn [where mapped = mapped, OF ok assms(2-11)]
      handlers_overlapping [where mapped = mapped and env = env, OF ok assms(3-6,8-11)] by blast
qed

definition faulting_machine :: ProtectorMachine where
  "faulting_machine = \<lparr>protector = watched_protector,
     handler = (\<lambda>_. \<lparr>insideSegfaultHandler = False, accessedAddressParentHandler = 0\<rparr>),
     doing = (\<lambda>_. PatrolDone)(1 := Faulted 9000, 2 := Faulted 12000)\<rparr>"

theorem handlers_race_runs_callback_twice_witness:
  "\<exists>twice. run_protector (\<lambda>_ _. True) (\<lambda>a. a \<noteq> 0) sample_env [1, 2, 1, 2, 1, 2] faulting_machine = Some (Inr twice)
    \<and> callbacks (protector twice) = [3, 3]"
proof -
  have "protector_reach sample_env 12 (\<lambda>a. a \<noteq> 0) (protector faulting_machine)"
    by (simp add: faulting_machine_def watched_protector_reached)
  from handlers_race_runs_callback_twice [OF this page_sample_env, of 1 2
      "\<lparr>range_start = 8192, range_end = 16384, onAccess = 3\<rparr>" 9000 12000]
  show ?thesis by (force simp: faulting_machine_def watched_protector_def in_range_def)
qed

end
