(* ===== verification/Mallinfo_Log.thy ===== *)
theory Mallinfo_Log
  imports Allocation_Stats Cpp_Print
begin

text \<open>
  \<^verbatim>\<open>mallinfo-log/libmallinfo-log.cpp\<close>: the thread that samples the process's memory use. The
  file \<^verbatim>\<open>/proc/self/status\<close> is the list of its lines; sscanf is modelled for the directives the
  two formats have (a literal character, white space, an unsigned 64-bit number). Sleeping, the
  clock and mallinfo are outside: a row is a function of what they returned. An exception that leaves the thread's main function ends the process.
\<close>

section \<open>sscanf\<close>

datatype directive = Literal char | WhiteSpace | Unsigned64

definition scan_unsigned :: "string \<Rightarrow> (uint64 \<times> string) option" where
  "scan_unsigned s =
     (let s1 = dropWhile isspace s;
          (neg, s2) = (case s1 of [] \<Rightarrow> (False, [])
            | c # cs \<Rightarrow> if c = CHR ''-'' then (True, cs) else if c = CHR ''+'' then (False, cs) else (False, s1));
          digits = takeWhile isdigit s2;
          n = read_digits 0 digits
      in if digits = [] then None
         else Some (if 2 ^ 64 \<le> n then - 1 else if neg then - of_nat n else of_nat n, dropWhile isdigit s2))"

fun scan :: "directive list \<Rightarrow> string \<Rightarrow> uint64 list" where
  "scan [] s = []"
| "scan (Literal c # ds) [] = []"
| "scan (Literal c # ds) (c' # s) = (if c = c' then scan ds s else [])"
| "scan (WhiteSpace # ds) s = scan ds (dropWhile isspace s)"
| "scan (Unsigned64 # ds) s =
     (case scan_unsigned s of None \<Rightarrow> [] | Some (n, s') \<Rightarrow> n # scan ds s')"

definition status_format :: "string \<Rightarrow> directive list" where
  "status_format key = map Literal key @ [WhiteSpace, Unsigned64, WhiteSpace] @ map Literal ''kB''"

section \<open>The sampled values\<close>

record ProcessStatus =
  VmRSS :: uint64
  RssAnon :: uint64

definition initialStatus :: ProcessStatus where
  "initialStatus = \<lparr>VmRSS = - 1, RssAnon = - 1\<rparr>"

definition scan_status_line :: "ProcessStatus \<Rightarrow> string \<Rightarrow> ProcessStatus" where
  "scan_status_line ret line =
     (let ret1 = (case scan (status_format ''VmRSS:'') line of [] \<Rightarrow> ret | n # _ \<Rightarrow> ret\<lparr>VmRSS := n\<rparr>)
      in case scan (status_format ''RssAnon:'') line of [] \<Rightarrow> ret1 | n # _ \<Rightarrow> ret1\<lparr>RssAnon := n\<rparr>)"

definition readProcessStatus :: "string list option \<Rightarrow> ProcessStatus outcome" where
  "readProcessStatus file =
     (case file of None \<Rightarrow> Inl Exited
      | Some lines \<Rightarrow>
          let ret = foldl scan_status_line initialStatus lines
          in if RssAnon ret = - 1 \<or> VmRSS ret = - 1 then Inl Aborted else Inr ret)"

definition show_int :: "int \<Rightarrow> string" where
  "show_int i = (if i < 0 then CHR ''-'' # show_nat (nat (- i)) else show_nat (nat i))"

record Mallinfo =
  arena :: int
  ordblks :: int
  hblks :: int
  hblkhd :: int
  uordblks :: int
  fordblks :: int
  keepcost :: int

fun tab_separated :: "string list \<Rightarrow> string" where
  "tab_separated [] = ''\<newline>''"
| "tab_separated [s] = s @ ''\<newline>''"
| "tab_separated (s # ss) = s @ CHR 0x09 # tab_separated ss"

definition column_names :: "string list" where
  "column_names = [''#Time'', ''Total RSS'', ''Total Anon RSS'', ''Arenas size'',
     ''Num free chunks'', ''Num mmap chunks'', ''mmaps size'', ''Used chunks size'', ''Free chunks size'',
     ''Top chunk size'']"

definition report_header :: string where
  "report_header = tab_separated column_names"

definition report_row :: "rat \<Rightarrow> ProcessStatus \<Rightarrow> Mallinfo \<Rightarrow> string" where
  "report_row now st info = tab_separated
     [show_double now, show_nat (unat (1024 * VmRSS st)), show_nat (unat (1024 * RssAnon st)), show_int (arena info),
      show_int (ordblks info), show_int (hblks info), show_int (hblkhd info), show_int (uordblks info),
      show_int (fordblks info), show_int (keepcost info)]"


definition sample_time :: "nat \<times> nat \<Rightarrow> rat" where
  "sample_time tv = getTime (fst tv) (snd tv)"

definition memory_report_path :: "string \<Rightarrow> int \<Rightarrow> string" where
  "memory_report_path program pid = ''/tmp/memory-'' @ program @ ''-'' @ show_int pid"

text \<open>
  The thread's endless loop after the samples given: the contents of the report file, or the
  fault that ends the process.
\<close>

fun mallinfo_samples :: "((nat \<times> nat) \<times> Mallinfo \<times> string list option) list \<Rightarrow> string \<Rightarrow> string outcome" where
  "mallinfo_samples [] report = Inr report"
| "mallinfo_samples ((tv, info, file) # samples) report =
     andThen (readProcessStatus file) (\<lambda>st.
       mallinfo_samples samples (report @ report_row (sample_time tv) st info))"

definition mallinfoThreadMain :: "((nat \<times> nat) \<times> Mallinfo \<times> string list option) list \<Rightarrow> string outcome" where
  "mallinfoThreadMain samples = mallinfo_samples samples report_header"

text \<open>The load-time constructor: the thread that is started and what it does.\<close>

definition mallinfoLogInit ::
  "((nat \<times> nat) \<times> Mallinfo \<times> string list option) list \<Rightarrow> string outcome option \<Rightarrow> string outcome option" where
  "mallinfoLogInit samples mallinfoThread = Some (mallinfoThreadMain samples)"

section \<open>Reading back a status file\<close>

text \<open>A line as the kernel writes it: the key, white space, the number in decimal, the unit.\<close>

definition status_text :: "string \<Rightarrow> string \<Rightarrow> nat \<Rightarrow> string" where
  "status_text key white n = key @ white @ show_nat n @ '' kB\<newline>''"

definition starts_with :: "string \<Rightarrow> string \<Rightarrow> bool" where
  "starts_with key line \<longleftrightarrow> take (length key) line = key"

lemma scan_literals:
  "scan (map Literal key @ ds) line = (if starts_with key line then scan ds (drop (length key) line) else [])"
  unfolding starts_with_def
proof (induction key arbitrary: line)
  case (Cons c key)
  then show ?case by (cases line) auto
qed simp

lemma takeWhile_digits_show: "takeWhile isdigit (show_nat n @ CHR '' '' # s) = show_nat n"
  using show_nat_digits [of n] by (simp add: takeWhile_append2 isdigit_def)

lemma dropWhile_white: "\<forall>c \<in> set white. isspace c \<Longrightarrow> dropWhile isspace (white @ s) = dropWhile isspace s"
  by (rule dropWhile_append2) blast

lemma scan_unsigned_show:
  assumes "n < 2 ^ 64" and "\<forall>c \<in> set white. isspace c"
  shows "\<exists>rest. scan_unsigned (white @ show_nat n @ CHR '' '' # s) = Some (of_nat n, rest)"
proof -
  obtain c cs where c: "show_nat n = c # cs" "\<not> isspace c" "c \<noteq> CHR ''-''" "c \<noteq> CHR ''+''"
    by (rule show_nat_Cons)
  then have drop: "dropWhile isspace (white @ show_nat n @ CHR '' '' # s) = show_nat n @ CHR '' '' # s"
    using dropWhile_white [OF assms(2)] by simp
  have "show_nat n \<noteq> []" using c by simp
  then show ?thesis
    using c assms(1) takeWhile_digits_show [of n s] read_show_nat [of n]
    unfolding scan_unsigned_def drop by (simp add: Let_def)
qed

lemma scan_status_text:
  assumes "n < 2 ^ 64" and "\<forall>c \<in> set white. isspace c"
  shows "\<exists>ns. scan (status_format key) (status_text key white n) = of_nat n # ns"
proof -
  obtain c cs where c: "show_nat n = c # cs" "\<not> isspace c"
    by (rule show_nat_Cons)
  have "starts_with key (status_text key white n)" "drop (length key) (status_text key white n)
      = white @ show_nat n @ CHR '' '' # ''kB\<newline>''"
    by (simp_all add: starts_with_def status_text_def)
  then have "scan (status_format key) (status_text key white n)
      = scan ([WhiteSpace, Unsigned64, WhiteSpace] @ map Literal ''kB'') (white @ show_nat n @ CHR '' '' # ''kB\<newline>'')"
    unfolding status_format_def scan_literals by simp
  also have "\<dots> = scan ([Unsigned64, WhiteSpace] @ map Literal ''kB'') (show_nat n @ CHR '' '' # ''kB\<newline>'')"
    using c dropWhile_white [OF assms(2)] by simp
  finally show ?thesis using scan_unsigned_show [OF assms(1), of "[]" "''kB\<newline>''"] by auto
qed

lemma scan_other: "\<not> starts_with key line \<Longrightarrow> scan (status_format key) line = []"
  by (simp add: status_format_def scan_literals)

lemma scan_others:
  assumes "\<forall>line \<in> set lines. \<not> starts_with ''VmRSS:'' line \<and> \<not> starts_with ''RssAnon:'' line"
  shows "foldl scan_status_line st lines = st"
  using assms by (induction lines arbitrary: st) (simp_all add: scan_status_line_def scan_other)

lemma other_key:
  "\<not> starts_with ''RssAnon:'' (status_text ''VmRSS:'' white n)"
  "\<not> starts_with ''VmRSS:'' (status_text ''RssAnon:'' white n)"
  by (simp_all add: starts_with_def status_text_def)

lemma read_status_text:
  assumes "m < 2 ^ 64 - 1" and "n < 2 ^ 64 - 1"
    and "\<forall>c \<in> set (white1 @ white2). isspace c"
    and "\<forall>line \<in> set (before @ between @ after). \<not> starts_with ''VmRSS:'' line \<and> \<not> starts_with ''RssAnon:'' line"
  shows "readProcessStatus (Some (before @ [status_text ''VmRSS:'' white1 m] @ between
      @ [status_text ''RssAnon:'' white2 n] @ after)) = Inr \<lparr>VmRSS = of_nat m, RssAnon = of_nat n\<rparr>"
proof -
  have white: "\<forall>c \<in> set white1. isspace c" "\<forall>c \<in> set white2. isspace c" using assms(3) by auto
  have lines: "foldl scan_status_line st before = st" "foldl scan_status_line st between = st"
    "foldl scan_status_line st after = st" for st
    using assms(4) by (auto intro!: scan_others)
  have vm: "scan_status_line st (status_text ''VmRSS:'' white1 m) = st\<lparr>VmRSS := of_nat m\<rparr>" for st
    using scan_status_text [of m white1 "''VmRSS:''"] assms(1) white(1) scan_other [OF other_key(1)]
    by (auto simp: scan_status_line_def)
  have rss: "scan_status_line st (status_text ''RssAnon:'' white2 n) = st\<lparr>RssAnon := of_nat n\<rparr>" for st
    using scan_status_text [of n white2 "''RssAnon:''"] assms(2) white(2) scan_other [OF other_key(2)]
    by (auto simp: scan_status_line_def)
  have small: "of_nat k \<noteq> (- 1 :: uint64)" if "k < 2 ^ 64 - 1" for k
  proof -
    have "unat (of_nat k :: uint64) = k" using that by (simp add: unsigned_of_nat take_bit_nat_eq_self)
    moreover have "unat (- 1 :: uint64) = 2 ^ 64 - 1" by (simp add: unsigned_minus_1_eq_mask mask_eq_exp_minus_1)
    ultimately show ?thesis using that by auto
  qed
  show ?thesis
    using small [OF assms(1)] small [OF assms(2)]
    by (simp add: readProcessStatus_def lines vm rss initialStatus_def)
qed

text \<open>
  C39. The two numbers the kernel wrote are read back, whatever white space follows the keys and
  whatever other lines stand around them.
\<close>

theorem status_roundtrip:
  assumes "m < 2 ^ 64 - 1" and "n < 2 ^ 64 - 1"
    and "\<forall>c \<in> set (white1 @ white2). isspace c"
    and "\<forall>line \<in> set (before @ between @ after). \<not> starts_with ''VmRSS:'' line \<and> \<not> starts_with ''RssAnon:'' line"
  shows "readProcessStatus (Some (before @ [status_text ''VmRSS:'' white1 m] @ between
      @ [status_text ''RssAnon:'' white2 n] @ after)) = Inr \<lparr>VmRSS = of_nat m, RssAnon = of_nat n\<rparr>"
  using assms by (rule read_status_text)

theorem status_roundtrip_witness:
  "readProcessStatus (Some [''Name: app\<newline>'', ''VmRSS:   5120 kB\<newline>'', ''RssAnon: 77 kB\<newline>'', ''Threads: 3\<newline>''])
     = Inr \<lparr>VmRSS = 5120, RssAnon = 77\<rparr>"
proof -
  have "show_nat 5120 = ''5120''" "show_nat 77 = ''77''"
    by (simp_all add: show_nat.simps char_of_digit_def) code_simp+
  with status_roundtrip [of 5120 77 "''   ''" "'' ''" "[''Name: app\<newline>'']" "[]" "[''Threads: 3\<newline>'']"] show ?thesis
    by (simp add: status_text_def isspace_def starts_with_def)
qed

text \<open>
  Without one of the two lines, or without the file, no numbers are made up: the call ends the
  process.
\<close>

theorem status_missing:
  assumes "\<forall>line \<in> set lines. \<not> starts_with key line" and "key = ''VmRSS:'' \<or> key = ''RssAnon:''"
  shows "readProcessStatus (Some lines) = Inl Aborted \<and> readProcessStatus None = Inl Exited"
proof -
  have "RssAnon (foldl scan_status_line st lines) = RssAnon st" if "key = ''RssAnon:''" for st
    using assms(1) that
    by (induction lines arbitrary: st) (auto simp: scan_status_line_def scan_other split: list.split)
  moreover have "VmRSS (foldl scan_status_line st lines) = VmRSS st" if "key = ''VmRSS:''" for st
    using assms(1) that
    by (induction lines arbitrary: st) (auto simp: scan_status_line_def scan_other split: list.split)
  ultimately show ?thesis using assms(2) by (auto simp: readProcessStatus_def initialStatus_def Let_def)
qed

theorem status_missing_witness:
  "readProcessStatus (Some [''VmRSS: 4 kB\<newline>'']) = Inl Aborted \<and> readProcessStatus None = Inl Exited"
  by (rule status_missing [of _ "''RssAnon:''"]) (simp_all add: starts_with_def)


section \<open>The report\<close>

fun fields :: "string \<Rightarrow> string list" where
  "fields [] = [[]]"
| "fields (c # s) = (if c = CHR 0x09 \<or> c = CHR 0x0A then [] # fields s
     else case fields s of [] \<Rightarrow> [[c]] | f # fs \<Rightarrow> (c # f) # fs)"

definition plain :: "string \<Rightarrow> bool" where
  "plain s \<longleftrightarrow> CHR 0x09 \<notin> set s \<and> CHR 0x0A \<notin> set s"

lemma fields_Nil [simp]: "fields s \<noteq> []"
  by (induction s rule: fields.induct) (auto split: list.split)

lemma fields_append: "plain f \<Longrightarrow> fields (f @ CHR 0x09 # s) = f # fields s"
  "plain f \<Longrightarrow> fields (f @ CHR 0x0A # s) = f # fields s"
  by (induction f) (auto simp: plain_def)

lemma fields_tab_separated: "\<forall>f \<in> set (f # fs). plain f \<Longrightarrow> fields (tab_separated (f # fs) @ rest) = f # fs @ fields rest"
  by (induction fs arbitrary: f) (simp_all add: fields_append)

lemma fields_tab_separated_list:
  "fs \<noteq> [] \<Longrightarrow> \<forall>f \<in> set fs. plain f \<Longrightarrow> fields (tab_separated fs @ rest) = fs @ fields rest"
  using fields_tab_separated by (cases fs) auto

lemma plain_numbers: "plain (show_nat n)" "plain (show_int i)" "plain (show_double x)"
proof -
  show n: "plain (show_nat n)" for n
    using show_nat_digits [of n] by (auto simp: plain_def isdigit_def)
  show "plain (show_int i)" using n by (simp add: show_int_def plain_def)
  show "plain (show_double x)"
    using show_double_chars [of x] by (auto simp: plain_def number_char_def isdigit_def)
qed

definition sample_fields :: "(nat \<times> nat) \<times> Mallinfo \<times> string list option \<Rightarrow> string list" where
  "sample_fields = (\<lambda>(tv, info, file). case readProcessStatus file of Inl _ \<Rightarrow> []
     | Inr st \<Rightarrow> [show_double (sample_time tv), show_nat (unat (1024 * VmRSS st)),
      show_nat (unat (1024 * RssAnon st)), show_int (arena info),
      show_int (ordblks info), show_int (hblks info), show_int (hblkhd info), show_int (uordblks info),
      show_int (fordblks info), show_int (keepcost info)])"

lemma fields_samples:
  assumes "mallinfo_samples samples report = Inr out"
  shows "\<exists>rest. out = report @ rest \<and> fields rest = concat (map sample_fields samples) @ [[]]"
  using assms
proof (induction samples report rule: mallinfo_samples.induct)
  case (2 tv info status samples report)
  then obtain st where st: "readProcessStatus status = Inr st"
    and rest: "mallinfo_samples samples (report @ report_row (sample_time tv) st info) = Inr out"
    by (auto simp: andThen_Inr_iff)
  from 2(1) [OF rest] obtain r where "out = report @ report_row (sample_time tv) st info @ r"
    "fields r = concat (map sample_fields samples) @ [[]]" by auto
  moreover have "fields (report_row (sample_time tv) st info @ r) = sample_fields (tv, info, status) @ fields r"
    using plain_numbers unfolding report_row_def by (subst fields_tab_separated) (auto simp: sample_fields_def st)
  ultimately show ?case by auto
qed simp

text \<open>
  The report is a table that a reader can split again: after the header of ten columns it has
  ten fields for every sample, in order, with the time, the two resident sizes in bytes and the
  allocator's numbers in decimal; and if the process was ended before, a sample's status could not be read.
\<close>

theorem report_columns:
  "(case mallinfoThreadMain samples of
      Inr out \<Rightarrow> fields out = column_names @ concat (map sample_fields samples) @ [[]]
        \<and> length (fields out) = 10 * (length samples + 1) + 1
    | Inl _ \<Rightarrow> \<exists>(tv, info, file) \<in> set samples. \<exists>e. readProcessStatus file = Inl e)"
proof (cases "mallinfoThreadMain samples")
  case (Inr out)
  then obtain rest where rest: "out = report_header @ rest" "fields rest = concat (map sample_fields samples) @ [[]]"
    using fields_samples unfolding mallinfoThreadMain_def by blast
  have "\<forall>f \<in> set column_names. plain f" by (simp add: column_names_def plain_def)
  then have "fields (tab_separated column_names @ rest) = column_names @ fields rest"
    by (intro fields_tab_separated_list) (simp_all add: column_names_def)
  then have out: "fields out = column_names @ concat (map sample_fields samples) @ [[]]"
    using rest by (simp add: report_header_def)
  have "length (concat (map sample_fields samples)) = 10 * length samples"
    if "mallinfo_samples samples report = Inr out" for samples report
    using that
    by (induction samples report rule: mallinfo_samples.induct) (auto simp: andThen_Inr_iff sample_fields_def)
  then have "length (fields out) = 10 * (length samples + 1) + 1"
    using Inr by (simp add: out mallinfoThreadMain_def column_names_def)
  with out Inr show ?thesis by simp
next
  case (Inl e)
  have "\<exists>(tv, info, file) \<in> set samples. \<exists>e. readProcessStatus file = Inl e"
    if "mallinfo_samples samples report = Inl e" for samples report
    using that by (induction samples report rule: mallinfo_samples.induct) (auto simp: andThen_Inl_iff)
  with Inl show ?thesis by (auto simp: mallinfoThreadMain_def)
qed

end
