(* ===== verification/Interned_Stack_Trace.thy ===== *)
theory Interned_Stack_Trace
  imports Stack_Trace Unordered_Map "HOL-Library.Multiset"
begin

text \<open>
  \<^verbatim>\<open>mmap-counter/interned-stack-trace.h\<close>: stack traces shared by all mappings made from the
  same place. The store has the table from hashes to shared objects and, for every
  shared object, the trace and the use count of its shared pointers. A handle (an object of
  the class) is the identity of the shared object it points to; copies of a handle count
  as uses. The identity of a new object is an argument.
\<close>

section \<open>Operations\<close>

record InternedStore =
  s_stackTraces :: "(uint64, nat) unordered_map"
  shared :: "nat \<rightharpoonup> StackTrace \<times> nat"

definition emptyStore :: InternedStore where
  "emptyStore = \<lparr>s_stackTraces = [], shared = Map.empty\<rparr>"

definition intern_copy :: "nat \<Rightarrow> InternedStore \<Rightarrow> InternedStore outcome" where
  "intern_copy i s = (case shared s i of None \<Rightarrow> Inl DanglingReference
     | Some (t, n) \<Rightarrow> Inr (s\<lparr>shared := (shared s)(i \<mapsto> (t, n + 1))\<rparr>))"

definition intern_construct :: "nat \<Rightarrow> StackTrace \<Rightarrow> InternedStore \<Rightarrow> (nat \<times> InternedStore) outcome" where
  "intern_construct new st s =
     (case um_find (s_stackTraces s) (m_hash st) of
        Some i \<Rightarrow> andThen (intern_copy i s) (\<lambda>s'. Inr (i, s'))
      | None \<Rightarrow> Inr (new, s\<lparr>s_stackTraces := um_set (m_hash st) new (s_stackTraces s),
                           shared := (shared s)(new \<mapsto> (st, 2))\<rparr>))"

definition intern_get :: "nat \<Rightarrow> InternedStore \<Rightarrow> StackTrace outcome" where
  "intern_get i s = (case shared s i of None \<Rightarrow> Inl DanglingReference | Some (t, n) \<Rightarrow> Inr t)"

definition intern_getShared :: "nat \<Rightarrow> InternedStore \<Rightarrow> (nat \<times> InternedStore) outcome" where
  "intern_getShared i s = andThen (intern_copy i s) (\<lambda>s'. Inr (i, s'))"

text \<open>The end of a shared pointer that is not part of a handle: the library's reference counting.\<close>

definition release_shared :: "nat \<Rightarrow> InternedStore \<Rightarrow> InternedStore outcome" where
  "release_shared i s = (case shared s i of None \<Rightarrow> Inl DanglingReference
     | Some (t, n) \<Rightarrow> Inr (s\<lparr>shared := (shared s)(i := if n = 1 then None else Some (t, n - 1))\<rparr>))"

definition intern_destroy :: "nat \<Rightarrow> InternedStore \<Rightarrow> InternedStore outcome" where
  "intern_destroy i s =
     (case shared s i of None \<Rightarrow> Inl DanglingReference
      | Some (t, n) \<Rightarrow>
          andThen (check (2 \<le> n) AssertionFailed) (\<lambda>_.
          if n = 2
          then let n' = (if um_find (s_stackTraces s) (m_hash t) = Some i then 1 else 2)
               in andThen (check (n' = (1 :: nat)) AssertionFailed) (\<lambda>_.
                  Inr (s\<lparr>s_stackTraces := um_erase (m_hash t) (s_stackTraces s), shared := (shared s)(i := None)\<rparr>))
          else Inr (s\<lparr>shared := (shared s)(i \<mapsto> (t, n - 1))\<rparr>)))"

section \<open>The store holds the traces in use\<close>

text \<open>
  For a multiset of live handles: the objects are those with a handle, each is in the table under
  its hash, and its use count is the number of its handles plus the table's own use.
\<close>

definition interned_ok :: "InternedStore \<Rightarrow> nat multiset \<Rightarrow> bool" where
  "interned_ok s H \<longleftrightarrow> um_ok (s_stackTraces s)
     \<and> (\<forall>i. shared s i = None \<longleftrightarrow> i \<notin># H)
     \<and> (\<forall>i t n. shared s i = Some (t, n) \<longrightarrow> n = count H i + 1 \<and> um_find (s_stackTraces s) (m_hash t) = Some i)
     \<and> (\<forall>h i. um_find (s_stackTraces s) h = Some i \<longrightarrow> (\<exists>t n. shared s i = Some (t, n) \<and> m_hash t = h))"

lemma interned_ok_empty: "interned_ok emptyStore {#}"
  by (simp add: interned_ok_def emptyStore_def um_simps)

lemma interned_okI:
  assumes "um_ok (s_stackTraces s)" and "\<And>i. shared s i = None \<longleftrightarrow> i \<notin># H"
    and "\<And>i t n. shared s i = Some (t, n) \<Longrightarrow> n = count H i + 1 \<and> um_find (s_stackTraces s) (m_hash t) = Some i"
    and "\<And>h i. um_find (s_stackTraces s) h = Some i \<Longrightarrow> \<exists>t n. shared s i = Some (t, n) \<and> m_hash t = h"
  shows "interned_ok s H"
  using assms unfolding interned_ok_def by blast

lemma handle_object:
  assumes "interned_ok s H" and "i \<in># H"
  obtains t where "shared s i = Some (t, count H i + 1)" "um_find (s_stackTraces s) (m_hash t) = Some i"
proof -
  have "shared s i \<noteq> None" using assms unfolding interned_ok_def by blast
  then obtain t n where i: "shared s i = Some (t, n)" by auto
  then have "n = count H i + 1 \<and> um_find (s_stackTraces s) (m_hash t) = Some i"
    using assms(1) unfolding interned_ok_def by blast
  with i that show ?thesis by blast
qed

lemma interned_ok_recount:
  assumes ok: "interned_ok s H" and i: "shared s i = Some (t, n)"
    and H: "\<And>j. j \<noteq> i \<Longrightarrow> count H' j = count H j" "i \<in># H'"
  shows "interned_ok (s\<lparr>shared := (shared s)(i \<mapsto> (t, count H' i + 1))\<rparr>) H'"
proof (rule interned_okI)
  note ok' = ok [unfolded interned_ok_def]
  show "um_ok (s_stackTraces (s\<lparr>shared := (shared s)(i \<mapsto> (t, count H' i + 1))\<rparr>))" using ok' by simp
  have in_iff: "j \<in># H' \<longleftrightarrow> j \<in># H" if "j \<noteq> i" for j
    using H(1) [OF that] by (metis not_in_iff)
  show "shared (s\<lparr>shared := (shared s)(i \<mapsto> (t, count H' i + 1))\<rparr>) j = None \<longleftrightarrow> j \<notin># H'" for j
    using ok' in_iff [of j] H(2) by (cases "j = i") simp_all
  fix j t' n' assume "shared (s\<lparr>shared := (shared s)(i \<mapsto> (t, count H' i + 1))\<rparr>) j = Some (t', n')"
  then show "n' = count H' j + 1 \<and> um_find (s_stackTraces (s\<lparr>shared := (shared s)(i \<mapsto> (t, count H' i + 1))\<rparr>)) (m_hash t') = Some j"
    using ok' i H(1) [of j] by (cases "j = i") auto
next
  note ok' = ok [unfolded interned_ok_def]
  fix h j assume "um_find (s_stackTraces (s\<lparr>shared := (shared s)(i \<mapsto> (t, count H' i + 1))\<rparr>)) h = Some j"
  then have "\<exists>t n. shared s j = Some (t, n) \<and> m_hash t = h" using ok' by simp
  then show "\<exists>t' n'. shared (s\<lparr>shared := (shared s)(i \<mapsto> (t, count H' i + 1))\<rparr>) j = Some (t', n') \<and> m_hash t' = h"
    using i by (cases "j = i") auto
qed

lemma intern_copy_ok:
  assumes ok: "interned_ok s H" and "i \<in># H"
  shows "\<exists>s'. intern_copy i s = Inr s' \<and> interned_ok s' (add_mset i H) \<and> s_stackTraces s' = s_stackTraces s
    \<and> (\<forall>j. map_option fst (shared s' j) = map_option fst (shared s j))"
proof -
  obtain t where i: "shared s i = Some (t, count H i + 1)" "um_find (s_stackTraces s) (m_hash t) = Some i"
    using handle_object [OF assms] .
  have "interned_ok (s\<lparr>shared := (shared s)(i \<mapsto> (t, count (add_mset i H) i + 1))\<rparr>) (add_mset i H)"
    by (rule interned_ok_recount [OF ok i(1)]) simp_all
  with i show ?thesis by (simp add: intern_copy_def)
qed

lemma intern_construct_ok:
  assumes ok: "interned_ok s H" and new: "new \<notin># H"
  shows "\<exists>i s'. intern_construct new st s = Inr (i, s') \<and> interned_ok s' (add_mset i H)
    \<and> um_find (s_stackTraces s') (m_hash st) = Some i
    \<and> (\<exists>t. intern_get i s' = Inr t \<and> m_hash t = m_hash st
        \<and> (um_find (s_stackTraces s) (m_hash st) = None \<longrightarrow> t = st))"
proof (cases "um_find (s_stackTraces s) (m_hash st)")
  case (Some i)
  then obtain t n where t: "shared s i = Some (t, n)" "m_hash t = m_hash st"
    using ok unfolding interned_ok_def by blast
  then have "i \<in># H" using ok unfolding interned_ok_def by (metis option.distinct(1))
  from intern_copy_ok [OF ok this] obtain s' where s': "intern_copy i s = Inr s'"
    "interned_ok s' (add_mset i H)" "s_stackTraces s' = s_stackTraces s"
    "map_option fst (shared s' i) = map_option fst (shared s i)" by blast
  then have "intern_get i s' = Inr t" using t by (auto simp: intern_get_def)
  with Some s' t show ?thesis by (simp add: intern_construct_def)
next
  case None
  let ?s = "s\<lparr>s_stackTraces := um_set (m_hash st) new (s_stackTraces s), shared := (shared s)(new \<mapsto> (st, 2))\<rparr>"
  note ok' = ok [unfolded interned_ok_def]
  have fresh: "shared s new = None" using ok' new by blast
  have count: "count H new = 0" using new by (simp add: not_in_iff)
  have "interned_ok ?s (add_mset new H)"
  proof (rule interned_okI)
    show "um_ok (s_stackTraces ?s)" using ok' by (simp add: um_simps)
    show "shared ?s i = None \<longleftrightarrow> i \<notin># add_mset new H" for i using ok' by simp
    fix i t n assume "shared ?s i = Some (t, n)"
    moreover have "um_find (s_stackTraces s) (m_hash t) = Some i \<and> n = count H i + 1" if "i \<noteq> new"
      using that calculation ok' by simp
    ultimately show "n = count (add_mset new H) i + 1 \<and> um_find (s_stackTraces ?s) (m_hash t) = Some i"
      using None count by (cases "i = new") (auto simp: um_simps)
  next
    fix h i assume "um_find (s_stackTraces ?s) h = Some i"
    moreover have "\<exists>t n. shared s i = Some (t, n) \<and> m_hash t = h" if "h \<noteq> m_hash st"
      using that calculation ok' by (simp add: um_simps)
    ultimately show "\<exists>t n. shared ?s i = Some (t, n) \<and> m_hash t = h"
      using fresh by (cases "h = m_hash st") (auto simp: um_simps)
  qed
  with None show ?thesis by (simp add: intern_construct_def intern_get_def um_simps)
qed

lemma intern_destroy_ok:
  assumes ok: "interned_ok s H" and i: "i \<in># H"
  shows "\<exists>s'. intern_destroy i s = Inr s' \<and> interned_ok s' (H - {#i#})"
proof -
  obtain t where t: "shared s i = Some (t, count H i + 1)" "um_find (s_stackTraces s) (m_hash t) = Some i"
    using handle_object [OF assms] .
  note ok' = ok [unfolded interned_ok_def]
  have pos: "0 < count H i" using i by simp
  show ?thesis
  proof (cases "count H i = 1")
    case True
    let ?s = "s\<lparr>s_stackTraces := um_erase (m_hash t) (s_stackTraces s), shared := (shared s)(i := None)\<rparr>"
    have "interned_ok ?s (H - {#i#})"
    proof (rule interned_okI)
      show "um_ok (s_stackTraces ?s)" using ok' by (simp add: um_simps)
      show "shared ?s j = None \<longleftrightarrow> j \<notin># H - {#i#}" for j
        using ok' True by (cases "j = i") (auto simp: not_in_iff in_diff_count)
      fix j t' n assume "shared ?s j = Some (t', n)"
      then have j: "j \<noteq> i" "shared s j = Some (t', n)" by (auto split: if_splits)
      then have "n = count H j + 1 \<and> um_find (s_stackTraces s) (m_hash t') = Some j" using ok' by blast
      moreover from this have "m_hash t' \<noteq> m_hash t" using t(2) j(1) by auto
      ultimately show "n = count (H - {#i#}) j + 1 \<and> um_find (s_stackTraces ?s) (m_hash t') = Some j"
        using j(1) by (simp add: um_simps)
    next
      fix h j assume "um_find (s_stackTraces ?s) h = Some j"
      then have "h \<noteq> m_hash t" "um_find (s_stackTraces s) h = Some j" by (auto simp: um_simps split: if_splits)
      then obtain t' n where "shared s j = Some (t', n)" "m_hash t' = h" using ok' by blast
      with \<open>h \<noteq> m_hash t\<close> t(1) show "\<exists>t n. shared ?s j = Some (t, n) \<and> m_hash t = h" by (cases "j = i") auto
    qed
    with True t show ?thesis by (simp add: intern_destroy_def)
  next
    case False
    then have two: "count H i + 1 \<noteq> 2" "2 \<le> count H i + 1" using pos by simp_all
    have "1 < count H i" using False pos by linarith
    then have "i \<in># H - {#i#}" by (simp add: in_diff_count)
    then have "interned_ok (s\<lparr>shared := (shared s)(i \<mapsto> (t, count (H - {#i#}) i + 1))\<rparr>) (H - {#i#})"
      by (intro interned_ok_recount [OF ok t(1)]) simp_all
    moreover have "count (H - {#i#}) i + 1 = count H i + 1 - 1" using pos by simp
    ultimately show ?thesis using t two by (simp add: intern_destroy_def)
  qed
qed


lemma interned_ok_empty_store:
  assumes "interned_ok s {#}"
  shows "shared s = Map.empty \<and> um_find (s_stackTraces s) = Map.empty"
proof
  show "shared s = Map.empty" using assms by (auto simp: interned_ok_def)
  then show "um_find (s_stackTraces s) = Map.empty"
    using assms by (auto simp: interned_ok_def fun_eq_iff intro: option.exhaust)
qed

section \<open>Programs that use handles\<close>

text \<open>
  A program creates handles from captured traces, copies handles it holds and destroys
  handles it holds; the ghost state is the multiset of the handles it holds.
\<close>

inductive handles_reach :: "InternedStore \<Rightarrow> nat multiset \<Rightarrow> bool" where
  start: "handles_reach emptyStore {#}"
| make: "handles_reach s H \<Longrightarrow> new \<notin># H \<Longrightarrow> intern_construct new st s = Inr (i, s')
    \<Longrightarrow> handles_reach s' (add_mset i H)"
| copy: "handles_reach s H \<Longrightarrow> i \<in># H \<Longrightarrow> intern_copy i s = Inr s' \<Longrightarrow> handles_reach s' (add_mset i H)"
| drop: "handles_reach s H \<Longrightarrow> i \<in># H \<Longrightarrow> intern_destroy i s = Inr s' \<Longrightarrow> handles_reach s' (H - {#i#})"

lemma reach_ok: "handles_reach s H \<Longrightarrow> interned_ok s H"
proof (induction rule: handles_reach.induct)
  case start
  show ?case by (rule interned_ok_empty)
next
  case (make s H new st i s')
  then show ?case using intern_construct_ok [of s H new st] by auto
next
  case (copy s H i s')
  then show ?case using intern_copy_ok [of s H i] by auto
next
  case (drop s H i s')
  then show ?case using intern_destroy_ok [of s H i] by auto
qed

text \<open>
  C21. Whatever handles a program has made, copied and destroyed, every further operation on them
  returns with its assertions satisfied, a handle it holds gives a trace, and when it has
  destroyed all of them the store is empty: no trace is leaked and none is lost early.
\<close>

theorem interned_traces_exact:
  assumes "handles_reach s H"
  shows "(\<forall>i. i \<in># H \<longrightarrow> (\<exists>t. intern_get i s = Inr t) \<and> (\<exists>s'. intern_copy i s = Inr s')
        \<and> (\<exists>s'. intern_destroy i s = Inr s'))
    \<and> (\<forall>new st. new \<notin># H \<longrightarrow> (\<exists>i s'. intern_construct new st s = Inr (i, s')))
    \<and> (H = {#} \<longrightarrow> shared s = Map.empty \<and> um_find (s_stackTraces s) = Map.empty)"
proof -
  have ok: "interned_ok s H" using assms by (rule reach_ok)
  have "(\<exists>t. intern_get i s = Inr t) \<and> (\<exists>s'. intern_copy i s = Inr s') \<and> (\<exists>s'. intern_destroy i s = Inr s')"
    if i: "i \<in># H" for i
  proof -
    obtain t where "shared s i = Some (t, count H i + 1)" using handle_object [OF ok i] .
    then have "\<exists>t. intern_get i s = Inr t" by (simp add: intern_get_def)
    with intern_copy_ok [OF ok i] intern_destroy_ok [OF ok i] show ?thesis by blast
  qed
  moreover have "\<exists>i s'. intern_construct new st s = Inr (i, s')" if "new \<notin># H" for new st
    using intern_construct_ok [OF ok that, of st] by blast
  ultimately show ?thesis using interned_ok_empty_store ok by blast
qed

definition trace_a :: StackTrace where
  "trace_a = \<lparr>m_returnAddresses = [2, 4], m_hash = 0\<rparr>"

definition trace_b :: StackTrace where
  "trace_b = \<lparr>m_returnAddresses = [], m_hash = 0\<rparr>"

definition store_a :: InternedStore where
  "store_a = \<lparr>s_stackTraces = [(0, 7)], shared = [7 \<mapsto> (trace_a, 2)]\<rparr>"

lemma store_a_made: "intern_construct 7 trace_a emptyStore = Inr (7, store_a)"
  by (simp add: intern_construct_def emptyStore_def um_find_def um_set_def store_a_def trace_a_def)

lemma store_a_reached: "handles_reach store_a {#7#}"
  using handles_reach.make [OF handles_reach.start _ store_a_made] by simp

theorem interned_traces_exact_witness:
  "\<exists>s'. intern_destroy 7 store_a = Inr s' \<and> shared s' = Map.empty"
proof -
  obtain s' where s': "intern_destroy 7 store_a = Inr s'"
    using interned_traces_exact [OF store_a_reached] by auto
  from handles_reach.drop [OF store_a_reached _ this] have "handles_reach s' {#}" by simp
  with s' show ?thesis by (auto dest: interned_traces_exact)
qed

text \<open>
  The table is keyed by the hash alone: when a trace hashes as one that is already interned, its
  handle is that of the other trace, and reading it back gives the other trace.
\<close>

theorem colliding_traces_conflated:
  assumes "handles_reach s H" and "i \<in># H" and "intern_get i s = Inr t" and "m_hash st = m_hash t"
  shows "\<exists>s'. intern_construct new st s = Inr (i, s') \<and> intern_get i s' = Inr t"
proof -
  have ok: "interned_ok s H" using assms(1) by (rule reach_ok)
  obtain t' where t': "shared s i = Some (t', count H i + 1)" "um_find (s_stackTraces s) (m_hash t') = Some i"
    using handle_object [OF ok assms(2)] .
  with assms(3) have "t' = t" by (simp add: intern_get_def)
  with t' assms(4) show ?thesis by (simp add: intern_construct_def intern_copy_def intern_get_def)
qed

theorem colliding_traces_conflated_witness:
  "trace_b \<noteq> trace_a \<and> (\<exists>s'. intern_construct 9 trace_b store_a = Inr (7, s') \<and> intern_get 7 s' = Inr trace_a)"
proof -
  have "intern_get 7 store_a = Inr trace_a" by (simp add: intern_get_def store_a_def)
  from colliding_traces_conflated [OF store_a_reached _ this, of trace_b 9] show ?thesis
    by (simp add: trace_a_def trace_b_def)
qed

text \<open>
  The destructor counts on the pointers being handles: a shared pointer obtained from getShared that outlives
  the last handle keeps the destructor from erasing the trace, and nothing erases it when that pointer
  goes, so the trace stays in the table with no handle left. (No code of the repository calls getShared.)
\<close>

theorem shared_pointer_strands_trace:
  assumes "handles_reach s {#i#}" and "intern_get i s = Inr t"
  shows "\<exists>s1 s2 s3. intern_getShared i s = Inr (i, s1) \<and> intern_destroy i s1 = Inr s2 \<and> release_shared i s2 = Inr s3
    \<and> shared s3 i = Some (t, 1) \<and> um_find (s_stackTraces s3) (m_hash t) = Some i"
proof -
  have "interned_ok s {#i#}" using assms(1) by (rule reach_ok)
  then obtain t' where "shared s i = Some (t', count {#i#} i + 1)" "um_find (s_stackTraces s) (m_hash t') = Some i"
    by (rule handle_object) simp
  with assms(2) show ?thesis
    by (simp add: intern_getShared_def intern_copy_def intern_destroy_def release_shared_def intern_get_def)
qed

theorem shared_pointer_strands_trace_witness:
  "\<exists>s1 s2 s3. intern_getShared 7 store_a = Inr (7, s1) \<and> intern_destroy 7 s1 = Inr s2 \<and> release_shared 7 s2 = Inr s3
    \<and> shared s3 7 = Some (trace_a, 1)"
proof -
  have "intern_get 7 store_a = Inr trace_a" by (simp add: intern_get_def store_a_def)
  from shared_pointer_strands_trace [OF store_a_reached this] show ?thesis by blast
qed

end
