(* ===== verification/Wrapper_Mmap.thy ===== *)
theory Wrapper_Mmap
  imports Memory_Map Interned_Stack_Trace Library_Context Allocation_Stats Cpp_Print
begin

text \<open>
  \<^verbatim>\<open>mmap-counter/wrapper-mmap.cpp\<close>: the functions the library puts in place of mmap and
  munmap. The static objects of the file (the memory map, the numbers given to stack traces, the
  two logs), the store of interned traces and the calling thread's library flag are one state. The
  mutex is held over the part that changes it, so a call is one transition. What a call reads
  besides (the page size sysconf reports, the trace captured, the identities of the objects it
  creates, the clock) is a record of parameters; a real function is an argument.
\<close>

section \<open>The wrappers\<close>

definition mmap_roundUpToPageMultiple :: "uint64 \<Rightarrow> uint64 \<Rightarrow> uint32" where
  "mmap_roundUpToPageMultiple page n = to_uint32 (and (n + (page - 1)) (not (page - 1)))"

record MmapProcess =
  memoryMap :: MemoryMap
  knownStackTraceHashToId :: "(uint64, uint64) unordered_map"
  internedTraces :: InternedStore
  eventLog :: string
  stackLog :: OStream
  caller_inLibrary :: bool

record MmapCall =
  sysconf_page :: uint64
  trace_here :: StackTrace
  new_trace :: nat
  new_allocation :: nat
  clock_sec :: nat
  clock_nsec :: nat
  symbols :: "ptr \<Rightarrow> Dl_info option"
  print_environment :: Environment

text \<open>The file's own getTime, as it appears in the log: the clock as a double, printed by the stream.\<close>

definition event_time :: "MmapCall \<Rightarrow> rat" where
  "event_time c = getTime (clock_sec c) (clock_nsec c)"

definition now_text :: "MmapCall \<Rightarrow> string" where
  "now_text c = show_double (event_time c)"

definition MAP_ANONYMOUS :: uint32 where
  "MAP_ANONYMOUS = 32"

definition getOrAssignStackId ::
  "StackTrace \<Rightarrow> (uint64, uint64) unordered_map \<Rightarrow> (uint64 \<times> bool) \<times> (uint64, uint64) unordered_map" where
  "getOrAssignStackId st known =
     (let newId = of_nat (length known) + 1;
          known' = um_emplace (m_hash st) newId known
      in case um_find known (m_hash st) of
           Some oldId \<Rightarrow> ((oldId, False), known')
         | None \<Rightarrow> ((newId, True), known'))"

text \<open>The objects whose last slice is gone are destroyed, and with each its interned handle.\<close>

definition live_allocations :: "MemoryMap \<Rightarrow> MMapAllocation list" where
  "live_allocations m = remdups (map (\<lambda>(k, s). slice_allocation s) m)"

fun destroy_allocations :: "MMapAllocation list \<Rightarrow> InternedStore \<Rightarrow> InternedStore outcome" where
  "destroy_allocations [] s = Inr s"
| "destroy_allocations (a # as) s =
     andThen (intern_destroy (stackTraceHandle a) s) (destroy_allocations as)"

definition dropped :: "MMapAllocation list \<Rightarrow> MemoryMap \<Rightarrow> MMapAllocation list" where
  "dropped before m = filter (\<lambda>a. a \<notin> set (live_allocations m)) before"

definition log_new_stack :: "MmapCall \<Rightarrow> uint64 \<Rightarrow> StackTrace \<Rightarrow> OStream \<Rightarrow> OStream outcome" where
  "log_new_stack c i st os = andThen
     (print_StackTrace (symbols c) (print_environment c) st
        (put ''\<newline>'' (put_int (unat i) (put ''New stack trace: '' os))))
     (\<lambda>os'. Inr (put ''\<newline>'' os'))"

definition map_line :: "MmapCall \<Rightarrow> ptr \<Rightarrow> uint64 \<Rightarrow> uint64 \<Rightarrow> string" where
  "map_line c ret n i = now_text c @ '' MAP: '' @ show_ptr ret @ '' ('' @ show_nat (unat n)
     @ '' bytes) stackTrace='' @ show_nat (unat i) @ ''\<newline>''"

text \<open>
  The allocation object of the wrapper is local: registerMap moves it into a shared object, but
  the class of its stack trace declares a destructor and so has no move constructor, and the
  handle is copied; the local one is destroyed at the end of the block.
\<close>

definition register_mapping :: "MmapCall \<Rightarrow> ptr \<Rightarrow> uint64 \<Rightarrow> MmapProcess \<Rightarrow> MmapProcess outcome" where
  "register_mapping c ret n p =
     (let start = sint ret in
      andThen (intern_construct (new_trace c) (trace_here c) (internedTraces p)) (\<lambda>(handle, store1).
      let a = MMapAllocation_construct (new_allocation c) handle start
                (uint (mmap_roundUpToPageMultiple (sysconf_page c) n)) in
      andThen (intern_get handle store1) (\<lambda>trace.
      let ((stackTraceId, stackTraceIsNew), known) =
            getOrAssignStackId trace (knownStackTraceHashToId p) in
      andThen (if stackTraceIsNew then log_new_stack c stackTraceId trace (stackLog p)
               else Inr (stackLog p)) (\<lambda>stacks.
      andThen (intern_copy handle store1) (\<lambda>store2.
      let m = registerMap a (memoryMap p) in
      andThen (destroy_allocations (dropped [a] m) store2) (\<lambda>store3.
      andThen (intern_destroy handle store3) (\<lambda>store4.
        Inr (p\<lparr>memoryMap := m, knownStackTraceHashToId := known, internedTraces := store4,
               eventLog := eventLog p @ map_line c ret n stackTraceId, stackLog := stacks\<rparr>))))))))"

definition mmap ::
  "(ptr \<Rightarrow> uint64 \<Rightarrow> int \<Rightarrow> uint32 \<Rightarrow> int \<Rightarrow> int \<Rightarrow> ptr) \<Rightarrow> MmapCall \<Rightarrow>
     ptr \<Rightarrow> uint64 \<Rightarrow> int \<Rightarrow> uint32 \<Rightarrow> int \<Rightarrow> int \<Rightarrow> MmapProcess \<Rightarrow> (ptr \<times> MmapProcess) outcome" where
  "mmap real_mmap c addr n prot flags fd offs p =
     (let ret = real_mmap addr n prot flags fd offs
      in if inLibrary (caller_inLibrary p) then Inr (ret, p)
         else andThen (in_scope (caller_inLibrary p) (\<lambda>flag.
                if ret \<noteq> nullptr \<and> and flags MAP_ANONYMOUS \<noteq> 0
                then register_mapping c ret n (p\<lparr>caller_inLibrary := flag\<rparr>)
                else Inr (p\<lparr>caller_inLibrary := flag\<rparr>)))
              (\<lambda>(p', flag). Inr (ret, p'\<lparr>caller_inLibrary := flag\<rparr>)))"

definition unmap_line :: "MmapCall \<Rightarrow> string \<Rightarrow> ptr \<Rightarrow> uint64 \<Rightarrow> string" where
  "unmap_line c what addr n =
     now_text c @ what @ show_ptr addr @ '' ('' @ show_nat (unat n) @ '' bytes)\<newline>''"

definition register_unmapping :: "MmapCall \<Rightarrow> ptr \<Rightarrow> uint64 \<Rightarrow> MmapProcess \<Rightarrow> MmapProcess outcome" where
  "register_unmapping c addr n p =
     andThen (check (and addr (sysconf_page c - 1) = 0) AssertionFailed) (\<lambda>_.
     andThen (registerUnmap (sint addr) (to_uint64 (mmap_roundUpToPageMultiple (sysconf_page c) n)) (memoryMap p))
       (\<lambda>(known, m).
     andThen (destroy_allocations (dropped (live_allocations (memoryMap p)) m) (internedTraces p)) (\<lambda>store.
       Inr (p\<lparr>memoryMap := m, internedTraces := store,
              eventLog := eventLog p @ (if known then unmap_line c '' UNMAP: '' addr n else [])\<rparr>))))"

definition munmap ::
  "(ptr \<Rightarrow> uint64 \<Rightarrow> int) \<Rightarrow> MmapCall \<Rightarrow> ptr \<Rightarrow> uint64 \<Rightarrow> MmapProcess \<Rightarrow> (int \<times> MmapProcess) outcome" where
  "munmap real_munmap c addr n p =
     (let ret = real_munmap addr n
      in if inLibrary (caller_inLibrary p) then Inr (ret, p)
         else andThen (in_scope (caller_inLibrary p) (\<lambda>flag.
                let p1 = p\<lparr>caller_inLibrary := flag\<rparr>
                in if ret = 0 then register_unmapping c addr n p1
                   else Inr (p1\<lparr>eventLog := eventLog p1
                          @ unmap_line c '' ERROR: UNMAP FAILED: '' addr n\<rparr>)))
              (\<lambda>(p', flag). Inr (ret, p'\<lparr>caller_inLibrary := flag\<rparr>)))"

section \<open>Rounding\<close>

definition page_call :: "MmapCall \<Rightarrow> nat \<Rightarrow> bool" where
  "page_call c k \<longleftrightarrow> k < 32 \<and> sysconf_page c = 2 ^ k"

lemma unat_mmap_round:
  assumes "page_call c k" and "unat n + 2 ^ k \<le> 2 ^ 64"
  shows "unat (mmap_roundUpToPageMultiple (sysconf_page c) n) = (unat n + 2 ^ k - 1) div 2 ^ k * 2 ^ k mod 2 ^ 32"
proof -
  have page: "sysconf_page c - 1 = mask k" "unat (mask k :: uint64) = 2 ^ k - 1"
    using assms(1) by (simp_all add: page_call_def mask_eq_exp_minus_1 unat_pred unat_exp)
  have "unat n + 2 ^ k - 1 < 2 ^ 64" using assms(2) by (simp add: less_eq_Suc_le)
  then have "unat (n + mask k) = unat n + 2 ^ k - 1" by (simp add: unat_word_ariths page(2))
  then have "unat (and (n + mask k) (not (mask k))) = (unat n + 2 ^ k - 1) div 2 ^ k * 2 ^ k"
    by (simp add: unat_and_not_mask)
  then show ?thesis
    by (simp add: mmap_roundUpToPageMultiple_def page(1) unsigned_ucast_eq take_bit_eq_mod)
qed

definition rounded :: "nat \<Rightarrow> uint64 \<Rightarrow> nat" where
  "rounded k n = (unat n + 2 ^ k - 1) div 2 ^ k * 2 ^ k"

lemma rounded_bounds: "2 ^ k dvd rounded k n" "unat n \<le> rounded k n" "rounded k n < unat n + 2 ^ k"
proof -
  have "rounded k n + (unat n + 2 ^ k - 1) mod 2 ^ k = unat n + 2 ^ k - 1"
    unfolding rounded_def by (rule div_mult_mod_eq)
  moreover have "(unat n + 2 ^ k - 1) mod 2 ^ k < 2 ^ k" by simp
  ultimately show "unat n \<le> rounded k n" "rounded k n < unat n + 2 ^ k" by linarith+
qed (simp add: rounded_def)

text \<open>
  The length of a mapping is rounded up to a multiple of the page size and then cut to 32 bits,
  the type the function returns, so it is right exactly below 4 GiB.
\<close>

theorem mmap_round_truncates:
  assumes "page_call c k" and "unat n + 2 ^ k \<le> 2 ^ 64"
  shows "\<exists>q. 2 ^ k dvd q \<and> unat n \<le> q \<and> q < unat n + 2 ^ k
    \<and> unat (mmap_roundUpToPageMultiple (sysconf_page c) n) = q mod 2 ^ 32"
  using rounded_bounds [where k = k and n = n] unat_mmap_round [OF assms]
  by (intro exI [of _ "rounded k n"]) (simp add: rounded_def)

section \<open>Numbers of stack traces\<close>

text \<open>The numbers in use are distinct and count up from one.\<close>

definition ids_ok :: "(uint64, uint64) unordered_map \<Rightarrow> bool" where
  "ids_ok known \<longleftrightarrow> um_ok known
     \<and> (\<forall>h i. um_find known h = Some i \<longrightarrow> 1 \<le> unat i \<and> unat i \<le> length known)
     \<and> (\<forall>h h' i. um_find known h = Some i \<longrightarrow> um_find known h' = Some i \<longrightarrow> h = h')"

lemma getOrAssign_cases:
  "getOrAssignStackId st known = (case um_find known (m_hash st) of
       Some i \<Rightarrow> ((i, False), known)
     | None \<Rightarrow> ((of_nat (length known) + 1, True), known @ [(m_hash st, of_nat (length known) + 1)]))"
  by (auto simp: getOrAssignStackId_def um_emplace_def Let_def split: option.split)

lemma ids_ok_new:
  assumes ok: "ids_ok known" and new: "um_find known h = None" and small: "length known + 1 < 2 ^ 64"
  defines "i \<equiv> of_nat (length known) + 1 :: uint64"
  shows "ids_ok (known @ [(h, i)])"
proof -
  have i: "unat i = length known + 1"
    using small by (simp add: i_def unat_word_ariths unat_of_nat)
  have find: "um_find (known @ [(h, i)]) = (um_find known)(h \<mapsto> i)"
    using new by (auto simp: um_find_def fun_eq_iff map_add_def split: option.split)
  have "h \<notin> fst ` set known" using new by (simp add: um_find_def map_of_eq_None_iff)
  then have "um_ok (known @ [(h, i)])" using ok by (simp add: ids_ok_def um_ok_def)
  moreover have "unat j \<noteq> length known + 1" if "um_find known h' = Some j" for h' j
    using ok that unfolding ids_ok_def by fastforce
  then have fresh: "i \<noteq> j" if "um_find known h' = Some j" for h' j using i that by metis
  moreover have "1 \<le> unat j \<and> unat j \<le> length known + 1" if "um_find known h' = Some j" for h' j
    using ok that unfolding ids_ok_def by fastforce
  ultimately show ?thesis
    using ok i fresh unfolding ids_ok_def find by (simp, blast)
qed

text \<open>
  A stack trace keeps the number it was given first, traces with different hashes have different
  numbers, numbers count up from one, and a number is new exactly once.
\<close>

theorem stack_ids_stable:
  assumes "ids_ok known" and "length known + 1 < 2 ^ 64"
    and "getOrAssignStackId st known = ((i, isNew), known')"
  shows "ids_ok known' \<and> um_find known' (m_hash st) = Some i
    \<and> (isNew \<longleftrightarrow> um_find known (m_hash st) = None) \<and> length known' = length known + (if isNew then 1 else 0)
    \<and> (\<forall>h j. um_find known h = Some j \<longrightarrow> um_find known' h = Some j)"
proof (cases "um_find known (m_hash st)")
  case None
  with assms have i: "i = of_nat (length known) + 1" "isNew" "known' = known @ [(m_hash st, i)]"
    by (auto simp: getOrAssign_cases)
  have "um_find known' = (um_find known)(m_hash st \<mapsto> i)"
    using None by (auto simp: i(3) um_find_def fun_eq_iff map_add_def split: option.split)
  with None ids_ok_new [OF assms(1) None assms(2)] i show ?thesis by auto
next
  case (Some j)
  with assms show ?thesis by (auto simp: getOrAssign_cases)
qed

theorem stack_ids_stable_witness:
  "getOrAssignStackId \<lparr>m_returnAddresses = [8], m_hash = 8\<rparr> [(5, 1)] = ((2, True), [(5, 1), (8, 2)])
   \<and> ids_ok [(5, 1), (8, 2)]"
proof -
  have "ids_ok [(5, 1)]" by (simp add: ids_ok_def um_ok_def um_find_def)
  moreover have "getOrAssignStackId \<lparr>m_returnAddresses = [8], m_hash = 8\<rparr> [(5, 1)] = ((2, True), [(5, 1), (8, 2)])"
    by (simp add: getOrAssign_cases um_find_def)
  ultimately show ?thesis using stack_ids_stable [of "[(5, 1)]"] by simp
qed


section \<open>Handles of the live allocations\<close>

definition handles :: "MemoryMap \<Rightarrow> nat multiset" where
  "handles m = image_mset stackTraceHandle (mset_set (set (live_allocations m)))"

lemma live_allocations_set: "set (live_allocations m) = (\<lambda>(k, s). slice_allocation s) ` set m"
  by (simp add: live_allocations_def)

lemma om_insert_set: "om_insert k v m = m \<or> set (om_insert k v m) = insert (k, v) (set m)"
  by (induction k v m rule: om_insert.induct) auto

lemma registerMap_live:
  "registerMap a m = m \<or> set (live_allocations (registerMap a m)) = insert a (set (live_allocations m))"
proof -
  have "registerMap a m = m \<or> set (registerMap a m) = insert (originalStart a,
      \<lparr>slice_start = originalStart a, slice_size = originalSize a, slice_allocation = a\<rparr>) (set m)"
    unfolding registerMap_def by (rule om_insert_set)
  then show ?thesis by (elim disjE) (simp_all add: live_allocations_set)
qed

lemma destroy_allocations_ok:
  assumes "interned_ok s (image_mset stackTraceHandle (mset_set A))" and "finite A"
    and "distinct as" and "set as \<subseteq> A"
  shows "\<exists>s'. destroy_allocations as s = Inr s'
    \<and> interned_ok s' (image_mset stackTraceHandle (mset_set (A - set as)))"
  using assms
proof (induction as arbitrary: s A)
  case (Cons a as)
  then have a: "a \<in> A" "finite A" by auto
  then have A: "mset_set A = add_mset a (mset_set (A - {a}))"
    by (rule mset_set.remove [rotated])
  then have "stackTraceHandle a \<in># image_mset stackTraceHandle (mset_set A)" by simp
  from intern_destroy_ok [OF Cons.prems(1) this] A obtain s1 where s1: "intern_destroy (stackTraceHandle a) s = Inr s1"
    "interned_ok s1 (image_mset stackTraceHandle (mset_set (A - {a})))" by auto
  have "A - {a} - set as = A - set (a # as)" by auto
  moreover have "\<exists>s'. destroy_allocations as s1 = Inr s'
      \<and> interned_ok s' (image_mset stackTraceHandle (mset_set (A - {a} - set as)))"
    using Cons.prems by (intro Cons.IH s1(2)) auto
  ultimately show ?case using s1(1) by simp
qed simp

lemma dropped_ok:
  assumes "interned_ok s (handles m)" and "set (live_allocations m') \<subseteq> set (live_allocations m)"
  shows "\<exists>s'. destroy_allocations (dropped (live_allocations m) m') s = Inr s' \<and> interned_ok s' (handles m')"
proof -
  let ?A = "set (live_allocations m)"
  have "?A - set (dropped (live_allocations m) m') = set (live_allocations m')"
    using assms(2) by (auto simp: dropped_def)
  moreover have "distinct (dropped (live_allocations m) m')"
    by (simp add: dropped_def live_allocations_def)
  moreover have "set (dropped (live_allocations m) m') \<subseteq> ?A" by (auto simp: dropped_def)
  ultimately show ?thesis
    using destroy_allocations_ok [of s ?A "dropped (live_allocations m) m'"] assms(1)
    by (simp add: handles_def)
qed

lemma splitAt_live:
  assumes "map_ok m" and "splitAt p m = Inr m'"
  shows "set (live_allocations m') = set (live_allocations m)"
  using assms(1)
proof (cases rule: splitAt_cases [of m p, case_names none split])
  case none
  with assms(2) show ?thesis by simp
next
  case (split xs k s ys s1 s2)
  with assms(2) show ?thesis by (auto simp: live_allocations_set)
qed

lemma registerUnmap_live:
  assumes "map_ok m" and "registerUnmap start n m = Inr (b, m')"
  shows "set (live_allocations m') \<subseteq> set (live_allocations m)"
proof -
  obtain m1 m2 where m1: "splitAt start m = Inr m1" and m2: "splitAt (ptr_plus start n) m1 = Inr m2"
    and m': "m' = take (lower_bound m2 start) m2 @ drop (lower_bound m2 (ptr_plus start n)) m2"
    using assms(2) by (auto simp: registerUnmap_def andThen_Inr_iff Let_def split: if_splits)
  have ok1: "map_ok m1" using splitAt_ok [OF assms(1), of start] m1 by auto
  have "set m' \<subseteq> set m2" unfolding m' by (auto dest: in_set_takeD in_set_dropD)
  then have "set (live_allocations m') \<subseteq> set (live_allocations m2)"
    unfolding live_allocations_set by (rule image_mono)
  also have "\<dots> = set (live_allocations m)"
    using splitAt_live [OF assms(1) m1] splitAt_live [OF ok1 m2] by simp
  finally show ?thesis .
qed


section \<open>The wrappers keep an exact account\<close>

text \<open>
  The account is exact when the slices are in order and disjoint and the interned store holds
  precisely one use per live allocation besides its own.
\<close>

definition mmap_ok :: "MmapProcess \<Rightarrow> bool" where
  "mmap_ok p \<longleftrightarrow> map_ok (memoryMap p) \<and> interned_ok (internedTraces p) (handles (memoryMap p))
     \<and> \<not> os_hex (stackLog p) \<and> \<not> caller_inLibrary p"

text \<open>
  What a call relies on: a page size, objects that are new, and dladdr's contract.
\<close>

definition fresh_call :: "MmapCall \<Rightarrow> MmapProcess \<Rightarrow> bool" where
  "fresh_call c p \<longleftrightarrow> new_trace c \<notin># handles (memoryMap p)
     \<and> new_allocation c \<notin> identity ` set (live_allocations (memoryMap p))
     \<and> (\<forall>ra. dladdr_ok (symbols c) ra)"

lemma log_new_stack_ok:
  assumes "\<forall>ra. dladdr_ok (symbols c) ra" and "\<not> os_hex os"
  shows "\<exists>os'. log_new_stack c i st os = Inr os' \<and> \<not> os_hex os'"
  using assms print_frames_text [of "m_returnAddresses st" "symbols c"
      "put ''\<newline>'' (put_int (unat i) (put ''New stack trace: '' os))"]
  by (auto simp: log_new_stack_def print_StackTrace_def stream_defs)

lemma handles_insert:
  assumes "a \<notin> set (live_allocations m)" and "set (live_allocations m') = insert a (set (live_allocations m))"
  shows "handles m' = add_mset (stackTraceHandle a) (handles m)"
  using assms by (simp add: handles_def)

lemma new_allocation_store:
  assumes store: "interned_ok s (add_mset (stackTraceHandle a) (add_mset (stackTraceHandle a) (handles m)))"
    and new: "a \<notin> set (live_allocations m)"
  shows "\<exists>s1 s2. destroy_allocations (dropped [a] (registerMap a m)) s = Inr s1
    \<and> intern_destroy (stackTraceHandle a) s1 = Inr s2 \<and> interned_ok s2 (handles (registerMap a m))"
proof -
  let ?i = "stackTraceHandle a" and ?m = "registerMap a m"
  obtain s1 where s1: "intern_destroy ?i s = Inr s1" "interned_ok s1 (add_mset ?i (handles m))"
    using intern_destroy_ok [OF store, of ?i] by auto
  from registerMap_live [of a m] show ?thesis
  proof
    assume same: "?m = m"
    then have "dropped [a] ?m = [a]" using new by (simp add: dropped_def)
    moreover obtain s2 where "intern_destroy ?i s1 = Inr s2" "interned_ok s2 (handles m)"
      using intern_destroy_ok [OF s1(2), of ?i] by auto
    ultimately show ?thesis using s1 same by simp
  next
    assume live: "set (live_allocations ?m) = insert a (set (live_allocations m))"
    then have "dropped [a] ?m = []" by (simp add: dropped_def)
    with s1 handles_insert [OF new live] show ?thesis by simp
  qed
qed

lemma register_mapping_safe:
  assumes store: "interned_ok (internedTraces p) (handles (memoryMap p))" and os: "\<not> os_hex (stackLog p)"
    and fresh: "fresh_call c p"
  shows "\<exists>i p'. let a = MMapAllocation_construct (new_allocation c) i (sint ret)
        (uint (mmap_roundUpToPageMultiple (sysconf_page c) n))
    in register_mapping c ret n p = Inr p' \<and> memoryMap p' = registerMap a (memoryMap p)
      \<and> interned_ok (internedTraces p') (handles (memoryMap p')) \<and> \<not> os_hex (stackLog p')
      \<and> caller_inLibrary p' = caller_inLibrary p
      \<and> (\<exists>j. um_find (knownStackTraceHashToId p') (m_hash (trace_here c)) = Some j
           \<and> eventLog p' = eventLog p @ map_line c ret n j)"
proof -
  let ?st = "trace_here c"
  have new: "new_trace c \<notin># handles (memoryMap p)" and symbols: "\<forall>ra. dladdr_ok (symbols c) ra"
    using fresh by (simp_all add: fresh_call_def)
  obtain i s1 t where s1: "intern_construct (new_trace c) ?st (internedTraces p) = Inr (i, s1)"
    "interned_ok s1 (add_mset i (handles (memoryMap p)))" "intern_get i s1 = Inr t" "m_hash t = m_hash ?st"
    using intern_construct_ok [OF store new, of ?st] by blast
  define a where "a = MMapAllocation_construct (new_allocation c) i (sint ret)
    (uint (mmap_roundUpToPageMultiple (sysconf_page c) n))"
  have handle: "stackTraceHandle a = i" "identity a = new_allocation c"
    by (simp_all add: a_def MMapAllocation_construct_def)
  obtain s2 where s2: "intern_copy i s1 = Inr s2" "interned_ok s2 (add_mset i (add_mset i (handles (memoryMap p))))"
    using intern_copy_ok [OF s1(2), of i] by auto
  have "a \<notin> set (live_allocations (memoryMap p))"
    using fresh handle(2) unfolding fresh_call_def by (metis imageI)
  with s2(2) obtain s3 s4 where s4: "destroy_allocations (dropped [a] (registerMap a (memoryMap p))) s2 = Inr s3"
    "intern_destroy i s3 = Inr s4" "interned_ok s4 (handles (registerMap a (memoryMap p)))"
    using new_allocation_store [of s2 a "memoryMap p"] handle(1) by auto
  obtain j b known where ids: "getOrAssignStackId t (knownStackTraceHashToId p) = ((j, b), known)"
    by (metis prod.exhaust)
  then have known: "um_find known (m_hash ?st) = Some j"
    using s1(4) by (auto simp: getOrAssignStackId_def Let_def um_simps split: option.splits)
  obtain os where os': "(if b then log_new_stack c j t (stackLog p) else Inr (stackLog p)) = Inr os" "\<not> os_hex os"
    using log_new_stack_ok [OF symbols os, of j t] os by (cases b) auto
  have "register_mapping c ret n p = Inr (p\<lparr>memoryMap := registerMap a (memoryMap p),
      knownStackTraceHashToId := known, internedTraces := s4,
      eventLog := eventLog p @ map_line c ret n j, stackLog := os\<rparr>)"
    unfolding register_mapping_def Let_def s1(1) andThen.simps case_prod_conv s1(3) ids os'(1) s2(1)
      a_def [symmetric] s4(1,2) ..
  with s4(3) os'(2) known show ?thesis
    by (intro exI [of _ i]) (simp add: Let_def flip: a_def)
qed


text \<open>A mapping as the kernel makes it, of less than 4 GiB.\<close>

definition small_region :: "MmapCall \<Rightarrow> nat \<Rightarrow> ptr \<Rightarrow> uint64 \<Rightarrow> bool" where
  "small_region c k a n \<longleftrightarrow> page_call c k \<and> unat n + 2 ^ k \<le> 2 ^ 32
     \<and> 0 \<le> sint a \<and> sint a + int (rounded k n) < 2 ^ 63"

lemma small_round:
  assumes "small_region c k a n"
  shows "uint (mmap_roundUpToPageMultiple (sysconf_page c) n) = int (rounded k n)"
    "uint (to_uint64 (mmap_roundUpToPageMultiple (sysconf_page c) n) :: uint64) = int (rounded k n)"
    "uint (word_of_int (uint (mmap_roundUpToPageMultiple (sysconf_page c) n)) :: uint64) = int (rounded k n)"
proof -
  let ?r = "mmap_roundUpToPageMultiple (sysconf_page c) n"
  have n: "page_call c k" "unat n + 2 ^ k \<le> 2 ^ 32" using assms by (simp_all add: small_region_def)
  moreover have small: "rounded k n < 2 ^ 32" using rounded_bounds(3) [of k n] n(2) by linarith
  ultimately have "unat ?r = rounded k n"
    by (simp add: unat_mmap_round rounded_def)
  then show r: "uint ?r = int (rounded k n)" by (metis uint_nat)
  have "uint (word_of_int (uint ?r) :: uint64) = uint ?r"
    using r small by (intro uint_of_int_64) simp_all
  then show "uint (word_of_int (uint ?r) :: uint64) = int (rounded k n)" using r by simp
  then show "uint (to_uint64 ?r :: uint64) = int (rounded k n)" using small
    by (simp add: unsigned_ucast_eq r take_bit_int_eq_self)
qed

lemma registered_live:
  assumes "map_ok m" and region: "0 \<le> originalStart a" "0 < uint (originalSize a)"
    "originalStart a + uint (originalSize a) < 2 ^ 63"
    and free: "\<And>x. originalStart a \<le> x \<Longrightarrow> x < originalStart a + uint (originalSize a) \<Longrightarrow> owner m x = None"
  shows "a \<in> set (live_allocations (registerMap a m))"
proof -
  note added = registerMap_spec [OF assms(1) region free]
  have "owner (registerMap a m) (originalStart a) = Some a" using region by (simp add: added(2))
  then show ?thesis
    using added(1) owner_iff [of 0 "registerMap a m"] by (force simp: map_ok_def live_allocations_set)
qed

lemma mmap_recorded:
  fixes real_mmap :: "ptr \<Rightarrow> uint64 \<Rightarrow> int \<Rightarrow> uint32 \<Rightarrow> int \<Rightarrow> int \<Rightarrow> ptr"
  assumes "mmap_ok p" and "fresh_call c p" and "small_region c k ret n" and "0 < unat n"
    and "real_mmap addr n prot flags fd offs = ret" and "ret \<noteq> nullptr" and "and flags MAP_ANONYMOUS \<noteq> 0"
    and "\<And>x. sint ret \<le> x \<Longrightarrow> x < sint ret + int (rounded k n) \<Longrightarrow> owner (memoryMap p) x = None"
  shows "\<exists>a p'. mmap real_mmap c addr n prot flags fd offs p = Inr (ret, p') \<and> mmap_ok p'
    \<and> owner (memoryMap p') = (\<lambda>x. if sint ret \<le> x \<and> x < sint ret + int (rounded k n) then Some a
          else owner (memoryMap p) x)
    \<and> stackTraceHandle a \<in># handles (memoryMap p') \<and> identity a = new_allocation c"
proof -
  let ?p = "p\<lparr>caller_inLibrary := True\<rparr>"
  have ok: "map_ok (memoryMap p)" "interned_ok (internedTraces ?p) (handles (memoryMap ?p))"
    "\<not> os_hex (stackLog ?p)" "\<not> caller_inLibrary p" using assms(1) by (simp_all add: mmap_ok_def)
  have "fresh_call c ?p" using assms(2) by (simp add: fresh_call_def)
  from register_mapping_safe [OF ok(2,3) this, of ret n] obtain i p'
    where p': "register_mapping c ret n ?p = Inr p'" "interned_ok (internedTraces p') (handles (memoryMap p'))"
      "\<not> os_hex (stackLog p')"
      and m: "memoryMap p' = registerMap (MMapAllocation_construct (new_allocation c) i (sint ret)
        (uint (mmap_roundUpToPageMultiple (sysconf_page c) n))) (memoryMap p)"
    by (auto simp: Let_def)
  define a where "a = MMapAllocation_construct (new_allocation c) i (sint ret)
    (uint (mmap_roundUpToPageMultiple (sysconf_page c) n))"
  note round = small_round [OF assms(3)]
  have a: "originalStart a = sint ret" "uint (originalSize a) = int (rounded k n)"
    "stackTraceHandle a = i" "identity a = new_allocation c"
    using round(3) by (simp_all add: a_def MMapAllocation_construct_def)
  have region: "0 \<le> originalStart a" "0 < uint (originalSize a)" "originalStart a + uint (originalSize a) < 2 ^ 63"
    using assms(3,4) rounded_bounds(2) [of n k] by (simp_all add: small_region_def a)
  have free: "owner (memoryMap p) x = None" if "originalStart a \<le> x" "x < originalStart a + uint (originalSize a)" for x
    using assms(8) [of x] that by (simp add: a)
  have added: "map_ok (registerMap a (memoryMap p))" "owner (registerMap a (memoryMap p)) =
      (\<lambda>x. if sint ret \<le> x \<and> x < sint ret + int (rounded k n) then Some a else owner (memoryMap p) x)"
    using mm.add_ok [OF ok(1) region] mm.add_own [OF ok(1) region] free by (simp_all add: a)
  have "a \<in> set (live_allocations (registerMap a (memoryMap p)))"
    using registered_live [OF ok(1) region] free by blast
  then have "i \<in># handles (registerMap a (memoryMap p))" by (force simp: handles_def a(3))
  moreover have "mmap real_mmap c addr n prot flags fd offs p = Inr (ret, p'\<lparr>caller_inLibrary := False\<rparr>)"
    using assms(5-7) ok(4) p'(1) by (simp add: mmap_def inLibrary_def Let_def)
  ultimately show ?thesis
    using p'(2,3) added by (intro exI [of _ a] exI [of _ "p'\<lparr>caller_inLibrary := False\<rparr>"])
      (simp add: mmap_ok_def m a flip: a_def)
qed


text \<open>
  C17. A non-empty anonymous mapping of less than 4 GiB that succeeds, not at address 0, in a region of which the account knows no
  address (as it is when MAP_FIXED replaces no known memory), is recorded: the call returns what the
  kernel returned, exactly the pages of the new region are now attributed to one new allocation, whose
  handle is interned; no assertion fails, the store of traces stays exact, and the flag of the
  thread's library context is lowered again.
\<close>

theorem mmap_tracks:
  fixes real_mmap :: "ptr \<Rightarrow> uint64 \<Rightarrow> int \<Rightarrow> uint32 \<Rightarrow> int \<Rightarrow> int \<Rightarrow> ptr"
  assumes "mmap_ok p" and "fresh_call c p" and "small_region c k ret n" and "0 < unat n"
    and "real_mmap addr n prot flags fd offs = ret" and "ret \<noteq> nullptr" and "and flags MAP_ANONYMOUS \<noteq> 0"
    and "\<And>x. sint ret \<le> x \<Longrightarrow> x < sint ret + int (rounded k n) \<Longrightarrow> owner (memoryMap p) x = None"
  shows "\<exists>a p'. mmap real_mmap c addr n prot flags fd offs p = Inr (ret, p') \<and> mmap_ok p'
    \<and> owner (memoryMap p') = (\<lambda>x. if sint ret \<le> x \<and> x < sint ret + int (rounded k n) then Some a
          else owner (memoryMap p) x)
    \<and> stackTraceHandle a \<in># handles (memoryMap p') \<and> identity a = new_allocation c"
  using assms by (rule mmap_recorded)

lemma register_unmapping_ok:
  assumes ok: "map_ok (memoryMap p)" "interned_ok (internedTraces p) (handles (memoryMap p))"
    and aligned: "and addr (sysconf_page c - 1) = 0"
    and r: "r = uint (to_uint64 (mmap_roundUpToPageMultiple (sysconf_page c) n) :: uint64)"
    and region: "0 \<le> sint addr" "sint addr + r < 2 ^ 63"
  shows "\<exists>p' b. register_unmapping c addr n (p\<lparr>caller_inLibrary := f\<rparr>) = Inr p' \<and> map_ok (memoryMap p')
    \<and> interned_ok (internedTraces p') (handles (memoryMap p')) \<and> stackLog p' = stackLog p
    \<and> owner (memoryMap p') = (\<lambda>x. if sint addr \<le> x \<and> x < sint addr + r then None else owner (memoryMap p) x)
    \<and> (b \<longleftrightarrow> (\<exists>x. sint addr \<le> x \<and> x < sint addr + r \<and> owner (memoryMap p) x \<noteq> None))
    \<and> eventLog p' = eventLog p @ (if b then unmap_line c '' UNMAP: '' addr n else [])"
proof -
  let ?n = "to_uint64 (mmap_roundUpToPageMultiple (sysconf_page c) n) :: uint64"
  obtain b m where m: "registerUnmap (sint addr) ?n (memoryMap p) = Inr (b, m)" "map_ok m"
    and own: "owner m = (\<lambda>x. if sint addr \<le> x \<and> x < sint addr + r then None else owner (memoryMap p) x)"
    and b: "b \<longleftrightarrow> (\<exists>x. sint addr \<le> x \<and> x < sint addr + r \<and> owner (memoryMap p) x \<noteq> None)"
    using mm.remove_spec [OF ok(1) region(1), of ?n] region(2) unfolding r by blast
  from dropped_ok [OF ok(2) registerUnmap_live [OF ok(1) m(1)]] obtain s where
    s: "destroy_allocations (dropped (live_allocations (memoryMap p)) m) (internedTraces p) = Inr s"
      "interned_ok s (handles m)" by blast
  have "register_unmapping c addr n (p\<lparr>caller_inLibrary := f\<rparr>) = Inr (p\<lparr>memoryMap := m, internedTraces := s,
      caller_inLibrary := f, eventLog := eventLog p @ (if b then unmap_line c '' UNMAP: '' addr n else [])\<rparr>)"
    by (simp add: register_unmapping_def aligned m(1) s(1))
  with m(2) s(2) own b show ?thesis by (intro exI conjI) (assumption | simp)+
qed

lemma munmap_forgotten:
  assumes "mmap_ok p" and "small_region c k addr n" and "and addr (sysconf_page c - 1) = 0"
    and "real_munmap addr n = 0"
  shows "\<exists>p' b. munmap real_munmap c addr n p = Inr (0, p') \<and> mmap_ok p'
    \<and> owner (memoryMap p') = (\<lambda>x. if sint addr \<le> x \<and> x < sint addr + int (rounded k n) then None
          else owner (memoryMap p) x)
    \<and> (b \<longleftrightarrow> (\<exists>x. sint addr \<le> x \<and> x < sint addr + int (rounded k n) \<and> owner (memoryMap p) x \<noteq> None))
    \<and> eventLog p' = eventLog p @ (if b then unmap_line c '' UNMAP: '' addr n else [])"
proof -
  let ?p = "p\<lparr>caller_inLibrary := True\<rparr>"
  have ok: "map_ok (memoryMap p)" "interned_ok (internedTraces p) (handles (memoryMap p))"
    "\<not> os_hex (stackLog p)" "\<not> caller_inLibrary p" using assms(1) by (simp_all add: mmap_ok_def)
  have r: "int (rounded k n) = uint (to_uint64 (mmap_roundUpToPageMultiple (sysconf_page c) n) :: uint64)"
    using small_round(2) [OF assms(2)] by simp
  obtain p' b where p': "register_unmapping c addr n ?p = Inr p'" "map_ok (memoryMap p')"
    "interned_ok (internedTraces p') (handles (memoryMap p'))" "stackLog p' = stackLog p"
    "owner (memoryMap p') = (\<lambda>x. if sint addr \<le> x \<and> x < sint addr + int (rounded k n) then None
          else owner (memoryMap p) x)"
    "b \<longleftrightarrow> (\<exists>x. sint addr \<le> x \<and> x < sint addr + int (rounded k n) \<and> owner (memoryMap p) x \<noteq> None)"
    "eventLog p' = eventLog p @ (if b then unmap_line c '' UNMAP: '' addr n else [])"
    using register_unmapping_ok [OF ok(1,2) assms(3) r] assms(2) unfolding small_region_def by blast
  have "munmap real_munmap c addr n p = Inr (0, p'\<lparr>caller_inLibrary := False\<rparr>)"
    using assms(4) ok(4) p'(1) by (simp add: munmap_def inLibrary_def Let_def)
  with p'(2-) ok(3) show ?thesis
    by (intro exI [of _ "p'\<lparr>caller_inLibrary := False\<rparr>"] exI [of _ b]) (simp add: mmap_ok_def)
qed

text \<open>
  C18. Unmapping less than 4 GiB takes exactly the pages of the range out of the account, whatever
  mappings the range cuts: no assertion fails, the handles of the allocations whose last page is
  gone are given back and no others, and a line is logged just when some page was known.
\<close>

theorem munmap_tracks:
  assumes "mmap_ok p" and "small_region c k addr n" and "and addr (sysconf_page c - 1) = 0"
    and "real_munmap addr n = 0"
  shows "\<exists>p' b. munmap real_munmap c addr n p = Inr (0, p') \<and> mmap_ok p'
    \<and> owner (memoryMap p') = (\<lambda>x. if sint addr \<le> x \<and> x < sint addr + int (rounded k n) then None
          else owner (memoryMap p) x)
    \<and> (b \<longleftrightarrow> (\<exists>x. sint addr \<le> x \<and> x < sint addr + int (rounded k n) \<and> owner (memoryMap p) x \<noteq> None))
    \<and> eventLog p' = eventLog p @ (if b then unmap_line c '' UNMAP: '' addr n else [])"
  using assms by (rule munmap_forgotten)

text \<open>
  A length that rounds to a multiple of 4 GiB is cut to zero: the kernel unmaps the region, but
  the account keeps every page of it and no line is logged.
\<close>

theorem munmap_4GiB_ignored:
  assumes "mmap_ok p" and "page_call c k" and "unat n + 2 ^ k \<le> 2 ^ 64" and "2 ^ 32 dvd rounded k n"
    and "and addr (sysconf_page c - 1) = 0" and "0 \<le> sint addr" and "real_munmap addr n = 0"
  shows "\<exists>p'. munmap real_munmap c addr n p = Inr (0, p') \<and> mmap_ok p'
    \<and> owner (memoryMap p') = owner (memoryMap p) \<and> eventLog p' = eventLog p"
proof -
  let ?p = "p\<lparr>caller_inLibrary := True\<rparr>"
  have ok: "map_ok (memoryMap p)" "interned_ok (internedTraces p) (handles (memoryMap p))"
    "\<not> os_hex (stackLog p)" "\<not> caller_inLibrary p" using assms(1) by (simp_all add: mmap_ok_def)
  have "unat (mmap_roundUpToPageMultiple (sysconf_page c) n) = 0"
    using unat_mmap_round [OF assms(2,3)] assms(4) by (simp add: rounded_def dvd_imp_mod_0)
  then have "mmap_roundUpToPageMultiple (sysconf_page c) n = 0" by (simp add: unat_eq_0)
  then have r: "0 = uint (to_uint64 (mmap_roundUpToPageMultiple (sysconf_page c) n) :: uint64)" by simp
  have "sint addr < 2 ^ 63" using sint_lt [of addr] by simp
  then obtain p' b where reg: "register_unmapping c addr n ?p = Inr p'" "map_ok (memoryMap p')"
    "interned_ok (internedTraces p') (handles (memoryMap p'))" "stackLog p' = stackLog p"
    and own: "owner (memoryMap p') = (\<lambda>x. if sint addr \<le> x \<and> x < sint addr + 0 then None else owner (memoryMap p) x)"
    and b: "b \<longleftrightarrow> (\<exists>x. sint addr \<le> x \<and> x < sint addr + 0 \<and> owner (memoryMap p) x \<noteq> None)"
    and log: "eventLog p' = eventLog p @ (if b then unmap_line c '' UNMAP: '' addr n else [])"
    using register_unmapping_ok [OF ok(1,2) assms(5) r assms(6), of True] by auto
  have "\<not> b" unfolding b by auto
  with own log have p': "owner (memoryMap p') = owner (memoryMap p)" "eventLog p' = eventLog p"
    by (auto simp: fun_eq_iff)
  have "munmap real_munmap c addr n p = Inr (0, p'\<lparr>caller_inLibrary := False\<rparr>)"
    using assms(7) ok(4) reg(1) by (simp add: munmap_def inLibrary_def Let_def)
  with reg(2-) p' ok(3) show ?thesis
    by (intro exI [of _ "p'\<lparr>caller_inLibrary := False\<rparr>"]) (simp add: mmap_ok_def)
qed

text \<open>
  A failed anonymous mmap is recorded as a mapping: the wrapper compares the result with the
  null pointer, but failure is the pointer -1, so a slice at address -1 enters the map and
  a line is logged.
\<close>

theorem failed_mmap_recorded:
  fixes real_mmap :: "ptr \<Rightarrow> uint64 \<Rightarrow> int \<Rightarrow> uint32 \<Rightarrow> int \<Rightarrow> int \<Rightarrow> ptr"
  assumes "mmap_ok p" and "fresh_call c p"
    and "real_mmap addr n prot flags fd offs = - 1" and "and flags MAP_ANONYMOUS \<noteq> 0"
  shows "\<exists>p' a. mmap real_mmap c addr n prot flags fd offs p = Inr (- 1, p')
    \<and> memoryMap p' = (- 1, \<lparr>slice_start = - 1, slice_size = originalSize a, slice_allocation = a\<rparr>) # memoryMap p
    \<and> \<not> mmap_ok p'"
proof -
  let ?p = "p\<lparr>caller_inLibrary := True\<rparr>"
  have ok: "map_ok (memoryMap p)" "interned_ok (internedTraces ?p) (handles (memoryMap ?p))"
    "\<not> os_hex (stackLog ?p)" "\<not> caller_inLibrary p" using assms(1) by (simp_all add: mmap_ok_def)
  have "fresh_call c ?p" using assms(2) by (simp add: fresh_call_def)
  from register_mapping_safe [OF ok(2,3) this, of "- 1" n] obtain i p'
    where p': "register_mapping c (- 1) n ?p = Inr p'"
      and m: "memoryMap p' = registerMap (MMapAllocation_construct (new_allocation c) i (- 1)
        (uint (mmap_roundUpToPageMultiple (sysconf_page c) n))) (memoryMap p)"
    by (auto simp: Let_def)
  define a where "a = MMapAllocation_construct (new_allocation c) i (- 1)
    (uint (mmap_roundUpToPageMultiple (sysconf_page c) n))"
  have start: "originalStart a = - 1" by (simp add: a_def MMapAllocation_construct_def)
  have "om_insert (- 1) v m = (- 1, v) # m" if "chain 0 m" for v m
    using that by (cases m) auto
  then have first: "memoryMap p' = (- 1, \<lparr>slice_start = - 1, slice_size = originalSize a, slice_allocation = a\<rparr>) # memoryMap p"
    using ok(1) by (simp add: m registerMap_def start map_ok_def flip: a_def)
  have "mmap real_mmap c addr n prot flags fd offs p = Inr (- 1, p'\<lparr>caller_inLibrary := False\<rparr>)"
    using assms(3,4) ok(4) p' by (simp add: mmap_def inLibrary_def Let_def)
  with first show ?thesis
    by (intro exI [of _ "p'\<lparr>caller_inLibrary := False\<rparr>"] exI [of _ a]) (simp add: mmap_ok_def map_ok_def)
qed


lemma om_insert_present: "chain b m \<Longrightarrow> (k, v') \<in> set m \<Longrightarrow> om_insert k v m = m"
proof (induction b m rule: chain.induct)
  case (2 b k' s m)
  then show ?case using chain_tail [of b k' s m k v'] by auto
qed simp

section \<open>Histories of mapping and unmapping\<close>

definition empty_mmap_process :: MmapProcess where
  "empty_mmap_process = \<lparr>memoryMap = [], knownStackTraceHashToId = [], internedTraces = emptyStore,
     eventLog = [], stackLog = \<lparr>os_text = [], os_hex = False\<rparr>, caller_inLibrary = False\<rparr>"

text \<open>
  The abstract account is the set of addresses the kernel has mapped anonymously for the
  application. A history consists of anonymous mappings of regions the kernel had free, mappings of
  files that fail or lie beside the anonymous memory, successful unmappings of any range, and unmappings
  that fail, each through the wrappers and one call after the other; the lengths of anonymous mappings
  and of successful unmappings are below 4 GiB. (Mapped files may be unmapped too: their addresses are
  not in the set.)
\<close>

inductive mmap_history :: "nat \<Rightarrow> MmapProcess \<Rightarrow> int set \<Rightarrow> bool" for k where
  start: "mmap_history k empty_mmap_process {}"
| anonymous: "mmap_history k p K \<Longrightarrow> fresh_call c p \<Longrightarrow> small_region c k ret n \<Longrightarrow> 0 < unat n \<Longrightarrow>
    real_mmap addr n prot flags fd offs = ret \<Longrightarrow> ret \<noteq> nullptr \<Longrightarrow> and flags MAP_ANONYMOUS \<noteq> 0 \<Longrightarrow>
    K \<inter> {sint ret ..< sint ret + int (rounded k n)} = {} \<Longrightarrow>
    mmap real_mmap c addr n prot flags fd offs p = Inr (r, p') \<Longrightarrow>
    mmap_history k p' (K \<union> {sint ret ..< sint ret + int (rounded k n)})"
| from_file: "mmap_history k p K \<Longrightarrow> and flags MAP_ANONYMOUS = 0 \<Longrightarrow>
    real_mmap addr n prot flags fd offs = ret \<Longrightarrow>
    ret = - 1 \<or> K \<inter> {sint ret ..< sint ret + int (rounded k n)} = {} \<Longrightarrow>
    mmap real_mmap c addr n prot flags fd offs p = Inr (r, p') \<Longrightarrow> mmap_history k p' K"
| unmap: "mmap_history k p K \<Longrightarrow> small_region c k addr n \<Longrightarrow> and addr (sysconf_page c - 1) = 0 \<Longrightarrow>
    real_munmap addr n = 0 \<Longrightarrow> munmap real_munmap c addr n p = Inr (r, p') \<Longrightarrow>
    mmap_history k p' (K - {sint addr ..< sint addr + int (rounded k n)})"
| unmap_failed: "mmap_history k p K \<Longrightarrow> real_munmap addr n \<noteq> 0 \<Longrightarrow>
    munmap real_munmap c addr n p = Inr (r, p') \<Longrightarrow> mmap_history k p' K"

lemma empty_mmap_process_ok: "mmap_ok empty_mmap_process"
  by (simp add: mmap_ok_def empty_mmap_process_def map_ok_def handles_def live_allocations_def interned_ok_empty)

lemma history_account:
  assumes "mmap_history k p K"
  shows "mmap_ok p \<and> (\<forall>x. owner (memoryMap p) x \<noteq> None \<longleftrightarrow> x \<in> K)"
  using assms
proof (induction rule: mmap_history.induct)
  case start
  show ?case using empty_mmap_process_ok by (simp add: empty_mmap_process_def)
next
  case (anonymous p K c ret n real_mmap addr prot flags fd offs r p')
  have free: "owner (memoryMap p) x = None" if "sint ret \<le> x" "x < sint ret + int (rounded k n)" for x
    using anonymous.IH anonymous.hyps(8) that by (auto simp: disjoint_iff)
  obtain a q where "mmap real_mmap c addr n prot flags fd offs p = Inr (ret, q)" "mmap_ok q"
    "owner (memoryMap q) = (\<lambda>x. if sint ret \<le> x \<and> x < sint ret + int (rounded k n) then Some a
       else owner (memoryMap p) x)"
    using mmap_recorded [where real_mmap = real_mmap, OF conjunct1 [OF anonymous.IH] anonymous.hyps(2-7) free] by blast
  then show ?case using anonymous.IH anonymous.hyps(9) by auto
next
  case (from_file p K flags real_mmap addr n prot fd offs ret c r p')
  then have "p' = p" by (cases p) (auto simp: mmap_def inLibrary_def Let_def mmap_ok_def)
  then show ?case using from_file.IH by simp
next
  case (unmap p K c addr n real_munmap r p')
  obtain q b where "munmap real_munmap c addr n p = Inr (0, q)" "mmap_ok q"
    "owner (memoryMap q) = (\<lambda>x. if sint addr \<le> x \<and> x < sint addr + int (rounded k n) then None
       else owner (memoryMap p) x)"
    using munmap_forgotten [where real_munmap = real_munmap, OF conjunct1 [OF unmap.IH] unmap.hyps(2-4)] by blast
  then show ?case using unmap.IH unmap.hyps(5) by auto
next
  case (unmap_failed p K real_munmap addr n c r p')
  then have "memoryMap p' = memoryMap p" "mmap_ok p'"
    by (auto simp: munmap_def inLibrary_def Let_def mmap_ok_def)
  then show ?case using unmap_failed.IH by simp
qed

text \<open>
  A file mapped over anonymous memory (MAP_FIXED) replaces it in the kernel, but the wrapper leaves every
  page of it in the account.
\<close>

theorem file_mapping_overlays:
  assumes "mmap_ok p" and "and flags MAP_ANONYMOUS = 0"
  shows "mmap real_mmap c addr n prot flags fd offs p = Inr (real_mmap addr n prot flags fd offs, p)"
  using assms by (cases p) (simp add: mmap_def inLibrary_def Let_def mmap_ok_def)

lemma mmap_returns:
  assumes "mmap_ok p" and "fresh_call c p"
  shows "\<exists>p'. mmap real_mmap c addr n prot flags fd offs p = Inr (real_mmap addr n prot flags fd offs, p')"
proof -
  let ?p = "p\<lparr>caller_inLibrary := True\<rparr>"
  have "interned_ok (internedTraces ?p) (handles (memoryMap ?p))" "\<not> os_hex (stackLog ?p)" "fresh_call c ?p"
    using assms by (simp_all add: mmap_ok_def fresh_call_def)
  from register_mapping_safe [OF this, of "real_mmap addr n prot flags fd offs" n]
  obtain q where "register_mapping c (real_mmap addr n prot flags fd offs) n ?p = Inr q"
    by (auto simp: Let_def)
  then show ?thesis using assms(1) by (simp add: mmap_def inLibrary_def Let_def mmap_ok_def)
qed

lemma no_owner_no_slices:
  assumes "map_ok m" and "\<And>x. owner m x = None"
  shows "m = []"
proof (cases m)
  case (Cons s m')
  then have "owner m (fst s) \<noteq> None" using assms(1) by (cases s) (auto simp: map_ok_def)
  with assms(2) show ?thesis by simp
qed simp

text \<open>
  C8. The account agrees with the kernel along the histories of calls made one after the other in which anonymous
  mappings succeed, are not empty and not at address 0, on regions that held no anonymous memory, file mappings are
  not laid over anonymous memory, anonymous mappings and successful unmappings are shorter than 4 GiB, and the
  unmapped addresses are page aligned (pages have one size, a power of two, new objects have new identities, and no
  symbol starts behind the address it is found for): an address
  has an owner exactly when the application has it mapped anonymously. After such a history munmap
  returns for every page-aligned range of less than 4 GiB, and mmap returns for all its arguments. And when
  everything is unmapped again, the account, the store of stack traces and its table are empty:
  nothing is leaked. (Outside these conditions the account goes wrong: munmap_4GiB_ignored,
  failed_mmap_recorded, file_mapping_overlays, registerMap_keeps_stale_slice.)
\<close>

theorem mmap_account_exact:
  assumes "mmap_history k p K"
  shows "(\<forall>x. owner (memoryMap p) x \<noteq> None \<longleftrightarrow> x \<in> K)
    \<and> (\<forall>c addr n real_munmap. small_region c k addr n \<longrightarrow> and addr (sysconf_page c - 1) = 0 \<longrightarrow>
        (\<exists>p'. munmap real_munmap c addr n p = Inr (real_munmap addr n, p')))
    \<and> (\<forall>c real_mmap addr n prot flags fd offs. fresh_call c p \<longrightarrow>
        (\<exists>p'. mmap real_mmap c addr n prot flags fd offs p = Inr (real_mmap addr n prot flags fd offs, p')))
    \<and> (K = {} \<longrightarrow> memoryMap p = [] \<and> shared (internedTraces p) = Map.empty
        \<and> um_find (s_stackTraces (internedTraces p)) = Map.empty)"
proof -
  have ok: "mmap_ok p" and account: "\<And>x. owner (memoryMap p) x \<noteq> None \<longleftrightarrow> x \<in> K"
    using history_account [OF assms] by blast+
  have "\<exists>p'. munmap real_munmap c addr n p = Inr (real_munmap addr n, p')"
    if "small_region c k addr n" "and addr (sysconf_page c - 1) = 0" for c addr n real_munmap
  proof (cases "real_munmap addr n = 0")
    case True
    then show ?thesis using munmap_forgotten [where real_munmap = real_munmap, OF ok that True] by auto
  next
    case False
    then show ?thesis using ok by (simp add: munmap_def inLibrary_def Let_def mmap_ok_def)
  qed
  moreover have "\<exists>p'. mmap real_mmap c addr n prot flags fd offs p = Inr (real_mmap addr n prot flags fd offs, p')"
    if "fresh_call c p" for c real_mmap addr n prot flags fd offs
    using ok that by (rule mmap_returns)
  moreover have "memoryMap p = [] \<and> shared (internedTraces p) = Map.empty
      \<and> um_find (s_stackTraces (internedTraces p)) = Map.empty" if "K = {}"
  proof -
    have none: "memoryMap p = []"
      using no_owner_no_slices [of "memoryMap p"] ok account that by (simp add: mmap_ok_def)
    then have "interned_ok (internedTraces p) {#}"
      using ok by (simp add: mmap_ok_def handles_def live_allocations_def)
    from interned_ok_empty_store [OF this] none show ?thesis by blast
  qed
  ultimately show ?thesis using account by simp
qed

section \<open>Calls on a small process\<close>

definition sample_mmap_call :: MmapCall where
  "sample_mmap_call = \<lparr>sysconf_page = 4096, trace_here = \<lparr>m_returnAddresses = [8], m_hash = 8\<rparr>,
     new_trace = 2, new_allocation = 2, clock_sec = 1, clock_nsec = 500000000, symbols = (\<lambda>_. None),
     print_environment = sample_env\<rparr>"

text \<open>A process with one mapping of three pages, made from one place.\<close>

definition mapped_process :: MmapProcess where
  "mapped_process = \<lparr>memoryMap = sample_map, knownStackTraceHashToId = [(5, 1)],
     internedTraces = \<lparr>s_stackTraces = [(5, 1)], shared = [1 \<mapsto> (\<lparr>m_returnAddresses = [5], m_hash = 5\<rparr>, 2)]\<rparr>,
     eventLog = [], stackLog = \<lparr>os_text = [], os_hex = False\<rparr>, caller_inLibrary = False\<rparr>"

lemma sample_live: "live_allocations sample_map = [sample_mapping]"
  by (simp add: live_allocations_def sample_map_def registerMap_def)

lemma mapped_process_ok: "mmap_ok mapped_process"
proof -
  have "handles sample_map = {#1#}" by (simp add: handles_def sample_live sample_mapping_def)
  then show ?thesis
    by (simp add: mmap_ok_def mapped_process_def sample_map_ok interned_ok_def um_ok_def um_find_def)
qed

lemma sample_call_fresh: "fresh_call sample_mmap_call mapped_process"
  by (simp add: fresh_call_def sample_mmap_call_def mapped_process_def handles_def sample_live
      sample_mapping_def dladdr_ok_def)

lemma sample_page: "page_call sample_mmap_call 12"
  by (simp add: page_call_def sample_mmap_call_def)

lemma sample_owner: "owner (memoryMap mapped_process) x = (if 4096 \<le> x \<and> x < 16384 then Some sample_mapping else None)"
  by (simp add: mapped_process_def sample_map_def registerMap_def sample_mapping_def)

theorem mmap_round_truncates_witness:
  "unat (mmap_roundUpToPageMultiple 4096 4097) = 8192 \<and> unat (mmap_roundUpToPageMultiple 4096 4294967296) = 0
   \<and> (\<exists>q. 4096 dvd q \<and> 4097 \<le> q \<and> q < 4097 + 4096
      \<and> unat (mmap_roundUpToPageMultiple 4096 4097) = q mod 2 ^ 32)"
  using mmap_round_truncates [OF sample_page, of 4097]
  by (simp add: sample_mmap_call_def mmap_roundUpToPageMultiple_def)

theorem mmap_tracks_witness:
  "\<exists>p'. mmap (\<lambda>_ _ _ _ _ _. 65536) sample_mmap_call 0 5000 3 34 (- 1) 0 mapped_process = Inr (65536, p')
    \<and> mmap_ok p' \<and> owner (memoryMap p') 73727 \<noteq> None \<and> owner (memoryMap p') 73728 = None"
proof -
  have "small_region sample_mmap_call 12 65536 5000"
    by (simp add: small_region_def sample_page rounded_def)
  from mmap_tracks [OF mapped_process_ok sample_call_fresh this, where real_mmap = "\<lambda>_ _ _ _ _ _. 65536"
      and addr = 0 and prot = 3 and flags = 34 and fd = "- 1" and offs = 0]
  show ?thesis by (fastforce simp: rounded_def sample_owner MAP_ANONYMOUS_def)
qed

theorem munmap_tracks_witness:
  "\<exists>p'. munmap (\<lambda>_ _. 0) sample_mmap_call 8192 4096 mapped_process = Inr (0, p')
    \<and> mmap_ok p' \<and> owner (memoryMap p') 8192 = None \<and> owner (memoryMap p') 4096 = Some sample_mapping"
proof -
  have "small_region sample_mmap_call 12 8192 4096"
    by (simp add: small_region_def sample_page rounded_def)
  from munmap_tracks [OF mapped_process_ok this, where real_munmap = "\<lambda>_ _. 0"]
  show ?thesis by (fastforce simp: rounded_def sample_owner sample_mmap_call_def)
qed

theorem munmap_4GiB_ignored_witness:
  "\<exists>p'. munmap (\<lambda>_ _. 0) sample_mmap_call 4096 4294967296 mapped_process = Inr (0, p')
    \<and> owner (memoryMap p') 4096 = Some sample_mapping \<and> eventLog p' = []"
  using munmap_4GiB_ignored [OF mapped_process_ok sample_page, of 4294967296 4096 "\<lambda>_ _. 0"]
  by (auto simp: rounded_def sample_owner sample_mmap_call_def) (auto simp: mapped_process_def)

theorem failed_mmap_recorded_witness:
  "\<exists>p'. mmap (\<lambda>_ _ _ _ _ _. - 1) sample_mmap_call 0 5000 3 34 (- 1) 0 mapped_process = Inr (- 1, p') \<and> \<not> mmap_ok p'"
  using failed_mmap_recorded [OF mapped_process_ok sample_call_fresh, where real_mmap = "\<lambda>_ _ _ _ _ _. - 1"
      and addr = 0 and prot = 3 and flags = 34 and fd = "- 1" and offs = 0 and n = 5000]
  by (auto simp: MAP_ANONYMOUS_def)


theorem file_mapping_overlays_witness:
  "\<exists>p'. mmap (\<lambda>_ _ _ _ _ _. 4096) sample_mmap_call 4096 12288 3 18 5 0 mapped_process = Inr (4096, p')
    \<and> owner (memoryMap p') 4096 = Some sample_mapping"
  using file_mapping_overlays [OF mapped_process_ok, of 18 "\<lambda>_ _ _ _ _ _. 4096" sample_mmap_call 4096 12288 3 5 0]
  by (simp add: MAP_ANONYMOUS_def sample_owner)

theorem mmap_account_exact_witness:
  "\<exists>p1 p2. mmap (\<lambda>_ _ _ _ _ _. 65536) sample_mmap_call 0 5000 3 34 (- 1) 0 empty_mmap_process = Inr (65536, p1)
    \<and> owner (memoryMap p1) 70000 \<noteq> None
    \<and> munmap (\<lambda>_ _. 0) sample_mmap_call 65536 8192 p1 = Inr (0, p2) \<and> memoryMap p2 = []"
proof -
  note start = mmap_history.start [of 12]
  have region: "small_region sample_mmap_call 12 65536 5000" "small_region sample_mmap_call 12 65536 8192"
    by (simp_all add: small_region_def sample_page rounded_def)
  have fresh: "fresh_call sample_mmap_call empty_mmap_process"
    by (simp add: fresh_call_def sample_mmap_call_def empty_mmap_process_def handles_def live_allocations_def
        dladdr_ok_def)
  from mmap_account_exact [OF start] fresh obtain p1 where
    p1: "mmap (\<lambda>_ _ _ _ _ _. 65536) sample_mmap_call 0 5000 3 34 (- 1) 0 empty_mmap_process = Inr (65536, p1)"
    by blast
  have "mmap_history 12 p1 ({} \<union> {sint (65536 :: ptr) ..< sint (65536 :: ptr) + int (rounded 12 5000)})"
    by (rule mmap_history.anonymous [OF start fresh region(1) _ _ _ _ _ p1]) (simp_all add: MAP_ANONYMOUS_def)
  then have mapped: "mmap_history 12 p1 {65536 ..< 73728}" by (simp add: rounded_def)
  have aligned: "and 65536 (sysconf_page sample_mmap_call - 1) = (0 :: ptr)" by (simp add: sample_mmap_call_def)
  from mmap_account_exact [OF mapped] region(2) aligned obtain p2 where
    p2: "munmap (\<lambda>_ _. 0) sample_mmap_call 65536 8192 p1 = Inr (0, p2)" by blast
  have "mmap_history 12 p2 ({65536 ..< 73728} - {sint (65536 :: ptr) ..< sint (65536 :: ptr) + int (rounded 12 8192)})"
    by (rule mmap_history.unmap [OF mapped region(2) aligned _ p2]) simp
  then have "mmap_history 12 p2 {}" by (simp add: rounded_def)
  then have "memoryMap p2 = []" by (auto dest: mmap_account_exact)
  moreover have "owner (memoryMap p1) 70000 \<noteq> None" using mmap_account_exact [OF mapped] by simp
  ultimately show ?thesis using p1 p2 by blast
qed

end
