(* ===== verification/Event_Log.thy ===== *)
theory Event_Log
  imports Wrapper_Mmap "HOL-Library.Monad_Syntax"
begin

text \<open>
  The event log that the mmap wrappers write, as \<^verbatim>\<open>parse-mmap-log.py\<close> reads it: the two regular
  expressions and the line parser. The patterns are deterministic (each part is followed by a
  character it cannot match), so a match is read from left to right. Python's int is unbounded, its
  float a double; a failed match (a method call on None), a failed assertion and a RuntimeError
  are faults.
\<close>

section \<open>The regular expressions\<close>

fun lit :: "string \<Rightarrow> string \<Rightarrow> string option" where
  "lit [] s = Some s"
| "lit (c # p) [] = None"
| "lit (c # p) (d # s) = (if c = d then lit p s else None)"

definition many1 :: "(char \<Rightarrow> bool) \<Rightarrow> string \<Rightarrow> (string \<times> string) option" where
  "many1 P s = (if takeWhile P s = [] then None else Some (takeWhile P s, dropWhile P s))"

definition re_time :: "string \<Rightarrow> (string \<times> string) option" where
  "re_time s = do {
     (a, r) \<leftarrow> many1 isdigit s;
     case r of [] \<Rightarrow> Some (a, r)
     | c # b \<Rightarrow> if c = CHR ''.'' then Some (a @ CHR ''.'' # takeWhile isdigit b, dropWhile isdigit b)
         else Some (a, r) }"

definition is_hex :: "char \<Rightarrow> bool" where
  "is_hex c \<longleftrightarrow> isdigit c \<or> (97 \<le> (of_char c :: nat) \<and> (of_char c :: nat) \<le> 102)
     \<or> (65 \<le> (of_char c :: nat) \<and> (of_char c :: nat) \<le> 70)"

definition hex_digit_of :: "char \<Rightarrow> nat" where
  "hex_digit_of c = (let n = of_char c in if n < 58 then n - 48 else if n < 71 then n - 55 else n - 87)"

definition read_hex :: "string \<Rightarrow> nat" where
  "read_hex s = foldl (\<lambda>n c. 16 * n + hex_digit_of c) 0 s"

definition re_map :: "string \<Rightarrow> (string \<times> nat \<times> nat \<times> nat) option" where
  "re_map s = do {
     (t, s) \<leftarrow> re_time s;
     s \<leftarrow> lit '' MAP: 0x'' s;
     (p, s) \<leftarrow> many1 is_hex s;
     s \<leftarrow> lit '' ('' s;
     (n, s) \<leftarrow> many1 isdigit s;
     s \<leftarrow> lit '' bytes) stackTrace='' s;
     (i, s) \<leftarrow> many1 isdigit s;
     Some (t, read_hex p, read_digits 0 n, read_digits 0 i) }"

definition re_unmap :: "string \<Rightarrow> (string \<times> nat \<times> nat) option" where
  "re_unmap s = do {
     (t, s) \<leftarrow> re_time s;
     s \<leftarrow> lit '' UNMAP: 0x'' s;
     (p, s) \<leftarrow> many1 is_hex s;
     s \<leftarrow> lit '' ('' s;
     (n, s) \<leftarrow> many1 isdigit s;
     s \<leftarrow> lit '' bytes)'' s;
     Some (t, read_hex p, read_digits 0 n) }"

section \<open>The line parser\<close>

definition python_float :: "string \<Rightarrow> rat" where
  "python_float s = (case read_decimal s of None \<Rightarrow> 0 | Some y \<Rightarrow> fl double_prec y)"

definition round_up_page :: "int \<Rightarrow> int" where
  "round_up_page n = and (n + (4096 - 1)) (not (4096 - 1))"

datatype Event =
    MapEvent (ev_time: rat) (ev_pointer: int) (ev_size: int) (stack_trace_id: int) (line_number: nat)
  | UnmapEvent (ev_time: rat) (ev_pointer: int) (ev_size: int) (line_number: nat)

fun has_infix :: "string \<Rightarrow> string \<Rightarrow> bool" where
  "has_infix p [] = (p = [])"
| "has_infix p (c # s) = (lit p (c # s) \<noteq> None \<or> has_infix p s)"

definition checked_size :: "int \<Rightarrow> Event \<Rightarrow> Event outcome" where
  "checked_size n e = andThen (check (and n (4096 - 1) = 0) AssertionFailed) (\<lambda>_.
     andThen (check (n \<noteq> 0) AssertionFailed) (\<lambda>_. Inr e))"

definition parse_line :: "nat \<Rightarrow> string \<Rightarrow> Event outcome" where
  "parse_line num line =
     (if has_infix '' MAP:'' line then
        (case re_map line of None \<Rightarrow> Inl NullAccess
         | Some (t, p, n, i) \<Rightarrow> checked_size (round_up_page (int n))
             (MapEvent (python_float t) (int p) (round_up_page (int n)) (int i) num))
      else if has_infix '' UNMAP:'' line then
        (case re_unmap line of None \<Rightarrow> Inl NullAccess
         | Some (t, p, n) \<Rightarrow> checked_size (round_up_page (int n))
             (UnmapEvent (python_float t) (int p) (round_up_page (int n)) num))
      else Inl Aborted)"

function readlines :: "string \<Rightarrow> string list" where
  "readlines s = (if s = [] then [] else
     (case dropWhile (\<lambda>c. c \<noteq> CHR 0x0A) s of
        [] \<Rightarrow> [s]
      | c # r \<Rightarrow> (takeWhile (\<lambda>c. c \<noteq> CHR 0x0A) s @ [c]) # readlines r))"
  by pat_completeness auto
termination
proof (relation "measure length", simp)
  fix s c r assume "dropWhile (\<lambda>c. c \<noteq> CHR 0x0A) s = c # r"
  then have "length (c # r) \<le> length s" by (metis length_dropWhile_le)
  then show "(r, s) \<in> measure length" by simp
qed

declare readlines.simps [simp del]

fun parse_lines :: "nat \<Rightarrow> string list \<Rightarrow> Event list outcome" where
  "parse_lines num [] = Inr []"
| "parse_lines num (line # lines) =
     andThen (check (line \<noteq> [] \<and> last line = CHR 0x0A) AssertionFailed) (\<lambda>_.
     andThen (parse_line num (butlast line)) (\<lambda>e.
     andThen (parse_lines (num + 1) lines) (\<lambda>es. Inr (e # es))))"

definition parse_mmap_log :: "string \<Rightarrow> Event list outcome" where
  "parse_mmap_log log_file = parse_lines 1 (readlines log_file)"

section \<open>Reading what the wrappers write\<close>

lemma hex_digit:
  assumes "d < 16"
  shows "is_hex (char_of_hex_digit d)" "hex_digit_of (char_of_hex_digit d) = d"
proof -
  have "(of_char (char_of_hex_digit d) :: nat) = (if d < 10 then 48 + d else 87 + d)"
    using assms by (simp add: char_of_hex_digit_def)
  then show "is_hex (char_of_hex_digit d)" "hex_digit_of (char_of_hex_digit d) = d"
    using assms by (auto simp: is_hex_def isdigit_def hex_digit_of_def Let_def)
qed

lemma show_hex_read: "read_hex (show_hex n) = n \<and> (\<forall>c \<in> set (show_hex n). is_hex c) \<and> show_hex n \<noteq> []"
proof (induction n rule: show_hex.induct)
  case (1 n)
  show ?case
  proof (cases "n < 16")
    case True
    then show ?thesis by (subst (1 2 3) show_hex.simps) (simp add: read_hex_def hex_digit)
  next
    case False
    then have IH: "read_hex (show_hex (n div 16)) = n div 16" "\<forall>c \<in> set (show_hex (n div 16)). is_hex c"
      using 1 by blast+
    have "show_hex n = show_hex (n div 16) @ [char_of_hex_digit (n mod 16)]"
      using False by (subst show_hex.simps) simp
    with IH show ?thesis by (auto simp: read_hex_def hex_digit)
  qed
qed

lemma lit_append: "lit p (p @ s) = Some s"
  by (induction p) simp_all

lemma many1_append:
  assumes "a \<noteq> []" and "\<forall>c \<in> set a. P c" and "s = [] \<or> \<not> P (hd s)"
  shows "many1 P (a @ s) = Some (a, s)"
proof -
  have "takeWhile P (a @ s) = a" "dropWhile P (a @ s) = s"
    using assms(2,3) by (cases s; simp add: takeWhile_append2 dropWhile_append2 takeWhile_eq_all_conv dropWhile_eq_Nil_conv)+
  with assms(1) show ?thesis by (simp add: many1_def)
qed


lemma has_infix_append: "has_infix p s \<Longrightarrow> has_infix p (a @ s)"
  by (induction a) simp_all

lemma has_infix_start: "has_infix p (p @ s)"
  using lit_append [of p s] by (cases "p @ s") auto

lemma has_infix_skip:
  "c \<notin> set a \<Longrightarrow> has_infix (c # p) (a @ s) \<longleftrightarrow> has_infix (c # p) s"
  by (induction a) auto

lemma digit_marks: "\<not> isdigit (CHR '' '')" "\<not> isdigit (CHR ''.'')" "\<not> isdigit (CHR ''e'')" "\<not> is_hex (CHR '' '')"
  by (simp_all add: isdigit_def is_hex_def)

lemma re_time_point:
  assumes "a \<noteq> []" and "\<forall>c \<in> set a. isdigit c" and "\<forall>c \<in> set b. isdigit c"
    and "s \<noteq> []" and "\<not> isdigit (hd s)" and "hd s \<noteq> CHR ''.''"
  shows "re_time (with_point a b @ s) = Some (with_point a b, s)"
proof -
  obtain c r where s: "s = c # r" using assms(4) by (cases s) auto
  have point: "many1 isdigit (a @ CHR ''.'' # b @ s) = Some (a, CHR ''.'' # b @ s)"
    "many1 isdigit (a @ s) = Some (a, s)"
    using assms digit_marks by (auto intro!: many1_append)
  have "takeWhile isdigit (b @ s) = b" "dropWhile isdigit (b @ s) = s"
    using assms(3,5) s by (simp_all add: takeWhile_append2 dropWhile_append2)
  with point s assms(6) show ?thesis by (simp add: re_time_def with_point_def)
qed

lemma re_time_decimal:
  assumes "read_decimal t = Some y"
  shows "re_time (t @ CHR '' '' # s) = Some (t, CHR '' '' # s)"
proof -
  let ?a = "takeWhile isdigit t"
  have a: "?a \<noteq> []" "\<forall>c \<in> set ?a. isdigit c"
    using assms by (auto simp: read_decimal_def Let_def split: if_splits dest: set_takeWhileD)
  show ?thesis
  proof (cases "dropWhile isdigit t")
    case Nil
    then have "t = ?a" by (metis append_Nil2 takeWhile_dropWhile_id)
    with a re_time_point [of ?a "[]" "CHR '' '' # s"] digit_marks show ?thesis by (simp add: with_point_def)
  next
    case (Cons c b)
    with assms a have c: "c = CHR ''.''" "\<forall>d \<in> set b. isdigit d"
      by (auto simp: read_decimal_def Let_def list_all_iff split: if_splits)
    have t: "t = ?a @ CHR ''.'' # b" using Cons c(1) by (metis takeWhile_dropWhile_id)
    have many: "many1 isdigit (?a @ CHR ''.'' # b @ CHR '' '' # s) = Some (?a, CHR ''.'' # b @ CHR '' '' # s)"
      using a digit_marks by (intro many1_append) auto
    have "takeWhile isdigit (b @ CHR '' '' # s) = b" "dropWhile isdigit (b @ CHR '' '' # s) = CHR '' '' # s"
      using c(2) digit_marks by (simp_all add: takeWhile_append2 dropWhile_append2)
    with many have "re_time (?a @ CHR ''.'' # b @ CHR '' '' # s) = Some (?a @ CHR ''.'' # b, CHR '' '' # s)"
      by (simp add: re_time_def)
    then show ?thesis by (metis t append.assoc append_Cons)
  qed
qed

lemma show_nat_nonempty: "show_nat n \<noteq> []"
  by (subst show_nat.simps) simp

lemma many1_nat: "s = [] \<or> \<not> isdigit (hd s) \<Longrightarrow> many1 isdigit (show_nat n @ s) = Some (show_nat n, s)"
  using show_nat_digits [of n] by (intro many1_append) (auto simp: show_nat_nonempty)

lemma many1_hex: "s = [] \<or> \<not> is_hex (hd s) \<Longrightarrow> many1 is_hex (show_hex n @ s) = Some (show_hex n, s)"
  using show_hex_read [of n] by (intro many1_append) auto

lemma round_up_page_eq: "round_up_page (int (unat n)) = int (rounded 12 n)"
proof -
  have "and x (not (mask 12)) = x div 2 ^ 12 * 2 ^ 12" for x :: int
  proof -
    have "and x (not (mask 12)) = push_bit 12 (drop_bit 12 x)"
      by (rule bit_eqI) (auto simp: bit_simps)
    then show ?thesis by (simp add: push_bit_eq_mult drop_bit_eq_div)
  qed
  then have "round_up_page (int (unat n)) = (int (unat n) + 4095) div 4096 * 4096"
    by (simp add: round_up_page_def mask_eq_exp_minus_1)
  also have "\<dots> = int (rounded 12 n)" by (simp add: rounded_def zdiv_int)
  finally show ?thesis .
qed

lemma checked_rounded:
  assumes "0 < unat n"
  shows "checked_size (int (rounded 12 n)) e = Inr e"
proof -
  have "and x (mask 12) = x mod 2 ^ 12" for x :: int
    by (simp only: take_bit_eq_mask [symmetric] take_bit_eq_mod)
  moreover have "int (rounded 12 n) mod 2 ^ 12 = 0" by (simp add: rounded_def)
  ultimately have "and (int (rounded 12 n)) (4096 - 1) = 0" by (simp add: mask_eq_exp_minus_1)
  moreover have "int (rounded 12 n) \<noteq> 0" using rounded_bounds(2) [of n 12] assms by simp
  ultimately show ?thesis by (simp add: checked_size_def)
qed


lemma number_marks: "number_char c \<Longrightarrow> c \<noteq> CHR '' '' \<and> c \<noteq> CHR 0x0A"
  by (auto simp: number_char_def isdigit_def)

lemma no_blank:
  "CHR '' '' \<notin> set (show_double x)" "CHR '' '' \<notin> set (show_nat n)" "CHR '' '' \<notin> set (show_hex n)"
  "CHR 0x0A \<notin> set (show_double x)" "CHR 0x0A \<notin> set (show_nat n)" "CHR 0x0A \<notin> set (show_hex n)"
proof -
  have "\<not> isdigit (CHR 0x0A)" "\<not> is_hex (CHR 0x0A)" by (simp_all add: isdigit_def is_hex_def)
  then show "CHR '' '' \<notin> set (show_double x)" "CHR '' '' \<notin> set (show_nat n)" "CHR '' '' \<notin> set (show_hex n)"
    "CHR 0x0A \<notin> set (show_double x)" "CHR 0x0A \<notin> set (show_nat n)" "CHR 0x0A \<notin> set (show_hex n)"
    using show_double_chars [of x] number_marks show_nat_digits [of n] show_hex_read [of n] digit_marks by blast+
qed

lemma show_ptr_hex: "p \<noteq> nullptr \<Longrightarrow> show_ptr p = ''0x'' @ show_hex (unat p)"
  by (simp add: show_ptr_def)

lemma parse_map_line:
  assumes "ret \<noteq> nullptr" and "0 < unat n" and "read_decimal (now_text c) = Some y"
  shows "parse_line num (butlast (map_line c ret n i))
    = Inr (MapEvent (fl double_prec y) (int (unat ret)) (int (rounded 12 n)) (int (unat i)) num)"
proof -
  let ?rest = "'' MAP: 0x'' @ show_hex (unat ret) @ '' ('' @ show_nat (unat n) @ '' bytes) stackTrace='' @ show_nat (unat i)"
  have line: "butlast (map_line c ret n i) = now_text c @ ?rest"
    using assms(1) by (simp add: map_line_def show_ptr_hex butlast_append)
  note time = re_time_decimal [OF assms(3)]
  have hex: "many1 is_hex (show_hex (unat ret) @ CHR '' '' # s) = Some (show_hex (unat ret), CHR '' '' # s)" for s
    using digit_marks by (intro many1_hex) simp
  have size: "many1 isdigit (show_nat (unat n) @ CHR '' '' # s) = Some (show_nat (unat n), CHR '' '' # s)" for s
    using digit_marks by (intro many1_nat) simp
  have "re_map (now_text c @ ?rest) = Some (now_text c, unat ret, unat n, unat i)"
    using many1_nat [of "[]" "unat i"]
    by (simp add: re_map_def time hex size show_hex_read read_show_nat)
  moreover have "has_infix '' MAP:'' (now_text c @ ?rest)"
    by (rule has_infix_append) simp
  ultimately show ?thesis
    using assms(2,3)
    by (simp add: line parse_line_def round_up_page_eq [simplified] checked_rounded python_float_def)
qed

lemma parse_unmap_line:
  assumes "addr \<noteq> nullptr" and "0 < unat n" and "read_decimal (now_text c) = Some y"
  shows "parse_line num (butlast (unmap_line c '' UNMAP: '' addr n))
    = Inr (UnmapEvent (fl double_prec y) (int (unat addr)) (int (rounded 12 n)) num)"
proof -
  let ?rest = "'' UNMAP: 0x'' @ show_hex (unat addr) @ '' ('' @ show_nat (unat n) @ '' bytes)''"
  have line: "butlast (unmap_line c '' UNMAP: '' addr n) = now_text c @ ?rest"
    using assms(1) by (simp add: unmap_line_def show_ptr_hex butlast_append)
  note time = re_time_decimal [OF assms(3)]
  have hex: "many1 is_hex (show_hex (unat addr) @ CHR '' '' # s) = Some (show_hex (unat addr), CHR '' '' # s)" for s
    using digit_marks by (intro many1_hex) simp
  have size: "many1 isdigit (show_nat (unat n) @ CHR '' '' # s) = Some (show_nat (unat n), CHR '' '' # s)" for s
    using digit_marks by (intro many1_nat) simp
  have "re_unmap (now_text c @ ?rest) = Some (now_text c, unat addr, unat n)"
    by (simp add: re_unmap_def time hex size show_hex_read read_show_nat)
  moreover have "\<not> has_infix '' MAP:'' (now_text c @ ?rest)"
    by (simp add: has_infix_skip no_blank now_text_def)
  moreover have "has_infix '' UNMAP:'' (now_text c @ ?rest)"
    by (rule has_infix_append) simp
  ultimately show ?thesis
    using assms(2,3)
    by (simp add: line parse_line_def round_up_page_eq [simplified] checked_rounded python_float_def)
qed


section \<open>Times\<close>

lemma event_time_bounds:
  assumes "clock_nsec c < 10 ^ 9" and "clock_sec c < 2 ^ 50"
  shows "of_nat (clock_sec c) \<le> event_time c" "event_time c \<le> of_nat (clock_sec c) + 1"
proof -
  let ?sec = "of_nat (clock_sec c) :: rat" and ?frac = "fl double_prec (of_nat (clock_nsec c) / 10 ^ 9)"
  have exact: "fl double_prec (of_nat n) = of_nat n" if "n < 2 ^ 51" for n
    using that by (intro fl_of_nat) auto
  have "fl double_prec (of_nat (clock_nsec c)) = of_nat (clock_nsec c)" using assms(1) by (intro exact) simp
  then have time: "event_time c = fl double_prec (?sec + ?frac)"
    using exact [of "clock_sec c"] assms(2) by (simp add: event_time_def getTime_def)
  have ns: "(of_nat (clock_nsec c) :: rat) \<le> of_nat (10 ^ 9)" unfolding of_nat_le_iff using assms(1) by simp
  then have "?frac \<le> fl double_prec (of_nat 1)" by (intro fl_mono) simp_all
  then have frac: "0 \<le> ?frac" "?frac \<le> 1" using exact [of 1] by (simp_all add: fl_nonneg)
  have "fl double_prec ?sec \<le> event_time c" unfolding time using frac by (intro fl_mono) simp_all
  then show "?sec \<le> event_time c" using exact [of "clock_sec c"] assms(2) by simp
  have "event_time c \<le> fl double_prec (of_nat (clock_sec c + 1))" unfolding time using frac by (intro fl_mono) simp_all
  then show "event_time c \<le> ?sec + 1" using exact [of "clock_sec c + 1"] assms(2) by simp
qed

text \<open>The clock counts from the start of the machine; its reading is good for eleven days.\<close>

definition early_clock :: "MmapCall \<Rightarrow> bool" where
  "early_clock c \<longleftrightarrow> 1 \<le> clock_sec c \<and> clock_sec c < 999999 \<and> clock_nsec c < 10 ^ 9"

lemma early_clock_time:
  assumes "early_clock c"
  obtains y where "read_decimal (now_text c) = Some y" "\<bar>y - event_time c\<bar> \<le> event_time c / 200000"
proof -
  have "clock_nsec c < 10 ^ 9" "clock_sec c < 2 ^ 50" using assms by (simp_all add: early_clock_def)
  note B = event_time_bounds [OF this]
  have "(of_nat 1 :: rat) \<le> of_nat (clock_sec c)" "(of_nat (clock_sec c) :: rat) \<le> of_nat 999998"
    using assms unfolding of_nat_le_iff by (simp_all add: early_clock_def)
  then have "1 \<le> event_time c" "event_time c \<le> 999999" using B by simp_all
  with show_double_small [of "event_time c"] that show ?thesis by (auto simp: now_text_def)
qed

section \<open>The whole log\<close>

lemma readlines_Cons: "CHR 0x0A \<notin> set l \<Longrightarrow> readlines ((l @ [CHR 0x0A]) @ s) = (l @ [CHR 0x0A]) # readlines s"
proof -
  assume "CHR 0x0A \<notin> set l"
  then have "takeWhile (\<lambda>c. c \<noteq> CHR 0x0A) (l @ CHR 0x0A # s) = l" "dropWhile (\<lambda>c. c \<noteq> CHR 0x0A) (l @ CHR 0x0A # s) = CHR 0x0A # s"
    by (subst takeWhile_append2 dropWhile_append2; fastforce)+
  then show ?thesis by (subst readlines.simps) simp
qed

definition ends_line :: "string \<Rightarrow> bool" where
  "ends_line s \<longleftrightarrow> s = [] \<or> last s = CHR 0x0A"

lemma readlines_append: "ends_line s \<Longrightarrow> readlines (s @ t) = readlines s @ readlines t"
proof (induction s rule: readlines.induct)
  case (1 s)
  show ?case
  proof (cases "s = []")
    case True
    then show ?thesis by (simp add: readlines.simps [of "[]"])
  next
    case False
    then have last: "last s = CHR 0x0A" using 1(2) by (simp add: ends_line_def)
    define l where "l = takeWhile (\<lambda>c. c \<noteq> CHR 0x0A) s"
    have "CHR 0x0A \<in> set s" using last False by (metis last_in_set)
    then have "dropWhile (\<lambda>c. c \<noteq> CHR 0x0A) s \<noteq> []" by (auto simp: dropWhile_eq_Nil_conv)
    then obtain c r where r: "dropWhile (\<lambda>c. c \<noteq> CHR 0x0A) s = c # r" by (cases "dropWhile (\<lambda>c. c \<noteq> CHR 0x0A) s") auto
    then have c: "c = CHR 0x0A" by (metis (mono_tags, lifting) dropWhile_eq_Cons_conv)
    have l: "CHR 0x0A \<notin> set l" unfolding l_def by (auto dest: set_takeWhileD)
    have s: "s = (l @ [CHR 0x0A]) @ r" using r c unfolding l_def by (metis append.assoc append_Cons append_Nil takeWhile_dropWhile_id)
    have "ends_line r" using last s by (cases r) (auto simp: ends_line_def)
    then have "readlines (r @ t) = readlines r @ readlines t" by (rule 1(1) [OF False r])
    then show ?thesis using readlines_Cons [OF l, of "r @ t"] readlines_Cons [OF l, of r] s by simp
  qed
qed

lemma parse_lines_append:
  "parse_lines num (xs @ ys) = andThen (parse_lines num xs) (\<lambda>es.
     andThen (parse_lines (num + length xs) ys) (\<lambda>fs. Inr (es @ fs)))"
proof (induction xs arbitrary: num)
  case Nil
  then show ?case by simp
next
  case (Cons x xs)
  show ?case unfolding append_Cons parse_lines.simps(2) Cons.IH by (simp add: andThen_assoc)
qed

lemma parse_lines_length: "parse_lines num xs = Inr es \<Longrightarrow> length es = length xs"
  by (induction num xs arbitrary: es rule: parse_lines.induct) (auto simp: andThen_Inr_iff)

lemma parse_mmap_log_append:
  assumes "parse_mmap_log s = Inr es" and "ends_line s" and "CHR 0x0A \<notin> set l"
  shows "parse_mmap_log (s @ l @ [CHR 0x0A]) = andThen (parse_line (length es + 1) l) (\<lambda>e. Inr (es @ [e]))"
proof -
  have "readlines (l @ [CHR 0x0A]) = [l @ [CHR 0x0A]]"
    using readlines_Cons [OF assms(3), of "[]"] by (simp add: readlines.simps [of "[]"])
  then have "readlines (s @ l @ [CHR 0x0A]) = readlines s @ [l @ [CHR 0x0A]]"
    using readlines_append [OF assms(2)] by simp
  then show ?thesis
    using assms(1) parse_lines_length [of 1 "readlines s" es]
    by (simp add: parse_mmap_log_def parse_lines_append andThen_assoc)
qed

lemma log_lines:
  assumes "p \<noteq> nullptr"
  obtains l where "map_line c p n i = l @ [CHR 0x0A]" "CHR 0x0A \<notin> set l" "butlast (map_line c p n i) = l"
proof (rule that)
  show "map_line c p n i = butlast (map_line c p n i) @ [CHR 0x0A]"
    by (simp add: map_line_def butlast_append)
  show "CHR 0x0A \<notin> set (butlast (map_line c p n i))"
    using assms by (simp add: map_line_def butlast_append show_ptr_hex no_blank now_text_def)
qed simp

lemma unmap_lines:
  assumes "p \<noteq> nullptr" and "CHR 0x0A \<notin> set what"
  obtains l where "unmap_line c what p n = l @ [CHR 0x0A]" "CHR 0x0A \<notin> set l" "butlast (unmap_line c what p n) = l"
proof (rule that)
  show "unmap_line c what p n = butlast (unmap_line c what p n) @ [CHR 0x0A]"
    by (simp add: unmap_line_def butlast_append)
  show "CHR 0x0A \<notin> set (butlast (unmap_line c what p n))"
    using assms by (simp add: unmap_line_def butlast_append show_ptr_hex no_blank now_text_def)
qed simp

section \<open>What the parser cannot read\<close>

text \<open>
  A mapping logged a million seconds or more after the machine started cannot be read back: the
  stream writes such a time in scientific notation, which the regular expression does not
  match, so the parser stops with an error on None.
\<close>

theorem late_times_unreadable:
  assumes "1000000 \<le> clock_sec c" and "clock_sec c < 2 ^ 50" and "clock_nsec c < 10 ^ 9" and "ret \<noteq> nullptr"
  shows "parse_line num (butlast (map_line c ret n i)) = Inl NullAccess"
proof -
  have "(of_nat 1000000 :: rat) \<le> of_nat (clock_sec c)" unfolding of_nat_le_iff using assms(1) by simp
  then have late: "1000000 \<le> event_time c" using event_time_bounds(1) [OF assms(3,2)] by simp
  obtain a b s where x: "now_text c = with_point a b @ CHR ''e'' # s" "a \<noteq> []"
    "\<forall>c \<in> set a. isdigit c" "\<forall>c \<in> set b. isdigit c"
    using show_double_large [OF late] by (auto simp: now_text_def)
  obtain r where line: "butlast (map_line c ret n i) = with_point a b @ CHR ''e'' # s @ '' MAP:'' @ r"
    using assms(4) by (simp add: map_line_def show_ptr_hex butlast_append x(1))
  have "re_time (with_point a b @ CHR ''e'' # s @ '' MAP:'' @ r) = Some (with_point a b, CHR ''e'' # s @ '' MAP:'' @ r)"
    using re_time_point [OF x(2-4), of "CHR ''e'' # s @ '' MAP:'' @ r"] digit_marks by simp
  then have "re_map (with_point a b @ CHR ''e'' # s @ '' MAP:'' @ r) = None"
    unfolding re_map_def by simp
  moreover have "has_infix '' MAP:'' ((with_point a b @ CHR ''e'' # s) @ '' MAP:'' @ r)"
    by (intro has_infix_append has_infix_start)
  ultimately show ?thesis unfolding line by (simp add: parse_line_def)
qed

theorem late_times_unreadable_witness:
  "parse_line 7 (butlast (map_line (sample_mmap_call\<lparr>clock_sec := 2000000\<rparr>) 4096 8192 3)) = Inl NullAccess"
  by (rule late_times_unreadable) (simp_all add: sample_mmap_call_def)

text \<open>The line of a failed unmapping is of neither kind, and the parser raises an error.\<close>

theorem failed_unmap_unreadable:
  "parse_line num (butlast (unmap_line c '' ERROR: UNMAP FAILED: '' addr n)) = Inl Aborted"
proof -
  obtain r where addr: "show_ptr addr = CHR ''0'' # r" "CHR '' '' \<notin> set r"
    by (cases "addr = nullptr") (auto simp: show_ptr_def no_blank)
  have "\<not> has_infix (CHR '' '' # p) (butlast (unmap_line c '' ERROR: UNMAP FAILED: '' addr n))"
    if "p = ''MAP:'' \<or> p = ''UNMAP:''" for p
    using that by (auto simp: unmap_line_def butlast_append has_infix_skip no_blank now_text_def addr)
  then show ?thesis by (simp add: parse_line_def)
qed

end
