(* ===== verification/Log_Analysis.thy ===== *)
theory Log_Analysis
  imports Event_Log
begin

text \<open>
  The replay of an event log by \<^verbatim>\<open>parse-mmap-log.py\<close>: its own memory map and the table of the memory
  mapped over time. A SortedDict is a list of pairs in ascending order of keys; slices are
  shared, mutable objects, but every slice is in one place of the dictionary, so a change of a
  slice is a change there. The parser is a generator: its events are processed as they are read; the
  model reads all of them first, which differs only in what was printed before a fault.
\<close>

section \<open>The analyser's memory map\<close>

record PyAllocation =
  original_start :: int
  original_size :: int
  py_stack_trace_id :: int

record PySlice =
  py_start :: int
  py_size :: int
  py_allocation :: PyAllocation

definition py_end :: "PySlice \<Rightarrow> int" where
  "py_end s = py_start s + py_size s"

type_synonym PyMap = "(int \<times> PySlice) list"

fun dict_set :: "int \<Rightarrow> 'v \<Rightarrow> (int \<times> 'v) list \<Rightarrow> (int \<times> 'v) list" where
  "dict_set k v [] = [(k, v)]"
| "dict_set k v ((k', v') # m) =
     (if k < k' then (k, v) # (k', v') # m
      else if k = k' then (k, v) # m
      else (k', v') # dict_set k v m)"

definition greatest_less_than :: "PyMap \<Rightarrow> int \<Rightarrow> nat option" where
  "greatest_less_than m key = (let index = lower_bound m key in if index = 0 then None else Some (index - 1))"

definition py_split_at :: "int \<Rightarrow> PyMap \<Rightarrow> PyMap outcome" where
  "py_split_at pointer m =
     (case greatest_less_than m pointer of
        None \<Rightarrow> Inr m
      | Some i \<Rightarrow> let (k, candidate) = m ! i
          in andThen (check (py_start candidate < pointer) AssertionFailed) (\<lambda>_.
             if pointer < py_end candidate
             then andThen (check (pointer \<notin> fst ` set m) AssertionFailed) (\<lambda>_.
               let left_side_size = pointer - py_start candidate;
                   right_side_size = py_end candidate - pointer
               in Inr (dict_set pointer \<lparr>py_start = pointer, py_size = right_side_size,
                    py_allocation = py_allocation candidate\<rparr> (m[i := (k, candidate\<lparr>py_size := left_side_size\<rparr>)])))
             else Inr m))"

definition py_register_unmap :: "int \<Rightarrow> int \<Rightarrow> PyMap \<Rightarrow> (PySlice list \<times> PyMap) outcome" where
  "py_register_unmap start n m =
     (let stop = start + n
      in andThen (py_split_at start m) (\<lambda>m1.
         andThen (py_split_at stop m1) (\<lambda>m2.
           Inr (map snd (filter (\<lambda>(k, _). start \<le> k \<and> k < stop) m2),
                filter (\<lambda>(k, _). \<not> (start \<le> k \<and> k < stop)) m2))))"

definition py_register_map :: "PyAllocation \<Rightarrow> PyMap \<Rightarrow> ((PySlice \<times> PySlice list) \<times> PyMap) outcome" where
  "py_register_map a m =
     andThen (py_register_unmap (original_start a) (original_size a) m) (\<lambda>(erased_slices, m1).
       let added_slice = \<lparr>py_start = original_start a, py_size = original_size a, py_allocation = a\<rparr>
       in Inr ((added_slice, erased_slices), dict_set (original_start a) added_slice m1))"

section \<open>The table of mapped memory\<close>

record Analysis =
  memory_map :: PyMap
  accum_memory :: int
  last_time :: rat
  output_rows :: "(rat \<times> int) list"

definition startAnalysis :: Analysis where
  "startAnalysis = \<lparr>memory_map = [], accum_memory = 0, last_time = 0, output_rows = []\<rparr>"

definition filtered_size :: "(int \<Rightarrow> bool) \<Rightarrow> PySlice list \<Rightarrow> int" where
  "filtered_size stack_filter slices =
     sum_list (map py_size (filter (\<lambda>x. stack_filter (py_stack_trace_id (py_allocation x))) slices))"

definition print_row :: "Event \<Rightarrow> Analysis \<Rightarrow> Analysis" where
  "print_row e s = (if last_time s < ev_time e
     then s\<lparr>output_rows := output_rows s @ [(last_time s, accum_memory s)], last_time := ev_time e\<rparr> else s)"

fun analyse_event :: "(int \<Rightarrow> bool) \<Rightarrow> Event \<Rightarrow> Analysis \<Rightarrow> Analysis outcome" where
  "analyse_event stack_filter (MapEvent t p n i num) s0 =
     (let s = print_row (MapEvent t p n i num) s0;
          a = \<lparr>original_start = p, original_size = n, py_stack_trace_id = i\<rparr>
      in andThen (py_register_map a (memory_map s)) (\<lambda>((added_slice, erased_slices), m).
           Inr (s\<lparr>memory_map := m,
             accum_memory := accum_memory s
               + ((if stack_filter (py_stack_trace_id (py_allocation added_slice)) then py_size added_slice else 0)
                  - filtered_size stack_filter erased_slices)\<rparr>)))"
| "analyse_event stack_filter (UnmapEvent t p n num) s0 =
     (let s = print_row (UnmapEvent t p n num) s0
      in andThen (py_register_unmap p n (memory_map s)) (\<lambda>(erased_slices, m).
         andThen (check (0 < length erased_slices) AssertionFailed) (\<lambda>_.
         andThen (check (sum_list (map py_size erased_slices) \<le> n) AssertionFailed) (\<lambda>_.
           Inr (s\<lparr>memory_map := m, accum_memory := accum_memory s - filtered_size stack_filter erased_slices\<rparr>)))))"

fun analyse_events :: "(int \<Rightarrow> bool) \<Rightarrow> Event list \<Rightarrow> Analysis \<Rightarrow> Analysis outcome" where
  "analyse_events stack_filter [] s = Inr s"
| "analyse_events stack_filter (e # es) s =
     andThen (analyse_event stack_filter e s) (analyse_events stack_filter es)"

definition generate_memory_log :: "(int \<Rightarrow> bool) \<Rightarrow> string \<Rightarrow> (rat \<times> int) list outcome" where
  "generate_memory_log stack_filter event_log_file =
     andThen (parse_mmap_log event_log_file) (\<lambda>events.
     andThen (analyse_events stack_filter events startAnalysis) (\<lambda>s.
       Inr (output_rows s @ [(last_time s, accum_memory s)])))"

section \<open>The two memory maps agree\<close>

definition py_slice :: "(MMapAllocation \<Rightarrow> PyAllocation) \<Rightarrow> MemorySlice \<Rightarrow> PySlice" where
  "py_slice f s = \<lparr>py_start = slice_start s, py_size = uint (slice_size s), py_allocation = f (slice_allocation s)\<rparr>"

definition py_of :: "(MMapAllocation \<Rightarrow> PyAllocation) \<Rightarrow> MemoryMap \<Rightarrow> PyMap" where
  "py_of f m = map (\<lambda>(k, s). (k, py_slice f s)) m"

lemma py_of_simps [simp]:
  "py_of f [] = []"
  "py_of f ((k, s) # m) = (k, py_slice f s) # py_of f m"
  "py_of f (xs @ ys) = py_of f xs @ py_of f ys"
  "length (py_of f m) = length m"
  "fst ` set (py_of f m) = fst ` set m"
  by (simp_all add: py_of_def image_image case_prod_beta')

lemma lower_bound_py [simp]: "lower_bound (py_of f m) p = lower_bound m p"
  by (simp add: lower_bound_def py_of_def takeWhile_map comp_def case_prod_beta')

lemma dict_set_between:
  "\<forall>(k', v') \<in> set xs. k' < k \<Longrightarrow> \<forall>(k', v') \<in> set ys. k < k' \<Longrightarrow>
     dict_set k v (xs @ ys) = xs @ (k, v) # ys"
  by (induction xs) (auto, cases ys, auto)

lemma lower_bound_split:
  assumes "\<forall>(k, s) \<in> set xs. k < p" and "\<forall>(k, s) \<in> set ys. p \<le> k"
  shows "lower_bound (xs @ ys) p = length xs"
proof -
  have "takeWhile (\<lambda>(k', _). k' < p) (xs @ ys) = xs @ takeWhile (\<lambda>(k', _). k' < p) ys"
    using assms(1) by (intro takeWhile_append2) auto
  moreover have "takeWhile (\<lambda>(k', _). k' < p) ys = []"
    using assms(2) by (cases ys) auto
  ultimately show ?thesis by (simp add: lower_bound_def)
qed

lemma py_split_cut:
  assumes "map_ok m" and "cut p m"
  shows "py_split_at p (py_of f m) = Inr (py_of f m)"
proof (cases "lower_bound m p = 0")
  case True
  then show ?thesis by (simp add: py_split_at_def greatest_less_than_def)
next
  case False
  let ?i = "lower_bound m p - 1"
  have chain: "chain 0 m" using assms(1) by (simp add: map_ok_def)
  obtain k s where ks: "m ! ?i = (k, s)" by (cases "m ! ?i")
  have i: "?i < length m" "m ! ?i \<in> set (takeWhile (\<lambda>(k', _). k' < p) m)"
  proof -
    have len: "?i < length (takeWhile (\<lambda>(k', _). k' < p) m)" using False by (simp add: lower_bound_def)
    then show "?i < length m" using length_takeWhile_le [of "\<lambda>(k', _). k' < p" m] by (rule less_le_trans)
    show "m ! ?i \<in> set (takeWhile (\<lambda>(k', _). k' < p) m)" using nth_mem [OF len] unfolding takeWhile_nth [OF len] .
  qed
  have "(k, s) \<in> set m" "k < p" using i(1) ks set_takeWhileD [OF i(2)] by auto
  then have "slice_start s = k" "k + uint (slice_size s) \<le> p"
    using chain_bounds(2) [OF chain] assms(2) by (auto simp: cut_def)
  moreover have "py_of f m ! ?i = (k, py_slice f s)" using i(1) ks by (simp add: py_of_def)
  ultimately show ?thesis
    using False \<open>k < p\<close> by (simp add: py_split_at_def greatest_less_than_def Let_def py_slice_def py_end_def)
qed

lemma py_split_refines:
  assumes "map_ok m" and "splitAt p m = Inr m'"
  shows "py_split_at p (py_of f m) = Inr (py_of f m')"
  using assms(1)
proof (cases rule: splitAt_cases [of m p, case_names none split])
  case none
  with assms py_split_cut show ?thesis by simp
next
  case (split xs k s ys s1 s2)
  have chain: "chain 0 xs" "map_end 0 xs \<le> k" "chain (k + uint (slice_size s)) ys" "slice_start s = k"
    using assms(1) split(1) by (auto simp: map_ok_def chain_append)
  have before: "\<forall>(k', s') \<in> set xs. k' < k"
    using chain_bounds(3,5) [OF chain(1)] chain(2) by fastforce
  have after: "\<forall>(k', s') \<in> set ys. p < k'"
    using chain_bounds(1) [OF chain(3)] split(3) by fastforce
  have lb: "lower_bound m p = Suc (length xs)"
    using lower_bound_split [of "xs @ [(k, s)]" p ys] before after split(1,2) by fastforce
  have nth: "py_of f m ! length xs = (k, py_slice f s)"
    unfolding split(1) by (simp add: nth_append)
  have absent: "p \<notin> fst ` set (py_of f m)"
    unfolding py_of_simps(5) using before after split(1,2) by fastforce
  have "dict_set p (py_slice f s2) ((py_of f xs @ [(k, py_slice f s1)]) @ py_of f ys)
      = (py_of f xs @ [(k, py_slice f s1)]) @ (p, py_slice f s2) # py_of f ys"
    using before after split(2) by (intro dict_set_between) (force simp: py_of_def)+
  moreover have "(py_of f m)[length xs := (k, py_slice f s1)] = (py_of f xs @ [(k, py_slice f s1)]) @ py_of f ys"
    unfolding split(1) by (simp add: list_update_append)
  moreover have pieces: "(py_slice f s)\<lparr>py_size := p - k\<rparr> = py_slice f s1"
    "\<lparr>py_start = p, py_size = k + uint (slice_size s) - p, py_allocation = f (slice_allocation s)\<rparr> = py_slice f s2"
    using split chain(4) by (simp_all add: py_slice_def)
  moreover have "m' = xs @ (k, s1) # (p, s2) # ys" using assms(2) split(10) by simp
  moreover have fields: "py_start (py_slice f s) = k" "py_end (py_slice f s) = k + uint (slice_size s)"
    "py_allocation (py_slice f s) = f (slice_allocation s)"
    using chain(4) by (simp_all add: py_slice_def py_end_def)
  have "py_split_at p (py_of f m) = Inr (dict_set p
      \<lparr>py_start = p, py_size = k + uint (slice_size s) - p, py_allocation = f (slice_allocation s)\<rparr>
      ((py_of f m)[length xs := (k, (py_slice f s)\<lparr>py_size := p - k\<rparr>)]))"
    using split(2,3) absent
    by (simp add: py_split_at_def greatest_less_than_def Let_def lb nth fields del: py_of_simps(5))
  ultimately show ?thesis by (simp only: py_of_simps append.simps append_assoc)
qed

text \<open>The memory of a part of the map, by the number of its stack trace.\<close>

definition mapped_bytes :: "(MMapAllocation \<Rightarrow> bool) \<Rightarrow> MemoryMap \<Rightarrow> int" where
  "mapped_bytes Q m = sum_list (map (\<lambda>(k, s). if Q (slice_allocation s) then uint (slice_size s) else 0) m)"

lemma mapped_bytes_simps [simp]:
  "mapped_bytes Q [] = 0"
  "mapped_bytes Q ((k, s) # m) = (if Q (slice_allocation s) then uint (slice_size s) else 0) + mapped_bytes Q m"
  "mapped_bytes Q (xs @ ys) = mapped_bytes Q xs + mapped_bytes Q ys"
  by (simp_all add: mapped_bytes_def)

lemma filtered_size_py [simp]:
  "filtered_size P (map snd (py_of f m)) = mapped_bytes (\<lambda>a. P (py_stack_trace_id (f a))) m"
  by (induction m) (auto simp: filtered_size_def py_slice_def)

lemma py_size_total [simp]: "sum_list (map (py_size \<circ> snd) (py_of f m)) = mapped_bytes (\<lambda>_. True) m"
  by (induction m) (auto simp: py_slice_def)

lemma py_of_empty [simp]: "py_of f m = [] \<longleftrightarrow> m = []"
  by (simp add: py_of_def)

lemma mapped_bytes_split:
  assumes "map_ok m" and "splitAt p m = Inr m'"
  shows "mapped_bytes Q m' = mapped_bytes Q m"
  using assms(1)
proof (cases rule: splitAt_cases [of m p, case_names none split])
  case none
  with assms(2) show ?thesis by simp
next
  case (split xs k s ys s1 s2)
  with assms(2) show ?thesis by auto
qed

lemma mapped_bytes_filter:
  "mapped_bytes Q (filter P m) + mapped_bytes Q (filter (\<lambda>x. \<not> P x) m) = mapped_bytes Q m"
  by (induction m) auto

lemma mapped_bytes_chain: "chain b m \<Longrightarrow> mapped_bytes (\<lambda>_. True) m \<le> map_end b m - b"
  by (induction b m rule: chain.induct) auto

lemma map_end_le: "b \<le> hi \<Longrightarrow> \<forall>(k, s) \<in> set m. k + uint (slice_size s) \<le> hi \<Longrightarrow> map_end b m \<le> hi"
  by (induction b m rule: map_end.induct) auto

lemma mapped_bytes_range:
  assumes "chain 0 m" and "cut hi m" and "lo \<le> hi"
  shows "mapped_bytes (\<lambda>_. True) (filter (\<lambda>(k, _). lo \<le> k \<and> k < hi) m) \<le> hi - lo"
proof -
  let ?r = "filter (\<lambda>(k, _). lo \<le> k \<and> k < hi) m"
  have "chain 0 ?r" using assms(1) by (rule chain_filter)
  moreover have "\<forall>(k, s) \<in> set ?r. lo \<le> k" by auto
  ultimately have "chain lo ?r" by (cases ?r) auto
  moreover have "map_end lo ?r \<le> hi"
    using assms(2,3) by (intro map_end_le) (auto simp: cut_def)
  ultimately show ?thesis using mapped_bytes_chain by fastforce
qed

lemma py_of_filter: "py_of f (filter (\<lambda>(k, _). P k) m) = filter (\<lambda>(k, _). P k) (py_of f m)"
  by (induction m) auto

lemma py_unmap_refines:
  assumes ok: "map_ok m" and region: "0 \<le> start" "start + uint n < 2 ^ 63"
    and unmap: "registerUnmap start n m = Inr (b, m')"
  obtains er where "py_register_unmap start (uint n) (py_of f m) = Inr (map snd (py_of f er), py_of f m')"
    "b \<longleftrightarrow> er \<noteq> []" "mapped_bytes (\<lambda>_. True) er \<le> uint n"
    "\<forall>Q. mapped_bytes Q m' = mapped_bytes Q m - mapped_bytes Q er"
proof -
  let ?stop = "start + uint n"
  have stop_eq: "ptr_plus start n = ?stop" using region by (rule ptr_plus_eq)
  obtain m1 where m1: "splitAt start m = Inr m1" "map_ok m1" "cut start m1"
    using splitAt_ok [OF ok, of start] by blast
  obtain m2 where m2: "splitAt ?stop m1 = Inr m2" "map_ok m2" "cut ?stop m2"
    using splitAt_ok [OF m1(2), of ?stop] m1(3) by blast
  have chain: "chain 0 m2" using m2(2) by (simp add: map_ok_def)
  let ?P = "\<lambda>(k, _). start \<le> k \<and> k < ?stop"
  have "m' = filter (\<lambda>(k, _). k < start \<or> ?stop \<le> k) m2"
    and b: "b \<longleftrightarrow> lower_bound m2 start \<noteq> lower_bound m2 ?stop"
    using unmap m1(1) m2(1) filter_range [OF chain, of start ?stop]
    by (auto simp: registerUnmap_def Let_def stop_eq cut_parts(1,2) [OF chain] split: if_splits)
  moreover have "filter (\<lambda>(k, _). k < start \<or> ?stop \<le> k) m2 = filter (\<lambda>x. \<not> ?P x) m2" by (rule filter_cong) auto
  ultimately have m': "m' = filter (\<lambda>x. \<not> ?P x) m2" by (simp only:)
  show ?thesis
  proof (rule that [of "filter ?P m2"])
    have "filter (\<lambda>(k, _). \<not> (start \<le> k \<and> k < ?stop)) (py_of f m2) = py_of f m'"
      unfolding m' using py_of_filter [of f "\<lambda>k. \<not> (start \<le> k \<and> k < ?stop)" m2] by (simp add: case_prod_beta')
    then show "py_register_unmap start (uint n) (py_of f m) = Inr (map snd (py_of f (filter ?P m2)), py_of f m')"
      using py_split_refines [OF ok m1(1), of f] py_split_refines [OF m1(2) m2(1), of f]
        py_of_filter [of f "\<lambda>k. start \<le> k \<and> k < ?stop" m2]
      by (simp add: py_register_unmap_def Let_def)
    show "b \<longleftrightarrow> filter ?P m2 \<noteq> []"
      unfolding b using lower_bound_count [OF chain, of start ?stop] by simp
    show "mapped_bytes (\<lambda>_. True) (filter ?P m2) \<le> uint n"
      using mapped_bytes_range [OF chain m2(3), of start] by simp
    show "\<forall>Q. mapped_bytes Q m' = mapped_bytes Q m - mapped_bytes Q (filter ?P m2)"
    proof
      fix Q
      show "mapped_bytes Q m' = mapped_bytes Q m - mapped_bytes Q (filter ?P m2)"
        unfolding m' using mapped_bytes_filter [of Q ?P m2] mapped_bytes_split [OF m1(2) m2(1), of Q]
          mapped_bytes_split [OF ok m1(1), of Q] by simp
    qed
  qed
qed

lemma py_map_refines:
  assumes ok: "map_ok m" and region: "0 \<le> originalStart a" "0 < uint (originalSize a)"
    "originalStart a + uint (originalSize a) < 2 ^ 63"
    and free: "\<And>x. originalStart a \<le> x \<Longrightarrow> x < originalStart a + uint (originalSize a) \<Longrightarrow> owner m x = None"
    and f: "original_start (f a) = originalStart a" "original_size (f a) = uint (originalSize a)"
  defines "s \<equiv> \<lparr>slice_start = originalStart a, slice_size = originalSize a, slice_allocation = a\<rparr>"
  shows "py_register_map (f a) (py_of f m) = Inr ((py_slice f s, []), py_of f (registerMap a m))"
    and "mapped_bytes Q (registerMap a m) = mapped_bytes Q m + (if Q a then uint (originalSize a) else 0)"
proof -
  let ?p = "originalStart a" and ?n = "uint (originalSize a)"
  obtain xs ys where m: "m = xs @ ys" and strict: "\<forall>(k, s) \<in> set xs. k < ?p"
    and below: "\<forall>(k, s) \<in> set xs. k + uint (slice_size s) \<le> ?p"
    and large: "\<forall>(k, s) \<in> set ys. ?p < k" and above: "\<forall>(k, s) \<in> set ys. ?p + ?n \<le> k"
    using free_region_between [OF ok region(2) free] .
  have insert: "registerMap a m = xs @ (?p, s) # ys"
    unfolding registerMap_def m s_def using strict large by (rule om_insert_between)
  have "cut ?p m" "cut (?p + ?n) m"
    using below large above region(2) unfolding m cut_def by fastforce+
  then have split: "py_split_at ?p (py_of f m) = Inr (py_of f m)" "py_split_at (?p + ?n) (py_of f m) = Inr (py_of f m)"
    using py_split_cut [OF ok] by simp_all
  have outside: "\<not> (?p \<le> k \<and> k < ?p + ?n)" if "(k, s') \<in> set m" for k s'
    using that strict above unfolding m by fastforce
  have "filter (\<lambda>(k, _). ?p \<le> k \<and> k < ?p + ?n) (py_of f m) = []"
    "filter (\<lambda>(k, _). \<not> (?p \<le> k \<and> k < ?p + ?n)) (py_of f m) = py_of f m"
    using outside by (force simp: py_of_def filter_empty_conv filter_id_conv)+
  then have unmap: "py_register_unmap ?p ?n (py_of f m) = Inr ([], py_of f m)"
    using split by (simp add: py_register_unmap_def Let_def)
  have "dict_set ?p (py_slice f s) (py_of f m) = py_of f xs @ (?p, py_slice f s) # py_of f ys"
    unfolding m py_of_simps using strict large by (intro dict_set_between) (auto simp: py_of_def)
  moreover have "py_slice f s = \<lparr>py_start = ?p, py_size = ?n, py_allocation = f a\<rparr>"
    by (simp add: s_def py_slice_def)
  ultimately show "py_register_map (f a) (py_of f m) = Inr ((py_slice f s, []), py_of f (registerMap a m))"
    using unmap by (simp add: py_register_map_def f insert Let_def)
  show "mapped_bytes Q (registerMap a m) = mapped_bytes Q m + (if Q a then ?n else 0)"
    unfolding insert by (simp add: s_def m)
qed

end
