(* ===== verification/Log_Replay.thy ===== *)
theory Log_Replay
  imports Log_Analysis
begin

text \<open>
  The mmap wrappers and the log analyser together: what the analyser computes from the log a process
  wrote is the process's own account. The relation holds along every history of mappings and
  unmappings whose lines the parser can read.
\<close>

section \<open>The number of an allocation's stack trace\<close>

definition hash_of_object :: "InternedStore \<Rightarrow> nat \<rightharpoonup> uint64" where
  "hash_of_object s i = map_option (\<lambda>(t, _). m_hash t) (shared s i)"

definition stack_id_of :: "MmapProcess \<Rightarrow> MMapAllocation \<Rightarrow> int" where
  "stack_id_of p a =
     (case Option.bind (hash_of_object (internedTraces p) (stackTraceHandle a)) (um_find (knownStackTraceHashToId p)) of
        None \<Rightarrow> 0 | Some i \<Rightarrow> uint i)"

definition py_allocation_of :: "MmapProcess \<Rightarrow> MMapAllocation \<Rightarrow> PyAllocation" where
  "py_allocation_of p a = \<lparr>original_start = originalStart a, original_size = uint (originalSize a),
     py_stack_trace_id = stack_id_of p a\<rparr>"

lemma py_allocation_of_simps [simp]:
  "original_start (py_allocation_of p a) = originalStart a"
  "original_size (py_allocation_of p a) = uint (originalSize a)"
  "py_stack_trace_id (py_allocation_of p a) = stack_id_of p a"
  by (simp_all add: py_allocation_of_def)

lemma object_copy: "intern_copy i s = Inr s' \<Longrightarrow> hash_of_object s' = hash_of_object s"
  by (auto simp: intern_copy_def hash_of_object_def fun_eq_iff split: option.splits)

lemma object_destroy: "intern_destroy i s = Inr s' \<Longrightarrow> hash_of_object s' \<subseteq>\<^sub>m hash_of_object s"
  by (auto simp: intern_destroy_def hash_of_object_def map_le_def andThen_Inr_iff split: option.splits if_splits)

lemma object_destroy_all: "destroy_allocations as s = Inr s' \<Longrightarrow> hash_of_object s' \<subseteq>\<^sub>m hash_of_object s"
proof (induction as arbitrary: s)
  case (Cons a as)
  then show ?case by (auto simp: andThen_Inr_iff dest!: object_destroy intro: map_le_trans)
qed simp

lemma object_construct:
  assumes "intern_construct new st s = Inr (i, s')" and "interned_ok s H" and "new \<notin># H"
  shows "hash_of_object s \<subseteq>\<^sub>m hash_of_object s'" "hash_of_object s' i = Some (m_hash st)"
proof -
  note ok = assms(2) [unfolded interned_ok_def]
  have "hash_of_object s \<subseteq>\<^sub>m hash_of_object s' \<and> hash_of_object s' i = Some (m_hash st)"
  proof (cases "um_find (s_stackTraces s) (m_hash st)")
    case (Some j)
    then obtain t n where "shared s j = Some (t, n)" "m_hash t = m_hash st" using ok by blast
    moreover from Some assms(1) have "intern_copy j s = Inr s'" "i = j"
      by (auto simp: intern_construct_def andThen_Inr_iff)
    ultimately show ?thesis using object_copy [of j s s'] by (simp add: hash_of_object_def)
  next
    case None
    have "shared s new = None" using ok assms(3) by blast
    with None assms(1) show ?thesis by (auto simp: intern_construct_def hash_of_object_def map_le_def)
  qed
  then show "hash_of_object s \<subseteq>\<^sub>m hash_of_object s'" "hash_of_object s' i = Some (m_hash st)" by blast+
qed

lemma getOrAssign_keeps:
  assumes "getOrAssignStackId st known = ((i, b), known')"
  shows "um_find known \<subseteq>\<^sub>m um_find known'" "um_find known' (m_hash st) = Some i"
proof -
  have "um_find (known @ [(h, j)]) = (um_find known)(h \<mapsto> j)" if "um_find known h = None" for h j
    using that by (auto simp: um_find_def fun_eq_iff map_add_def split: option.split)
  with assms show "um_find known \<subseteq>\<^sub>m um_find known'" "um_find known' (m_hash st) = Some i"
    by (auto simp: getOrAssign_cases map_le_def split: option.splits)
qed

text \<open>Every live allocation has a numbered trace.\<close>

definition numbered :: "MmapProcess \<Rightarrow> bool" where
  "numbered p \<longleftrightarrow> (\<forall>a \<in> set (live_allocations (memoryMap p)).
     \<exists>h i. hash_of_object (internedTraces p) (stackTraceHandle a) = Some h \<and> um_find (knownStackTraceHashToId p) h = Some i)"

lemma live_traced:
  assumes "interned_ok s (handles m)" and "a \<in> set (live_allocations m)"
  shows "hash_of_object s (stackTraceHandle a) \<noteq> None"
proof -
  have "stackTraceHandle a \<in># handles m" using assms(2) by (simp add: handles_def)
  then show ?thesis using assms(1) unfolding interned_ok_def hash_of_object_def by simp
qed

text \<open>A step that extends the traces and the numbers, and then only destroys, keeps the numbers.\<close>

lemma stack_id_kept:
  assumes "hash_of_object (internedTraces p) \<subseteq>\<^sub>m T" and "hash_of_object (internedTraces p') \<subseteq>\<^sub>m T"
    and "um_find (knownStackTraceHashToId p) \<subseteq>\<^sub>m um_find (knownStackTraceHashToId p')"
    and "numbered p" and "a \<in> set (live_allocations (memoryMap p))"
    and "interned_ok (internedTraces p') (handles (memoryMap p'))" and "a \<in> set (live_allocations (memoryMap p'))"
  shows "stack_id_of p' a = stack_id_of p a"
    "\<exists>h i. hash_of_object (internedTraces p') (stackTraceHandle a) = Some h \<and> um_find (knownStackTraceHashToId p') h = Some i"
proof -
  obtain h i where hi: "hash_of_object (internedTraces p) (stackTraceHandle a) = Some h"
    "um_find (knownStackTraceHashToId p) h = Some i"
    using assms(4,5) unfolding numbered_def by blast
  obtain h' where h': "hash_of_object (internedTraces p') (stackTraceHandle a) = Some h'"
    using live_traced [OF assms(6,7)] by blast
  have "T (stackTraceHandle a) = Some h" "T (stackTraceHandle a) = Some h'"
    using hi(1) h' assms(1,2) unfolding map_le_def by (metis domI)+
  moreover have "um_find (knownStackTraceHashToId p') h = Some i"
    using hi(2) assms(3) unfolding map_le_def by (metis domI)
  ultimately show "stack_id_of p' a = stack_id_of p a"
    "\<exists>h i. hash_of_object (internedTraces p') (stackTraceHandle a) = Some h \<and> um_find (knownStackTraceHashToId p') h = Some i"
    using hi h' by (simp_all add: stack_id_of_def)
qed

lemma register_mapping_log:
  assumes "register_mapping c ret n p = Inr p'" and "interned_ok (internedTraces p) (handles (memoryMap p))"
    and "fresh_call c p"
  obtains a j T where
    "originalStart a = sint ret" "originalSize a = word_of_int (uint (mmap_roundUpToPageMultiple (sysconf_page c) n))"
    "memoryMap p' = registerMap a (memoryMap p)" "eventLog p' = eventLog p @ map_line c ret n j"
    "hash_of_object (internedTraces p) \<subseteq>\<^sub>m T" "hash_of_object (internedTraces p') \<subseteq>\<^sub>m T"
    "T (stackTraceHandle a) = Some (m_hash (trace_here c))"
    "um_find (knownStackTraceHashToId p) \<subseteq>\<^sub>m um_find (knownStackTraceHashToId p')"
    "um_find (knownStackTraceHashToId p') (m_hash (trace_here c)) = Some j"
proof -
  obtain i s1 where s1: "intern_construct (new_trace c) (trace_here c) (internedTraces p) = Inr (i, s1)"
    using assms(1) by (auto simp: register_mapping_def Let_def andThen_Inr_iff split: prod.splits)
  define a where "a = MMapAllocation_construct (new_allocation c) i (sint ret)
    (uint (mmap_roundUpToPageMultiple (sysconf_page c) n))"
  note step = assms(1) [unfolded register_mapping_def Let_def s1 andThen.simps case_prod_conv, folded a_def]
  obtain t where t: "intern_get i s1 = Inr t" using step by (auto simp: andThen_Inr_iff)
  obtain j b known where ids: "getOrAssignStackId t (knownStackTraceHashToId p) = ((j, b), known)"
    by (metis prod.exhaust)
  note step = step [unfolded t ids andThen.simps case_prod_conv]
  obtain os where os: "(if b then log_new_stack c j t (stackLog p) else Inr (stackLog p)) = Inr os"
    using step unfolding andThen_Inr_iff by blast
  note step = step [unfolded os andThen.simps]
  obtain s2 where s2: "intern_copy i s1 = Inr s2" using step unfolding andThen_Inr_iff by blast
  note step = step [unfolded s2 andThen.simps]
  obtain s3 where s3: "destroy_allocations (dropped [a] (registerMap a (memoryMap p))) s2 = Inr s3"
    using step unfolding andThen_Inr_iff by blast
  note step = step [unfolded s3 andThen.simps]
  obtain s4 where s4: "intern_destroy i s3 = Inr s4" using step unfolding andThen_Inr_iff by blast
  note p' = step [unfolded s4 andThen.simps sum.inject, symmetric]
  have "new_trace c \<notin># handles (memoryMap p)" using assms(3) by (simp add: fresh_call_def)
  note traces = object_construct [OF s1 assms(2) this]
  have "m_hash t = m_hash (trace_here c)"
    using t traces(2) by (auto simp: intern_get_def hash_of_object_def split: option.splits)
  moreover have "hash_of_object s4 \<subseteq>\<^sub>m hash_of_object s1"
    using object_destroy [OF s4] object_destroy_all [OF s3] object_copy [OF s2]
    by (auto intro: map_le_trans)
  ultimately show ?thesis
    using that [of a j "hash_of_object s1"] getOrAssign_keeps [OF ids] traces p'
    by (simp add: a_def MMapAllocation_construct_def)
qed

section \<open>The two accounts agree\<close>

lemma py_of_cong: "(\<And>a. a \<in> set (live_allocations m) \<Longrightarrow> f a = g a) \<Longrightarrow> py_of f m = py_of g m"
  by (auto simp: py_of_def live_allocations_set py_slice_def)

lemma mapped_bytes_cong:
  assumes "\<And>a. a \<in> set (live_allocations m) \<Longrightarrow> Q a = R a"
  shows "mapped_bytes Q m = mapped_bytes R m"
proof -
  have "map (\<lambda>(k, s). if Q (slice_allocation s) then uint (slice_size s) else 0) m
      = map (\<lambda>(k, s). if R (slice_allocation s) then uint (slice_size s) else 0) m"
    using assms by (intro map_cong) (force simp: live_allocations_set)+
  then show ?thesis unfolding mapped_bytes_def by (rule arg_cong)
qed

lemma analyse_events_append:
  "analyse_events P (xs @ ys) s = andThen (analyse_events P xs s) (analyse_events P ys)"
proof (induction xs arbitrary: s)
  case (Cons x xs)
  have "analyse_events P (xs @ ys) = (\<lambda>s. andThen (analyse_events P xs s) (analyse_events P ys))"
    using Cons.IH by (rule ext)
  then show ?case by (simp add: andThen_assoc)
qed simp

lemma print_row_simps [simp]:
  "memory_map (print_row e s) = memory_map s" "accum_memory (print_row e s) = accum_memory s"
  by (simp_all add: print_row_def)

definition agrees :: "MmapProcess \<Rightarrow> (int \<Rightarrow> bool) \<Rightarrow> Analysis \<Rightarrow> bool" where
  "agrees p P s \<longleftrightarrow> memory_map s = py_of (py_allocation_of p) (memoryMap p)
     \<and> accum_memory s = mapped_bytes (\<lambda>a. P (stack_id_of p a)) (memoryMap p)"

definition replayed :: "MmapProcess \<Rightarrow> bool" where
  "replayed p \<longleftrightarrow> mmap_ok p \<and> numbered p \<and> ends_line (eventLog p)
     \<and> (\<exists>es. parse_mmap_log (eventLog p) = Inr es
         \<and> (\<forall>P. \<exists>s. analyse_events P es startAnalysis = Inr s \<and> agrees p P s))"

text \<open>One more line of the log, one more event.\<close>

lemma replayed_line:
  assumes p: "replayed p" and p': "mmap_ok p'" "numbered p'"
    and log: "eventLog p' = eventLog p @ l @ [CHR 0x0A]" "CHR 0x0A \<notin> set l"
    and event: "\<And>num. \<exists>e. parse_line num l = Inr e
      \<and> (\<forall>P s. agrees p P s \<longrightarrow> (\<exists>s'. analyse_event P e s = Inr s' \<and> agrees p' P s'))"
  shows "replayed p'"
proof -
  obtain es where es: "parse_mmap_log (eventLog p) = Inr es"
    "\<forall>P. \<exists>s. analyse_events P es startAnalysis = Inr s \<and> agrees p P s" and ends: "ends_line (eventLog p)"
    using p unfolding replayed_def by blast
  obtain e where e: "parse_line (length es + 1) l = Inr e"
    "\<And>P s. agrees p P s \<Longrightarrow> \<exists>s'. analyse_event P e s = Inr s' \<and> agrees p' P s'"
    using event by blast
  have "parse_mmap_log (eventLog p') = Inr (es @ [e])"
    using parse_mmap_log_append [OF es(1) ends log(2)] e(1) by (simp add: log(1))
  moreover have "\<exists>s. analyse_events P (es @ [e]) startAnalysis = Inr s \<and> agrees p' P s" for P
  proof -
    obtain s where s: "analyse_events P es startAnalysis = Inr s" "agrees p P s" using es(2) by blast
    obtain s' where "analyse_event P e s = Inr s'" "agrees p' P s'" using e(2) [OF s(2)] by blast
    with s(1) show ?thesis by (simp add: analyse_events_append)
  qed
  moreover have "ends_line (eventLog p')" by (simp add: log(1) ends_line_def)
  ultimately show ?thesis using p' unfolding replayed_def by blast
qed

lemma sint_unat: "0 \<le> sint a \<Longrightarrow> int (unat a) = sint (a :: ptr)"
proof -
  assume "0 \<le> sint a"
  moreover have "sint a < 2 ^ 63" using sint_lt [of a] by simp
  ultimately have "uint a = sint a" by (simp add: uint_sint take_bit_int_eq_self)
  then show ?thesis by simp
qed

lemma mmap_registers:
  assumes "mmap real_mmap c addr n prot flags fd offs p = Inr (r, p')" and "\<not> caller_inLibrary p"
    and "real_mmap addr n prot flags fd offs = ret" and "ret \<noteq> nullptr" and "and flags MAP_ANONYMOUS \<noteq> 0"
  obtains q where "register_mapping c ret n (p\<lparr>caller_inLibrary := True\<rparr>) = Inr q" "p' = q\<lparr>caller_inLibrary := False\<rparr>"
proof (cases "register_mapping c ret n (p\<lparr>caller_inLibrary := True\<rparr>)")
  case (Inr q)
  with assms that [OF Inr] show ?thesis by (simp add: mmap_def inLibrary_def Let_def)
qed (use assms in \<open>simp add: mmap_def inLibrary_def Let_def\<close>)

lemma munmap_registers:
  assumes "munmap real_munmap c addr n p = Inr (r, p')" and "\<not> caller_inLibrary p" and "real_munmap addr n = 0"
  obtains q where "register_unmapping c addr n (p\<lparr>caller_inLibrary := True\<rparr>) = Inr q" "p' = q\<lparr>caller_inLibrary := False\<rparr>"
proof (cases "register_unmapping c addr n (p\<lparr>caller_inLibrary := True\<rparr>)")
  case (Inr q)
  with assms that [OF Inr] show ?thesis by (simp add: munmap_def inLibrary_def Let_def)
qed (use assms in \<open>simp add: munmap_def inLibrary_def Let_def\<close>)

lemma replayed_map:
  fixes real_mmap :: "ptr \<Rightarrow> uint64 \<Rightarrow> int \<Rightarrow> uint32 \<Rightarrow> int \<Rightarrow> int \<Rightarrow> ptr"
  assumes p: "replayed p" and fresh: "fresh_call c p" and region: "small_region c 12 ret n" and n: "0 < unat n"
    and ret: "real_mmap addr n prot flags fd offs = ret" "ret \<noteq> nullptr" "and flags MAP_ANONYMOUS \<noteq> 0"
    and free: "\<And>x. sint ret \<le> x \<Longrightarrow> x < sint ret + int (rounded 12 n) \<Longrightarrow> owner (memoryMap p) x = None"
    and clock: "early_clock c"
    and call: "mmap real_mmap c addr n prot flags fd offs p = Inr (r, p')"
  shows "replayed p'"
proof -
  have ok: "mmap_ok p" and numbered: "numbered p" using p by (simp_all add: replayed_def)
  let ?p = "p\<lparr>caller_inLibrary := True\<rparr>"
  have store: "interned_ok (internedTraces ?p) (handles (memoryMap ?p))" "\<not> caller_inLibrary p" "map_ok (memoryMap p)"
    using ok by (simp_all add: mmap_ok_def)
  have ok': "mmap_ok p'"
    using mmap_recorded [where real_mmap = real_mmap, OF ok fresh region n ret free] call by auto
  obtain q where q: "register_mapping c ret n ?p = Inr q" "p' = q\<lparr>caller_inLibrary := False\<rparr>"
    using mmap_registers [OF call store(2) ret] .
  have "fresh_call c ?p" using fresh by (simp add: fresh_call_def)
  then obtain a j T where "originalStart a = sint ret"
      "originalSize a = word_of_int (uint (mmap_roundUpToPageMultiple (sysconf_page c) n))"
      "memoryMap q = registerMap a (memoryMap ?p)" "eventLog q = eventLog ?p @ map_line c ret n j"
      "hash_of_object (internedTraces ?p) \<subseteq>\<^sub>m T" "hash_of_object (internedTraces q) \<subseteq>\<^sub>m T"
      "T (stackTraceHandle a) = Some (m_hash (trace_here c))"
      "um_find (knownStackTraceHashToId ?p) \<subseteq>\<^sub>m um_find (knownStackTraceHashToId q)"
      "um_find (knownStackTraceHashToId q) (m_hash (trace_here c)) = Some j"
    by (rule register_mapping_log [OF q(1) store(1)])
  then have a: "originalStart a = sint ret"
      "originalSize a = word_of_int (uint (mmap_roundUpToPageMultiple (sysconf_page c) n))"
    and m: "memoryMap p' = registerMap a (memoryMap p)" and log: "eventLog p' = eventLog p @ map_line c ret n j"
    and T: "hash_of_object (internedTraces p) \<subseteq>\<^sub>m T" "hash_of_object (internedTraces p') \<subseteq>\<^sub>m T"
      "T (stackTraceHandle a) = Some (m_hash (trace_here c))"
    and known: "um_find (knownStackTraceHashToId p) \<subseteq>\<^sub>m um_find (knownStackTraceHashToId p')"
      "um_find (knownStackTraceHashToId p') (m_hash (trace_here c)) = Some j"
    by (simp_all add: q(2))
  have store': "interned_ok (internedTraces p') (handles (memoryMap p'))" using ok' by (simp add: mmap_ok_def)
  have size: "uint (originalSize a) = int (rounded 12 n)" using small_round(3) [OF region] by (simp add: a(2))
  have bounds: "0 \<le> originalStart a" "0 < uint (originalSize a)" "originalStart a + uint (originalSize a) < 2 ^ 63"
    using region rounded_bounds(2) [of n 12] n unfolding size a(1) small_region_def by simp_all
  have free': "owner (memoryMap p) x = None" if "originalStart a \<le> x" "x < originalStart a + uint (originalSize a)" for x
    using that free unfolding size a(1) by blast
  have live: "set (live_allocations (memoryMap p')) \<subseteq> insert a (set (live_allocations (memoryMap p)))"
    "a \<in> set (live_allocations (memoryMap p'))"
    using registerMap_live [of a "memoryMap p"] registered_live [OF store(3) bounds free'] m by auto
  have old: "stack_id_of p' b = stack_id_of p b"
    "\<exists>h i. hash_of_object (internedTraces p') (stackTraceHandle b) = Some h \<and> um_find (knownStackTraceHashToId p') h = Some i"
    if "b \<in> set (live_allocations (memoryMap p))" for b
    using stack_id_kept [OF T(1,2) known(1) numbered that store'] that m registerMap_live [of a "memoryMap p"] by auto
  have new: "hash_of_object (internedTraces p') (stackTraceHandle a) = Some (m_hash (trace_here c))"
    using live_traced [OF store' live(2)] T(2,3) unfolding map_le_def by (metis domI option.exhaust)
  then have id: "stack_id_of p' a = uint j" using known(2) by (simp add: stack_id_of_def)
  have numbered': "numbered p'" unfolding numbered_def
    using live(1) old(2) new known(2) by blast
  have f: "py_of (py_allocation_of p') (memoryMap p) = py_of (py_allocation_of p) (memoryMap p)"
    by (rule py_of_cong) (simp add: py_allocation_of_def old(1))
  have bytes: "mapped_bytes (\<lambda>a. P (stack_id_of p' a)) (memoryMap p) = mapped_bytes (\<lambda>a. P (stack_id_of p a)) (memoryMap p)" for P
    by (rule mapped_bytes_cong) (simp add: old(1))
  note refine = py_map_refines [of "memoryMap p" a "py_allocation_of p'", OF store(3) bounds free', simplified, folded m, unfolded f]
  obtain l where l: "map_line c ret n j = l @ [CHR 0x0A]" "CHR 0x0A \<notin> set l" "butlast (map_line c ret n j) = l"
    using log_lines [OF ret(2)] .
  obtain y where y: "read_decimal (now_text c) = Some y" using early_clock_time [OF clock] by blast
  have alloc: "\<lparr>original_start = int (unat ret), original_size = int (rounded 12 n), py_stack_trace_id = int (unat j)\<rparr>
      = py_allocation_of p' a"
    using sint_unat [of ret] bounds(1) by (simp add: py_allocation_of_def size a(1) id)
  show ?thesis
  proof (rule replayed_line [OF p ok' numbered' _ l(2)])
    show "eventLog p' = eventLog p @ l @ [CHR 0x0A]" using log l(1) by simp
    fix num
    let ?e = "MapEvent (fl double_prec y) (int (unat ret)) (int (rounded 12 n)) (int (unat j)) num"
    have "parse_line num l = Inr ?e" using parse_map_line [OF ret(2) n y, of num j] l(3) by simp
    moreover have "\<exists>s'. analyse_event P ?e s = Inr s' \<and> agrees p' P s'" if "agrees p P s" for P s
      using that refine bytes [of P]
      unfolding agrees_def analyse_event.simps Let_def alloc print_row_simps
      by (simp add: py_slice_def id filtered_size_def)
    ultimately show "\<exists>e. parse_line num l = Inr e
        \<and> (\<forall>P s. agrees p P s \<longrightarrow> (\<exists>s'. analyse_event P e s = Inr s' \<and> agrees p' P s'))" by blast
  qed
qed

text \<open>Unmapping a range of which nothing is known changes nothing.\<close>

lemma splitAt_cut:
  assumes "map_ok m" and "cut p m"
  shows "splitAt p m = Inr m"
  using assms(1)
proof (cases rule: splitAt_cases [of m p, case_names none split])
  case (split xs k s ys s1 s2)
  with assms(2) show ?thesis by (auto simp: cut_def)
qed

lemma unmap_nothing:
  assumes ok: "map_ok m" and region: "0 \<le> start" "0 < uint n" "start + uint n < 2 ^ 63"
    and none: "\<And>x. start \<le> x \<Longrightarrow> x < start + uint n \<Longrightarrow> owner m x = None"
    and unmap: "registerUnmap start n m = Inr (b, m')"
  shows "m' = m"
proof -
  obtain xs ys where m: "m = xs @ ys" "\<forall>(k, s) \<in> set xs. k < start"
    and below: "\<forall>(k, s) \<in> set xs. k + uint (slice_size s) \<le> start"
    and large: "\<forall>(k, s) \<in> set ys. start < k" and above: "\<forall>(k, s) \<in> set ys. start + uint n \<le> k"
    using free_region_between [OF ok region(2) none] .
  have chain: "chain 0 m" using ok by (simp add: map_ok_def)
  have stop: "ptr_plus start n = start + uint n" using region(1,3) by (rule ptr_plus_eq)
  have "cut start m" "cut (start + uint n) m"
    using below large above region(2) unfolding m cut_def by fastforce+
  then have split: "splitAt start m = Inr m" "splitAt (start + uint n) m = Inr m"
    using splitAt_cut [OF ok] by simp_all
  have "m' = filter (\<lambda>(k, _). k < start \<or> start + uint n \<le> k) m"
    using unmap split filter_range [OF chain, of start "start + uint n"]
    by (auto simp: registerUnmap_def Let_def stop cut_parts(1,2) [OF chain] split: if_splits)
  also have "\<dots> = m" using m(2) above unfolding m(1) by (intro filter_True) auto
  finally show ?thesis .
qed

lemma replayed_unmap:
  fixes real_munmap :: "ptr \<Rightarrow> uint64 \<Rightarrow> int"
  assumes p: "replayed p" and region: "small_region c 12 addr n" and n: "0 < unat n" and addr: "addr \<noteq> nullptr"
    and aligned: "and addr (sysconf_page c - 1) = 0" and ret: "real_munmap addr n = 0"
    and clock: "early_clock c" and call: "munmap real_munmap c addr n p = Inr (r, p')"
  shows "replayed p'"
proof -
  have ok: "mmap_ok p" and numbered: "numbered p" using p by (simp_all add: replayed_def)
  let ?n = "to_uint64 (mmap_roundUpToPageMultiple (sysconf_page c) n) :: uint64"
  have store: "\<not> caller_inLibrary p" "map_ok (memoryMap p)" using ok by (simp_all add: mmap_ok_def)
  obtain q where q: "register_unmapping c addr n (p\<lparr>caller_inLibrary := True\<rparr>) = Inr q" "p' = q\<lparr>caller_inLibrary := False\<rparr>"
    using munmap_registers [where real_munmap = real_munmap, OF call store(1) ret] .
  then obtain b where m: "registerUnmap (sint addr) ?n (memoryMap p) = Inr (b, memoryMap p')"
    and destroy: "destroy_allocations (dropped (live_allocations (memoryMap p)) (memoryMap p')) (internedTraces p) = Inr (internedTraces p')"
    and known: "knownStackTraceHashToId p' = knownStackTraceHashToId p"
    and log: "eventLog p' = eventLog p @ (if b then unmap_line c '' UNMAP: '' addr n else [])"
    by (auto simp: register_unmapping_def andThen_Inr_iff)
  have ok': "mmap_ok p'" using munmap_forgotten [where real_munmap = real_munmap, OF ok region aligned ret] call by auto
  then have store': "interned_ok (internedTraces p') (handles (memoryMap p'))" by (simp add: mmap_ok_def)
  have size: "uint ?n = int (rounded 12 n)" using small_round(2) [OF region] .
  have bounds: "0 \<le> sint addr" "0 < uint ?n" "sint addr + uint ?n < 2 ^ 63"
    using region rounded_bounds(2) [of n 12] n unfolding size small_region_def by simp_all
  have old: "stack_id_of p' a = stack_id_of p a"
    "\<exists>h i. hash_of_object (internedTraces p') (stackTraceHandle a) = Some h \<and> um_find (knownStackTraceHashToId p') h = Some i"
    if "a \<in> set (live_allocations (memoryMap p'))" for a
    using stack_id_kept [OF map_le_refl object_destroy_all [OF destroy] _ numbered _ store' that]
      registerUnmap_live [OF store(2) m] that by (auto simp: known)
  have numbered': "numbered p'" unfolding numbered_def using old(2) by blast
  have f: "py_of (py_allocation_of p) (memoryMap p') = py_of (py_allocation_of p') (memoryMap p')"
    by (rule py_of_cong) (simp add: py_allocation_of_def old(1))
  have bytes: "mapped_bytes (\<lambda>a. P (stack_id_of p a)) (memoryMap p') = mapped_bytes (\<lambda>a. P (stack_id_of p' a)) (memoryMap p')" for P
    by (rule mapped_bytes_cong) (simp add: old(1))
  obtain er where er: "py_register_unmap (sint addr) (uint ?n) (py_of (py_allocation_of p) (memoryMap p))
      = Inr (map snd (py_of (py_allocation_of p) er), py_of (py_allocation_of p') (memoryMap p'))"
    "b \<longleftrightarrow> er \<noteq> []" "mapped_bytes (\<lambda>_. True) er \<le> uint ?n"
    "\<forall>Q. mapped_bytes Q (memoryMap p') = mapped_bytes Q (memoryMap p) - mapped_bytes Q er"
    by (rule py_unmap_refines [OF store(2) bounds(1,3) m, of "py_allocation_of p", unfolded f])
  show ?thesis
  proof (cases b)
    case False
    have "\<And>x. sint addr \<le> x \<Longrightarrow> x < sint addr + uint ?n \<Longrightarrow> owner (memoryMap p) x = None"
      using registerUnmap_spec [OF store(2) bounds(1,3)] m False by auto
    then have "memoryMap p' = memoryMap p" using unmap_nothing [OF store(2) bounds _ m] by blast
    then have "agrees p' P s \<longleftrightarrow> agrees p P s" for P s
      using f bytes [of P] by (simp add: agrees_def)
    moreover have "eventLog p' = eventLog p" using log False by simp
    ultimately show ?thesis using p ok' numbered' by (simp add: replayed_def)
  next
    case True
    obtain l where l: "unmap_line c '' UNMAP: '' addr n = l @ [CHR 0x0A]" "CHR 0x0A \<notin> set l"
      "butlast (unmap_line c '' UNMAP: '' addr n) = l"
      by (rule unmap_lines [OF addr, of "'' UNMAP: ''"]) simp
    obtain y where y: "read_decimal (now_text c) = Some y" using early_clock_time [OF clock] by blast
    show ?thesis
    proof (rule replayed_line [OF p ok' numbered' _ l(2)])
      show "eventLog p' = eventLog p @ l @ [CHR 0x0A]" using log l(1) True by simp
      fix num
      let ?e = "UnmapEvent (fl double_prec y) (int (unat addr)) (int (rounded 12 n)) num"
      have "parse_line num l = Inr ?e" using parse_unmap_line [OF addr n y, of num] l(3) by simp
      moreover have "\<exists>s'. analyse_event P ?e s = Inr s' \<and> agrees p' P s'" if "agrees p P s" for P s
        using that er True bytes [of P] sint_unat [OF bounds(1)]
        unfolding agrees_def analyse_event.simps Let_def print_row_simps size
        by simp
      ultimately show "\<exists>e. parse_line num l = Inr e
          \<and> (\<forall>P s. agrees p P s \<longrightarrow> (\<exists>s'. analyse_event P e s = Inr s' \<and> agrees p' P s'))" by blast
    qed
  qed
qed

section \<open>Histories the analyser can replay\<close>

text \<open>
  The histories of mapping and unmapping of which every line can be read: they meet the conditions
  of mmap_history, the machine has been up for between a second and eleven days, pages are of 4 KiB, no unmapping
  fails, and none starts at address 0 or is of no bytes.
\<close>

inductive logged_history :: "MmapProcess \<Rightarrow> int set \<Rightarrow> bool" where
  start: "logged_history empty_mmap_process {}"
| anonymous: "logged_history p K \<Longrightarrow> fresh_call c p \<Longrightarrow> early_clock c \<Longrightarrow> small_region c 12 ret n \<Longrightarrow> 0 < unat n \<Longrightarrow>
    real_mmap addr n prot flags fd offs = ret \<Longrightarrow> ret \<noteq> nullptr \<Longrightarrow> and flags MAP_ANONYMOUS \<noteq> 0 \<Longrightarrow>
    K \<inter> {sint ret ..< sint ret + int (rounded 12 n)} = {} \<Longrightarrow>
    mmap real_mmap c addr n prot flags fd offs p = Inr (r, p') \<Longrightarrow>
    logged_history p' (K \<union> {sint ret ..< sint ret + int (rounded 12 n)})"
| from_file: "logged_history p K \<Longrightarrow> and flags MAP_ANONYMOUS = 0 \<Longrightarrow>
    real_mmap addr n prot flags fd offs = ret \<Longrightarrow>
    ret = - 1 \<or> K \<inter> {sint ret ..< sint ret + int (rounded 12 n)} = {} \<Longrightarrow>
    mmap real_mmap c addr n prot flags fd offs p = Inr (r, p') \<Longrightarrow> logged_history p' K"
| unmap: "logged_history p K \<Longrightarrow> early_clock c \<Longrightarrow> small_region c 12 addr n \<Longrightarrow> 0 < unat n \<Longrightarrow> addr \<noteq> nullptr \<Longrightarrow>
    and addr (sysconf_page c - 1) = 0 \<Longrightarrow> real_munmap addr n = 0 \<Longrightarrow> munmap real_munmap c addr n p = Inr (r, p') \<Longrightarrow>
    logged_history p' (K - {sint addr ..< sint addr + int (rounded 12 n)})"

lemma logged_mmap_history: "logged_history p K \<Longrightarrow> mmap_history 12 p K"
proof (induction rule: logged_history.induct)
  case (anonymous p K c ret n real_mmap addr prot flags fd offs r p')
  show ?case by (rule mmap_history.anonymous [where real_mmap = real_mmap, OF anonymous.IH anonymous.hyps(2,4-10)])
next
  case (from_file p K flags real_mmap addr n prot fd offs ret c r p')
  show ?case by (rule mmap_history.from_file [where real_mmap = real_mmap, OF from_file.IH from_file.hyps(2-5)])
next
  case (unmap p K c addr n real_munmap r p')
  show ?case by (rule mmap_history.unmap [where real_munmap = real_munmap, OF unmap.IH unmap.hyps(3,6-8)])
qed (rule mmap_history.start)

lemma logged_replayed: "logged_history p K \<Longrightarrow> replayed p"
proof (induction rule: logged_history.induct)
  case start
  show ?case
    using empty_mmap_process_ok
    by (simp add: replayed_def numbered_def ends_line_def parse_mmap_log_def readlines.simps [of "[]"]
        agrees_def startAnalysis_def empty_mmap_process_def live_allocations_def)
next
  case (anonymous p K c ret n real_mmap addr prot flags fd offs r p')
  have "owner (memoryMap p) x = None" if "sint ret \<le> x" "x < sint ret + int (rounded 12 n)" for x
    using history_account [OF logged_mmap_history [OF anonymous.hyps(1)]] anonymous.hyps(9) that
    by (auto simp: disjoint_iff)
  then show ?case
    by (rule replayed_map [where real_mmap = real_mmap, OF anonymous.IH anonymous.hyps(2,4-8) _ anonymous.hyps(3,10)])
next
  case (from_file p K flags real_mmap addr n prot fd offs ret c r p')
  then have "p' = p" by (cases p) (auto simp: mmap_def inLibrary_def Let_def replayed_def mmap_ok_def)
  then show ?case using from_file.IH by simp
next
  case (unmap p K c addr n real_munmap r p')
  show ?case
    by (rule replayed_unmap [where real_munmap = real_munmap, OF unmap.IH unmap.hyps(3-7,2,8)])
qed

text \<open>The bytes of the map are the addresses with an owner.\<close>

lemma mapped_bytes_owned:
  "chain b m \<Longrightarrow> finite {x. owner m x \<noteq> None} \<and> mapped_bytes (\<lambda>_. True) m = int (card {x. owner m x \<noteq> None})"
proof (induction b m rule: chain.induct)
  case (2 b k s m)
  let ?stop = "k + uint (slice_size s)"
  have rest: "chain ?stop m" using 2(2) by simp
  have "?stop \<le> x" if own: "owner m x \<noteq> None" for x
  proof -
    obtain al where "owner m x = Some al" using own by blast
    then obtain k' s' where "(k', s') \<in> set m" "k' \<le> x" using owner_iff [OF rest] by blast
    then show ?thesis using chain_bounds(1) [OF rest] by fastforce
  qed
  then have "{k ..< ?stop} \<inter> {x. owner m x \<noteq> None} = {}" by fastforce
  moreover have "{x. owner ((k, s) # m) x \<noteq> None} = {k ..< ?stop} \<union> {x. owner m x \<noteq> None}" by auto
  ultimately show ?case using 2(1) [OF rest] by (simp add: card_Un_disjoint)
qed simp

text \<open>
  C9. Replaying the event log gives the process's own account, for histories of calls made one after the other
  on a machine with pages of 4 KiB that has been up for between a second and eleven days, in which anonymous
  mappings succeed, are not empty and not at address 0, on regions that held no anonymous memory, file mappings are not laid over anonymous memory,
  anonymous mappings and unmappings are shorter than 4 GiB, and every unmapping succeeds, is page aligned, not empty and does not start at
  address 0 (new objects have new identities, and no symbol starts behind the address it is found for). Then the parser reads the whole log, no assertion of the analyser fails,
  its memory map is the process's (with each allocation under the number of its stack trace), the memory
  of its last row is, for any filter on stack traces, the bytes of the slices whose trace passes the
  filter, and over all traces the map holds as many bytes as the kernel has mapped anonymously.
\<close>

theorem log_replay_exact:
  assumes "logged_history p K"
  shows "\<exists>events. parse_mmap_log (eventLog p) = Inr events
    \<and> (\<forall>P. \<exists>s. analyse_events P events startAnalysis = Inr s
        \<and> memory_map s = py_of (py_allocation_of p) (memoryMap p)
        \<and> accum_memory s = mapped_bytes (\<lambda>a. P (stack_id_of p a)) (memoryMap p)
        \<and> generate_memory_log P (eventLog p) = Inr (output_rows s @ [(last_time s, accum_memory s)]))
    \<and> mapped_bytes (\<lambda>_. True) (memoryMap p) = int (card K)"
proof -
  obtain es where es: "parse_mmap_log (eventLog p) = Inr es"
    "\<And>P. \<exists>s. analyse_events P es startAnalysis = Inr s \<and> agrees p P s"
    using logged_replayed [OF assms] unfolding replayed_def by blast
  have "\<exists>s. analyse_events P es startAnalysis = Inr s \<and> memory_map s = py_of (py_allocation_of p) (memoryMap p)
      \<and> accum_memory s = mapped_bytes (\<lambda>a. P (stack_id_of p a)) (memoryMap p)
      \<and> generate_memory_log P (eventLog p) = Inr (output_rows s @ [(last_time s, accum_memory s)])" for P
    using es(2) [of P] es(1) by (auto simp: agrees_def generate_memory_log_def)
  moreover have "mmap_ok p" "K = {x. owner (memoryMap p) x \<noteq> None}"
    using history_account [OF logged_mmap_history [OF assms]] by auto
  then have "mapped_bytes (\<lambda>_. True) (memoryMap p) = int (card K)"
    using mapped_bytes_owned [of 0 "memoryMap p"] by (simp add: mmap_ok_def map_ok_def)
  ultimately show ?thesis using es(1) by (intro exI [of _ es]) simp
qed

theorem log_replay_exact_witness:
  "\<exists>p rows t. mmap (\<lambda>_ _ _ _ _ _. 65536) sample_mmap_call 0 5000 3 34 (- 1) 0 empty_mmap_process = Inr (65536, p)
    \<and> generate_memory_log (\<lambda>_. True) (eventLog p) = Inr (rows @ [(t, 8192)])"
proof -
  have region: "small_region sample_mmap_call 12 65536 5000"
    by (simp add: small_region_def sample_page rounded_def)
  have fresh: "fresh_call sample_mmap_call empty_mmap_process"
    by (simp add: fresh_call_def sample_mmap_call_def empty_mmap_process_def handles_def live_allocations_def
        dladdr_ok_def)
  obtain p where p: "mmap (\<lambda>_ _ _ _ _ _. 65536) sample_mmap_call 0 5000 3 34 (- 1) 0 empty_mmap_process = Inr (65536, p)"
    using mmap_returns [OF empty_mmap_process_ok fresh] by blast
  have "early_clock sample_mmap_call" by (simp add: early_clock_def sample_mmap_call_def)
  then have "logged_history p ({} \<union> {sint (65536 :: ptr) ..< sint (65536 :: ptr) + int (rounded 12 5000)})"
    by (rule logged_history.anonymous [OF logged_history.start fresh _ region _ _ _ _ _ p]) (simp_all add: MAP_ANONYMOUS_def)
  then have "logged_history p {65536 ..< 73728}" by (simp add: rounded_def)
  from log_replay_exact [OF this] obtain es where
    all: "\<forall>P. \<exists>s. analyse_events P es startAnalysis = Inr s
        \<and> memory_map s = py_of (py_allocation_of p) (memoryMap p)
        \<and> accum_memory s = mapped_bytes (\<lambda>a. P (stack_id_of p a)) (memoryMap p)
        \<and> generate_memory_log P (eventLog p) = Inr (output_rows s @ [(last_time s, accum_memory s)])"
    and bytes: "mapped_bytes (\<lambda>_. True) (memoryMap p) = 8192" by auto
  from all [rule_format, of "\<lambda>_. True"] bytes obtain s :: Analysis where
    "generate_memory_log (\<lambda>_. True) (eventLog p) = Inr (output_rows s @ [(last_time s, 8192)])" by auto
  with p show ?thesis by blast
qed

end
