(* ===== verification/Log_Ranking.thy ===== *)
theory Log_Ranking
  imports Log_Replay
begin

text \<open>
  The ranking of stack traces by \<^verbatim>\<open>parse-mmap-log.py\<close>: how much more memory each trace has
  mapped at the end of the log than two hours after the start of the machine. A Python dict is a list
  of pairs in the order of insertion; the base line starts as None, and an empty dict is as false as None.
\<close>

section \<open>The ranking\<close>

fun add_to :: "int \<Rightarrow> int \<Rightarrow> (int \<times> int) list \<Rightarrow> (int \<times> int) list" where
  "add_to i n [] = [(i, 0 + n)]"
| "add_to i n ((j, m) # d) = (if i = j then (j, m + n) # d else (j, m) # add_to i n d)"

definition calculate_memory_by_stack_id :: "PyMap \<Rightarrow> (int \<times> int) list" where
  "calculate_memory_by_stack_id m =
     foldl (\<lambda>d (_, memory_slice). add_to (py_stack_trace_id (py_allocation memory_slice)) (py_size memory_slice) d) [] m"

fun rank_event :: "Event \<Rightarrow> PyMap \<Rightarrow> PyMap outcome" where
  "rank_event (MapEvent t p n i num) m =
     andThen (py_register_map \<lparr>original_start = p, original_size = n, py_stack_trace_id = i\<rparr> m) (\<lambda>(_, m'). Inr m')"
| "rank_event (UnmapEvent t p n num) m =
     andThen (py_register_unmap p n m) (\<lambda>(erased_slices, m').
     andThen (check (0 < length erased_slices) AssertionFailed) (\<lambda>_.
     andThen (check (sum_list (map py_size erased_slices) \<le> n) AssertionFailed) (\<lambda>_. Inr m')))"

definition next_baseline :: "Event \<Rightarrow> PyMap \<Rightarrow> (int \<times> int) list option \<Rightarrow> (int \<times> int) list option" where
  "next_baseline e m baseline =
     (if 2 * 3600 \<le> ev_time e \<and> (baseline = None \<or> baseline = Some []) then Some (calculate_memory_by_stack_id m)
      else baseline)"

fun rank_events :: "Event list \<Rightarrow> PyMap \<Rightarrow> (int \<times> int) list option \<Rightarrow> (PyMap \<times> (int \<times> int) list option) outcome" where
  "rank_events [] m baseline = Inr (m, baseline)"
| "rank_events (e # es) m baseline =
     andThen (rank_event e m) (\<lambda>m'. rank_events es m' (next_baseline e m baseline))"

fun increases :: "(int \<times> int) list option \<Rightarrow> (int \<times> int) list \<Rightarrow> (int \<times> int) list outcome" where
  "increases baseline [] = Inr []"
| "increases baseline ((i, usage) # d) = (case baseline of
      None \<Rightarrow> Inl NullAccess
    | Some b \<Rightarrow> andThen (increases baseline d) (\<lambda>r.
        Inr ((i, usage - (case map_of b i of None \<Rightarrow> 0 | Some u \<Rightarrow> u)) # r)))"

definition generate_ranking :: "string \<Rightarrow> (int \<times> int) list outcome" where
  "generate_ranking event_log_file =
     andThen (parse_mmap_log event_log_file) (\<lambda>events.
     andThen (rank_events events [] None) (\<lambda>(m, baseline).
     andThen (increases baseline (calculate_memory_by_stack_id m)) (\<lambda>r.
       Inr (sort_key (\<lambda>x. - snd x) r))))"

section \<open>What the ranking shows\<close>

lemma map_of_add_to:
  "map_of (add_to i n d) j =
     (if j = i then Some ((case map_of d i of None \<Rightarrow> 0 | Some u \<Rightarrow> u) + n) else map_of d j)"
  by (induction i n d rule: add_to.induct) auto

lemma distinct_add_to: "distinct (map fst d) \<Longrightarrow> distinct (map fst (add_to i n d)) \<and>
    set (map fst (add_to i n d)) = insert i (set (map fst d))"
  by (induction i n d rule: add_to.induct) auto

lemma memory_by_stack_id_spec:
  "distinct (map fst (calculate_memory_by_stack_id (py_of f m)))
   \<and> map_of (calculate_memory_by_stack_id (py_of f m)) i =
      (if i \<in> py_stack_trace_id ` f ` set (live_allocations m)
       then Some (mapped_bytes (\<lambda>a. py_stack_trace_id (f a) = i) m) else None)"
proof (induction m rule: rev_induct)
  case Nil
  then show ?case by (simp add: calculate_memory_by_stack_id_def live_allocations_def)
next
  case (snoc x m)
  obtain k s where x: "x = (k, s)" by (cases x)
  let ?id = "py_stack_trace_id (f (slice_allocation s))"
  have live: "set (live_allocations (m @ [x])) = insert (slice_allocation s) (set (live_allocations m))"
    by (auto simp: live_allocations_set x)
  have zero: "mapped_bytes (\<lambda>a. py_stack_trace_id (f a) = i) m = 0"
    if "i \<notin> py_stack_trace_id ` f ` set (live_allocations m)"
  proof -
    have "mapped_bytes (\<lambda>a. py_stack_trace_id (f a) = i) m = mapped_bytes (\<lambda>_. False) m"
      using that by (intro mapped_bytes_cong) auto
    also have "\<dots> = 0" by (induction m) auto
    finally show ?thesis .
  qed
  have step: "calculate_memory_by_stack_id (py_of f (m @ [x]))
      = add_to ?id (uint (slice_size s)) (calculate_memory_by_stack_id (py_of f m))"
    by (simp add: calculate_memory_by_stack_id_def x py_slice_def)
  show ?case
    using snoc zero distinct_add_to
    unfolding step live map_of_add_to by (auto simp: x split: if_splits)
qed

lemma rank_event_analyse:
  "rank_event e (memory_map s) = andThen (analyse_event P e s) (\<lambda>s'. Inr (memory_map s'))"
proof (cases e)
  case (MapEvent t p n i num)
  then show ?thesis
    by (simp add: Let_def) (cases "py_register_map \<lparr>original_start = p, original_size = n, py_stack_trace_id = i\<rparr> (memory_map s)"; force)
next
  case (UnmapEvent t p n num)
  then show ?thesis
    by (simp add: Let_def) (cases "py_register_unmap p n (memory_map s)"; force simp: check_def)
qed

lemma rank_events_analyse:
  "analyse_events P es s = Inr s' \<Longrightarrow> \<exists>b. rank_events es (memory_map s) baseline = Inr (memory_map s', b)
     \<and> ((\<forall>e \<in> set es. ev_time e < 2 * 3600) \<longrightarrow> b = baseline)
     \<and> (baseline \<noteq> None \<or> (\<exists>e \<in> set es. 2 * 3600 \<le> ev_time e) \<longrightarrow> b \<noteq> None)"
proof (induction es arbitrary: s baseline)
  case (Cons e es)
  then obtain s1 where s1: "analyse_event P e s = Inr s1" "analyse_events P es s1 = Inr s'"
    by (auto simp: andThen_Inr_iff)
  obtain b where b: "rank_events es (memory_map s1) (next_baseline e (memory_map s) baseline) = Inr (memory_map s', b)"
    "(\<forall>e \<in> set es. ev_time e < 2 * 3600) \<longrightarrow> b = next_baseline e (memory_map s) baseline"
    "next_baseline e (memory_map s) baseline \<noteq> None \<or> (\<exists>e \<in> set es. 2 * 3600 \<le> ev_time e) \<longrightarrow> b \<noteq> None"
    using Cons.IH [OF s1(2)] by blast
  then show ?case
    using rank_event_analyse [of e s P] s1(1)
    by (intro exI [of _ b]) (auto simp: next_baseline_def not_le)
qed simp

lemma increases_spec:
  "increases (Some b) d = Inr (map (\<lambda>(i, u). (i, u - (case map_of b i of None \<Rightarrow> 0 | Some v \<Rightarrow> v))) d)"
  by (induction d) auto

text \<open>
  For a log with an event two hours or more after the start of the machine, the ranking lists the stack
  traces that have memory mapped at the end, each once, the largest increase first. For an earlier
  log it fails, because the base line is still None, unless nothing is mapped.
\<close>

theorem ranking_of_history:
  assumes "logged_history p K" and "parse_mmap_log (eventLog p) = Inr events"
  shows "(\<exists>e \<in> set events. 7200 \<le> ev_time e) \<Longrightarrow> \<exists>r. generate_ranking (eventLog p) = Inr r
      \<and> distinct (map fst r) \<and> set (map fst r) = stack_id_of p ` set (live_allocations (memoryMap p))
      \<and> sorted (map (\<lambda>x. - snd x) r)"
    and "\<forall>e \<in> set events. ev_time e < 7200 \<Longrightarrow> memoryMap p \<noteq> [] \<Longrightarrow> generate_ranking (eventLog p) = Inl NullAccess"
proof -
  obtain s where s: "analyse_events (\<lambda>_. True) events startAnalysis = Inr s" "agrees p (\<lambda>_. True) s"
    using logged_replayed [OF assms(1)] assms(2) unfolding replayed_def by auto
  let ?d = "calculate_memory_by_stack_id (py_of (py_allocation_of p) (memoryMap p))"
  obtain b where b: "rank_events events [] None = Inr (py_of (py_allocation_of p) (memoryMap p), b)"
    "(\<forall>e \<in> set events. ev_time e < 7200) \<longrightarrow> b = None" "(\<exists>e \<in> set events. 7200 \<le> ev_time e) \<longrightarrow> b \<noteq> None"
    using rank_events_analyse [OF s(1), of None] s(2) by (auto simp: agrees_def startAnalysis_def)
  have rank: "generate_ranking (eventLog p) = andThen (increases b ?d) (\<lambda>r. Inr (sort_key (\<lambda>x. - snd x) r))"
    by (simp add: generate_ranking_def assms(2) b(1))
  have "fst ` set ?d = dom (map_of ?d)" by (simp add: dom_map_of_conv_image_fst)
  also have "\<dots> = stack_id_of p ` set (live_allocations (memoryMap p))"
    using memory_by_stack_id_spec [of "py_allocation_of p" "memoryMap p"] by (auto simp: dom_def image_image)
  finally have ids: "distinct (map fst ?d)" "fst ` set ?d = stack_id_of p ` set (live_allocations (memoryMap p))"
    using memory_by_stack_id_spec by auto
  show "\<exists>r. generate_ranking (eventLog p) = Inr r
      \<and> distinct (map fst r) \<and> set (map fst r) = stack_id_of p ` set (live_allocations (memoryMap p))
      \<and> sorted (map (\<lambda>x. - snd x) r)" if late: "\<exists>e \<in> set events. 7200 \<le> ev_time e"
  proof -
    obtain base where base: "b = Some base" using b(3) late by blast
    define l where "l = map (\<lambda>(i, u). (i, u - (case map_of base i of None \<Rightarrow> 0 | Some v \<Rightarrow> v))) ?d"
    have "map fst l = map fst ?d" by (simp add: l_def case_prod_beta' comp_def)
    then have "distinct (map fst l)" "fst ` set l = fst ` set ?d" using ids(1) by (simp_all flip: set_map)
    moreover have "distinct (map fst (sort_key (\<lambda>x. - snd x) l)) \<longleftrightarrow> distinct (map fst l)"
      by (metis mset_map mset_sort mset_eq_imp_distinct_iff)
    ultimately show ?thesis
      using rank base increases_spec [of base ?d] ids(2) by (simp flip: l_def)
  qed
  show "generate_ranking (eventLog p) = Inl NullAccess"
    if "\<forall>e \<in> set events. ev_time e < 7200" "memoryMap p \<noteq> []"
  proof -
    have "fst ` set ?d \<noteq> {}" using ids(2) that(2) by (simp add: live_allocations_def)
    then obtain x d where "?d = x # d" by (cases ?d) auto
    then show ?thesis using rank b(2) that(1) by (cases x) simp
  qed
qed

end
