(* ===== verification/Example_Programs.thy ===== *)
theory Example_Programs
  imports Log_Replay
begin

text \<open>
  \<^verbatim>\<open>test-mmap/test-mmap.cpp\<close>: the repository's program to try the mmap wrappers on, run on the
  model from its preloading to the report made of its log. What it prints is left out.
\<close>

definition test_mmap_main ::
  "(ptr \<Rightarrow> uint64 \<Rightarrow> int \<Rightarrow> uint32 \<Rightarrow> int \<Rightarrow> int \<Rightarrow> ptr) \<Rightarrow> (ptr \<Rightarrow> uint64 \<Rightarrow> int) \<Rightarrow> MmapCall \<Rightarrow> MmapCall \<Rightarrow>
     MmapProcess \<Rightarrow> (int \<times> MmapProcess) outcome" where
  "test_mmap_main real_mmap real_munmap c1 c2 p =
     andThen (mmap real_mmap c1 nullptr 4096 (or 1 2) (or 2 MAP_ANONYMOUS) (- 1) 0 p) (\<lambda>(addr, p1).
     andThen (check (addr \<noteq> nullptr) AssertionFailed) (\<lambda>_.
     andThen (munmap real_munmap c2 addr 4096 p1) (\<lambda>(_, p2). Inr (0, p2))))"

text \<open>
  On a kernel that maps a page and unmaps it, the program ends normally with nothing in the account,
  its log has one line for each call, and the analyser reports no memory at the end.
\<close>

theorem test_mmap_clean:
  assumes "fresh_call c1 empty_mmap_process" and "early_clock c1" and "early_clock c2"
    and "small_region c1 12 ret 4096" and "small_region c2 12 ret 4096" and "and ret (sysconf_page c2 - 1) = 0"
    and "ret \<noteq> nullptr" and "real_mmap nullptr 4096 3 34 (- 1) 0 = ret" and "real_munmap ret 4096 = 0"
  shows "\<exists>p i. test_mmap_main real_mmap real_munmap c1 c2 empty_mmap_process = Inr (0, p) \<and> memoryMap p = []
    \<and> eventLog p = map_line c1 ret 4096 i @ unmap_line c2 '' UNMAP: '' ret 4096
    \<and> (\<exists>rows t. generate_memory_log (\<lambda>_. True) (eventLog p) = Inr (rows @ [(t, 0)]))"
proof -
  let ?K = "{sint ret ..< sint ret + int (rounded 12 4096)}"
  note start = logged_history.start
  have flags: "or 1 2 = (3 :: int)" "or 2 MAP_ANONYMOUS = (34 :: uint32)" "and 34 MAP_ANONYMOUS \<noteq> (0 :: uint32)"
    by (simp_all add: MAP_ANONYMOUS_def)
  obtain p1 where p1: "mmap real_mmap c1 nullptr 4096 3 34 (- 1) 0 empty_mmap_process = Inr (ret, p1)"
    using mmap_returns [OF empty_mmap_process_ok assms(1), of real_mmap nullptr 4096 3 34 "- 1" 0] assms(8) by auto
  have mapped: "logged_history p1 ({} \<union> ?K)"
    by (rule logged_history.anonymous [OF start assms(1,2,4) _ assms(8,7) flags(3) _ p1]) simp_all
  have ok1: "mmap_ok p1" "\<And>x. owner (memoryMap p1) x \<noteq> None \<longleftrightarrow> x \<in> ?K"
    using history_account [OF logged_mmap_history [OF mapped]] by auto
  obtain p2 b where p2: "munmap real_munmap c2 ret 4096 p1 = Inr (0, p2)"
    "b \<longleftrightarrow> (\<exists>x. sint ret \<le> x \<and> x < sint ret + int (rounded 12 4096) \<and> owner (memoryMap p1) x \<noteq> None)"
    "eventLog p2 = eventLog p1 @ (if b then unmap_line c2 '' UNMAP: '' ret 4096 else [])"
    using munmap_forgotten [where real_munmap = real_munmap, OF ok1(1) assms(5,6,9)] by blast
  have "sint ret \<in> ?K" by (simp add: rounded_def)
  then have b unfolding p2(2) using ok1(2) by (intro exI [of _ "sint ret"]) simp
  have "logged_history p2 (({} \<union> ?K) - ?K)"
    by (rule logged_history.unmap [OF mapped assms(3,5) _ assms(7,6,9) p2(1)]) simp
  then have unmapped: "logged_history p2 {}" by simp
  have none: "memoryMap p2 = []"
    using no_owner_no_slices [of "memoryMap p2"] history_account [OF logged_mmap_history [OF unmapped]]
    by (simp add: mmap_ok_def)
  obtain q where q: "register_mapping c1 ret 4096 (empty_mmap_process\<lparr>caller_inLibrary := True\<rparr>) = Inr q"
    "p1 = q\<lparr>caller_inLibrary := False\<rparr>"
    using mmap_registers [OF p1 _ assms(8,7) flags(3)] by (auto simp: empty_mmap_process_def)
  have "fresh_call c1 (empty_mmap_process\<lparr>caller_inLibrary := True\<rparr>)" using assms(1) by (simp add: fresh_call_def)
  from register_mapping_safe [OF _ _ this, of ret 4096] obtain i where "eventLog q = map_line c1 ret 4096 i"
    using q(1) empty_mmap_process_ok by (auto simp: Let_def mmap_ok_def empty_mmap_process_def)
  then have log: "eventLog p2 = map_line c1 ret 4096 i @ unmap_line c2 '' UNMAP: '' ret 4096"
    using p2(3) \<open>b\<close> q(2) by simp
  obtain es s where "parse_mmap_log (eventLog p2) = Inr es" "analyse_events (\<lambda>_. True) es startAnalysis = Inr s"
    "agrees p2 (\<lambda>_. True) s"
    using logged_replayed [OF unmapped] unfolding replayed_def by blast
  then have "generate_memory_log (\<lambda>_. True) (eventLog p2) = Inr (output_rows s @ [(last_time s, 0)])"
    using none by (simp add: generate_memory_log_def agrees_def)
  moreover have "test_mmap_main real_mmap real_munmap c1 c2 empty_mmap_process = Inr (0, p2)"
    unfolding test_mmap_main_def flags p1 using assms(7) p2(1) by simp
  ultimately show ?thesis using none log by blast
qed

theorem test_mmap_clean_witness:
  "\<exists>p rows t. test_mmap_main (\<lambda>_ _ _ _ _ _. 65536) (\<lambda>_ _. 0) sample_mmap_call sample_mmap_call empty_mmap_process = Inr (0, p)
    \<and> generate_memory_log (\<lambda>_. True) (eventLog p) = Inr (rows @ [(t, 0)])"
proof -
  have "small_region sample_mmap_call 12 65536 4096"
    by (simp add: small_region_def sample_page rounded_def)
  moreover have "fresh_call sample_mmap_call empty_mmap_process"
    by (simp add: fresh_call_def sample_mmap_call_def empty_mmap_process_def handles_def live_allocations_def
        dladdr_ok_def)
  moreover have "early_clock sample_mmap_call" by (simp add: early_clock_def sample_mmap_call_def)
  moreover have "and 65536 (sysconf_page sample_mmap_call - 1) = (0 :: ptr)" by (simp add: sample_mmap_call_def)
  ultimately show ?thesis
    using test_mmap_clean [of sample_mmap_call sample_mmap_call 65536 "\<lambda>_ _ _ _ _ _. 65536" "\<lambda>_ _. 0"] by force
qed

end
