(* ===== verification/Mmap_Threads.thy ===== *)
theory Mmap_Threads
  imports Wrapper_Mmap
begin

text \<open>
  The wrappers of \<^verbatim>\<open>mmap-counter/wrapper-mmap.cpp\<close> as the threads of a process run them. The
  other theories take a call as one transition; here a call is a sequence of steps of its thread, cut
  where another thread can come in between: the real function (which holds no lock of the library),
  taking the mutex, the part under the mutex, releasing it, leaving the library context. The static
  objects, the mutex and the kernel's memory are shared, the library flag is each thread's own. The kernel's
  memory is the set of addresses that are mapped anonymously; what the kernel answers is a parameter.
  Proved: a call that runs alone is the transition of Wrapper_Mmap; the mutex excludes; over all
  interleavings the account is exact as long as no mapping gets addresses of an unmapping under way;
  and with such a mapping it is not.
\<close>

section \<open>Threads\<close>

datatype MmapThread =
    MmapCalled MmapCall ptr uint64 int uint32 int int
  | MmapWaiting MmapCall uint64 ptr
  | MmapLocked MmapCall uint64 ptr
  | MmapUnlocking ptr
  | MmapLeaving ptr
  | MmapDone ptr
  | MunmapCalled MmapCall ptr uint64
  | MunmapWaiting MmapCall ptr uint64 int
  | MunmapLocked MmapCall ptr uint64 int
  | MunmapUnlocking int
  | MunmapLeaving int
  | MunmapDone int

record MmapMachine =
  kernel_memory :: "int set"
  process :: MmapProcess
  mutex_owner :: "nat option"
  in_library :: "nat \<Rightarrow> bool"
  thread :: "nat \<Rightarrow> MmapThread"

text \<open>What the kernel does with the pages of a region.\<close>

definition kernel_region :: "MmapCall \<Rightarrow> ptr \<Rightarrow> uint64 \<Rightarrow> int set" where
  "kernel_region c a n = (let page = unat (sysconf_page c)
     in {sint a ..< sint a + int ((unat n + page - 1) div page * page)})"

definition kernel_mmap :: "MmapCall \<Rightarrow> uint64 \<Rightarrow> uint32 \<Rightarrow> ptr \<Rightarrow> int set \<Rightarrow> int set" where
  "kernel_mmap c n flags ret K =
     (if ret = - 1 then K
      else if and flags MAP_ANONYMOUS \<noteq> 0 then K \<union> kernel_region c ret n
      else K - kernel_region c ret n)"

definition kernel_munmap :: "MmapCall \<Rightarrow> ptr \<Rightarrow> uint64 \<Rightarrow> int \<Rightarrow> int set \<Rightarrow> int set" where
  "kernel_munmap c addr n ret K = (if ret = 0 then K - kernel_region c addr n else K)"

definition goto :: "nat \<Rightarrow> MmapThread \<Rightarrow> MmapMachine \<Rightarrow> MmapMachine" where
  "goto t pc m = m\<lparr>thread := (thread m)(t := pc)\<rparr>"

definition set_library :: "nat \<Rightarrow> bool \<Rightarrow> MmapMachine \<Rightarrow> MmapMachine" where
  "set_library t f m = m\<lparr>in_library := (in_library m)(t := f)\<rparr>"

text \<open>The mutex; a thread that finds it taken cannot make its step.\<close>

definition lock :: "nat \<Rightarrow> MmapMachine \<Rightarrow> MmapMachine option" where
  "lock t m = (if mutex_owner m = None then Some (m\<lparr>mutex_owner := Some t\<rparr>) else None)"

definition unlock :: "MmapMachine \<Rightarrow> MmapMachine" where
  "unlock m = m\<lparr>mutex_owner := None\<rparr>"

text \<open>
  The process as a thread sees it, with its own flag; in the shared state the place of the flag stays
  False.
\<close>

definition seen_by :: "nat \<Rightarrow> MmapMachine \<Rightarrow> MmapProcess" where
  "seen_by t m = process m\<lparr>caller_inLibrary := in_library m t\<rparr>"

definition share :: "MmapProcess \<Rightarrow> MmapMachine \<Rightarrow> MmapMachine" where
  "share p m = m\<lparr>process := p\<lparr>caller_inLibrary := False\<rparr>\<rparr>"

definition enter_library :: "nat \<Rightarrow> MmapThread \<Rightarrow> MmapThread \<Rightarrow> MmapMachine \<Rightarrow> MmapMachine outcome" where
  "enter_library t inside outside m =
     (if inLibrary (in_library m t) then Inr (goto t outside m)
      else andThen (LibraryContext_construct (in_library m t)) (\<lambda>f. Inr (goto t inside (set_library t f m))))"

definition leave_library :: "nat \<Rightarrow> MmapThread \<Rightarrow> MmapMachine \<Rightarrow> MmapMachine outcome" where
  "leave_library t outside m =
     andThen (LibraryContext_destroy (in_library m t)) (\<lambda>f. Inr (goto t outside (set_library t f m)))"

fun mmap_thread_step ::
  "(int set \<Rightarrow> ptr \<Rightarrow> uint64 \<Rightarrow> int \<Rightarrow> uint32 \<Rightarrow> int \<Rightarrow> int \<Rightarrow> ptr) \<Rightarrow> nat \<Rightarrow> MmapThread \<Rightarrow> MmapMachine \<Rightarrow>
     MmapMachine outcome option" where
  "mmap_thread_step real_mmap t (MmapCalled c addr n prot flags fd offs) m =
     (let ret = real_mmap (kernel_memory m) addr n prot flags fd offs
      in Some (enter_library t
           (if ret \<noteq> nullptr \<and> and flags MAP_ANONYMOUS \<noteq> 0 then MmapWaiting c n ret else MmapLeaving ret)
           (MmapDone ret)
           (m\<lparr>kernel_memory := kernel_mmap c n flags ret (kernel_memory m)\<rparr>)))"
| "mmap_thread_step real_mmap t (MmapWaiting c n ret) m =
     map_option (\<lambda>m'. Inr (goto t (MmapLocked c n ret) m')) (lock t m)"
| "mmap_thread_step real_mmap t (MmapLocked c n ret) m =
     Some (andThen (register_mapping c ret n (seen_by t m)) (\<lambda>p. Inr (goto t (MmapUnlocking ret) (share p m))))"
| "mmap_thread_step real_mmap t (MmapUnlocking ret) m = Some (Inr (goto t (MmapLeaving ret) (unlock m)))"
| "mmap_thread_step real_mmap t (MmapLeaving ret) m = Some (leave_library t (MmapDone ret) m)"
| "mmap_thread_step real_mmap t _ m = None"

text \<open>munmap takes the mutex whether the real function succeeded or not, and only after it has returned.\<close>

fun munmap_thread_step ::
  "(int set \<Rightarrow> ptr \<Rightarrow> uint64 \<Rightarrow> int) \<Rightarrow> nat \<Rightarrow> MmapThread \<Rightarrow> MmapMachine \<Rightarrow> MmapMachine outcome option" where
  "munmap_thread_step real_munmap t (MunmapCalled c addr n) m =
     (let ret = real_munmap (kernel_memory m) addr n
      in Some (enter_library t (MunmapWaiting c addr n ret) (MunmapDone ret)
           (m\<lparr>kernel_memory := kernel_munmap c addr n ret (kernel_memory m)\<rparr>)))"
| "munmap_thread_step real_munmap t (MunmapWaiting c addr n ret) m =
     map_option (\<lambda>m'. Inr (goto t (MunmapLocked c addr n ret) m')) (lock t m)"
| "munmap_thread_step real_munmap t (MunmapLocked c addr n ret) m =
     (let p = seen_by t m
      in Some (andThen (if ret = 0 then register_unmapping c addr n p
                        else Inr (p\<lparr>eventLog := eventLog p @ unmap_line c '' ERROR: UNMAP FAILED: '' addr n\<rparr>))
           (\<lambda>p'. Inr (goto t (MunmapUnlocking ret) (share p' m)))))"
| "munmap_thread_step real_munmap t (MunmapUnlocking ret) m = Some (Inr (goto t (MunmapLeaving ret) (unlock m)))"
| "munmap_thread_step real_munmap t (MunmapLeaving ret) m = Some (leave_library t (MunmapDone ret) m)"
| "munmap_thread_step real_munmap t _ m = None"

text \<open>
  One step of one thread: None when the thread is done or waits for the mutex, a fault when an
  assertion fails.
\<close>

definition advance ::
  "(int set \<Rightarrow> ptr \<Rightarrow> uint64 \<Rightarrow> int \<Rightarrow> uint32 \<Rightarrow> int \<Rightarrow> int \<Rightarrow> ptr) \<Rightarrow> (int set \<Rightarrow> ptr \<Rightarrow> uint64 \<Rightarrow> int) \<Rightarrow>
     nat \<Rightarrow> MmapMachine \<Rightarrow> MmapMachine outcome option" where
  "advance real_mmap real_munmap t m =
     (case mmap_thread_step real_mmap t (thread m t) m of
        Some r \<Rightarrow> Some r
      | None \<Rightarrow> munmap_thread_step real_munmap t (thread m t) m)"

text \<open>A schedule says which thread makes the next step.\<close>

fun run_schedule ::
  "(int set \<Rightarrow> ptr \<Rightarrow> uint64 \<Rightarrow> int \<Rightarrow> uint32 \<Rightarrow> int \<Rightarrow> int \<Rightarrow> ptr) \<Rightarrow> (int set \<Rightarrow> ptr \<Rightarrow> uint64 \<Rightarrow> int) \<Rightarrow>
     nat list \<Rightarrow> MmapMachine \<Rightarrow> MmapMachine outcome option" where
  "run_schedule real_mmap real_munmap [] m = Some (Inr m)"
| "run_schedule real_mmap real_munmap (t # ts) m =
     (case advance real_mmap real_munmap t m of
        Some (Inr m') \<Rightarrow> run_schedule real_mmap real_munmap ts m'
      | r \<Rightarrow> r)"

lemmas machine_defs = goto_def set_library_def lock_def unlock_def seen_by_def share_def enter_library_def
  leave_library_def inLibrary_def LibraryContext_construct_def LibraryContext_destroy_def

section \<open>A call that runs alone\<close>

lemma step_simps:
  "thread m t = pc \<Longrightarrow> advance real_mmap real_munmap t m = (case mmap_thread_step real_mmap t pc m of
     Some r \<Rightarrow> Some r | None \<Rightarrow> munmap_thread_step real_munmap t pc m)"
  unfolding advance_def by (simp only:)

lemma run_schedule_append:
  "run_schedule f g (ts @ us) m = (case run_schedule f g ts m of
     Some (Inr m') \<Rightarrow> run_schedule f g us m' | r \<Rightarrow> r)"
proof (induction ts arbitrary: m)
  case (Cons t ts)
  show ?case by (simp add: Cons.IH split: option.split sum.split)
qed simp

text \<open>How the thread of a call ends, and what the process is then.\<close>

definition done_mmap :: "nat \<Rightarrow> MmapCall \<Rightarrow> uint64 \<Rightarrow> uint32 \<Rightarrow> ptr \<Rightarrow> MmapProcess \<Rightarrow> MmapMachine \<Rightarrow> MmapMachine" where
  "done_mmap t c n flags ret p m =
     m\<lparr>kernel_memory := kernel_mmap c n flags ret (kernel_memory m), process := p\<lparr>caller_inLibrary := False\<rparr>,
       thread := (thread m)(t := MmapDone ret)\<rparr>"

definition done_munmap :: "nat \<Rightarrow> MmapCall \<Rightarrow> ptr \<Rightarrow> uint64 \<Rightarrow> int \<Rightarrow> MmapProcess \<Rightarrow> MmapMachine \<Rightarrow> MmapMachine" where
  "done_munmap t c addr n ret p m =
     m\<lparr>kernel_memory := kernel_munmap c addr n ret (kernel_memory m), process := p\<lparr>caller_inLibrary := False\<rparr>,
       thread := (thread m)(t := MunmapDone ret)\<rparr>"

lemma mmap_alone:
  assumes "thread m t = MmapCalled c addr n prot flags fd offs" and "mutex_owner m = None"
    and "\<not> in_library m t"
    and "mmap (real_mmap (kernel_memory m)) c addr n prot flags fd offs (seen_by t m) = Inr (ret, p')"
    and "ret \<noteq> nullptr" and "and flags MAP_ANONYMOUS \<noteq> 0"
  shows "run_schedule real_mmap real_munmap (replicate 5 t) m = Some (Inr (done_mmap t c n flags ret p' m))"
proof -
  let ?p = "process m\<lparr>caller_inLibrary := True\<rparr>"
  have ret: "real_mmap (kernel_memory m) addr n prot flags fd offs = ret"
    using assms(3,4) by (auto simp: mmap_def inLibrary_def Let_def seen_by_def andThen_Inr_iff)
  then obtain q where q: "register_mapping c ret n ?p = Inr q" "p' = q\<lparr>caller_inLibrary := False\<rparr>"
    using assms(3-6) by (auto simp: mmap_def inLibrary_def Let_def seen_by_def andThen_Inr_iff)
  have "(in_library m)(t := False) = in_library m" using assms(3) by (simp add: fun_upd_idem)
  then show ?thesis
    using assms(1-3,5,6) ret q
    by (simp add: numeral_eq_Suc step_simps machine_defs Let_def done_mmap_def)
qed

text \<open>A call inside the library, or one that is not recorded, ends sooner.\<close>

lemma mmap_alone_unrecorded:
  assumes "thread m t = MmapCalled c addr n prot flags fd offs" and "\<not> caller_inLibrary (process m)"
    and "mmap (real_mmap (kernel_memory m)) c addr n prot flags fd offs (seen_by t m) = Inr (ret, p')"
    and "in_library m t \<or> ret = nullptr \<or> and flags MAP_ANONYMOUS = 0"
  shows "run_schedule real_mmap real_munmap (replicate (if in_library m t then 1 else 2) t) m
    = Some (Inr (done_mmap t c n flags ret p' m))"
proof (cases "in_library m t")
  case True
  have flag: "(process m)\<lparr>caller_inLibrary := False\<rparr> = process m" using assms(2) by (cases "process m") simp
  moreover have "real_mmap (kernel_memory m) addr n prot flags fd offs = ret"
    "p' = process m\<lparr>caller_inLibrary := True\<rparr>"
    using assms(3) True by (auto simp: mmap_def inLibrary_def Let_def seen_by_def)
  ultimately show ?thesis using assms(1) True
    by (cases m) (simp add: step_simps machine_defs Let_def done_mmap_def)
next
  case False
  have flag: "(process m)\<lparr>caller_inLibrary := False\<rparr> = process m" using assms(2) by (cases "process m") simp
  have "(in_library m)(t := False) = in_library m" using False by (simp add: fun_upd_idem)
  moreover have "real_mmap (kernel_memory m) addr n prot flags fd offs = ret"
    "p' = process m\<lparr>caller_inLibrary := False\<rparr>"
    using assms(3,4) False by (auto simp: mmap_def inLibrary_def Let_def seen_by_def andThen_Inr_iff split: if_splits)
  ultimately show ?thesis using assms(1,4) False flag
    by (auto simp: numeral_eq_Suc step_simps machine_defs Let_def done_mmap_def)
qed

lemma munmap_alone:
  assumes "thread m t = MunmapCalled c addr n" and "mutex_owner m = None" and "\<not> in_library m t"
    and "munmap (real_munmap (kernel_memory m)) c addr n (seen_by t m) = Inr (ret, p')"
  shows "run_schedule real_mmap real_munmap (replicate 5 t) m = Some (Inr (done_munmap t c addr n ret p' m))"
proof -
  let ?p = "process m\<lparr>caller_inLibrary := True\<rparr>"
  have ret: "real_munmap (kernel_memory m) addr n = ret"
    using assms(3,4) by (auto simp: munmap_def inLibrary_def Let_def seen_by_def andThen_Inr_iff)
  then obtain q where q: "(if ret = 0 then register_unmapping c addr n ?p
      else Inr (?p\<lparr>eventLog := eventLog ?p @ unmap_line c '' ERROR: UNMAP FAILED: '' addr n\<rparr>)) = Inr q"
    "p' = q\<lparr>caller_inLibrary := False\<rparr>"
    using assms(3,4) by (auto simp: munmap_def inLibrary_def Let_def seen_by_def andThen_Inr_iff)
  have "(in_library m)(t := False) = in_library m" using assms(3) by (simp add: fun_upd_idem)
  then show ?thesis
    using assms(1-3) ret q
    by (cases "ret = 0") (simp_all add: numeral_eq_Suc step_simps machine_defs Let_def done_munmap_def)
qed

lemma munmap_alone_inside:
  assumes "thread m t = MunmapCalled c addr n" and "\<not> caller_inLibrary (process m)" and "in_library m t"
    and "munmap (real_munmap (kernel_memory m)) c addr n (seen_by t m) = Inr (ret, p')"
  shows "run_schedule real_mmap real_munmap [t] m = Some (Inr (done_munmap t c addr n ret p' m))"
proof -
  have "(process m)\<lparr>caller_inLibrary := False\<rparr> = process m" using assms(2) by (cases "process m") simp
  moreover have "real_munmap (kernel_memory m) addr n = ret" "p' = process m\<lparr>caller_inLibrary := True\<rparr>"
    using assms(3,4) by (auto simp: munmap_def inLibrary_def Let_def seen_by_def)
  ultimately show ?thesis using assms(1,3)
    by (cases m) (simp add: step_simps machine_defs Let_def done_munmap_def)
qed

section \<open>The race of an unmapping with a mapping\<close>

lemma kernel_region_rounded:
  assumes "page_call c k"
  shows "kernel_region c a n = {sint a ..< sint a + int (rounded k n)}"
  using assms by (simp add: kernel_region_def page_call_def rounded_def unat_exp Let_def)

lemma munmap_waiting_runs:
  assumes "thread m t = MunmapWaiting c addr n 0" and "mutex_owner m = None" and "in_library m t"
    and "register_unmapping c addr n (process m\<lparr>caller_inLibrary := True\<rparr>) = Inr q"
  shows "run_schedule real_mmap real_munmap (replicate 4 t) m
    = Some (Inr (m\<lparr>process := q\<lparr>caller_inLibrary := False\<rparr>, in_library := (in_library m)(t := False),
        thread := (thread m)(t := MunmapDone 0)\<rparr>))"
  using assms by (simp add: numeral_eq_Suc step_simps machine_defs Let_def)

text \<open>
  A mapping at an address at which the account still has a slice leaves the account as it is.
\<close>

lemma mmap_over_known:
  assumes ok: "mmap_ok p" and fresh: "fresh_call c p" and known: "(sint ret, s) \<in> set (memoryMap p)"
    and ret: "real_mmap addr n prot flags fd offs = ret" "ret \<noteq> nullptr" "and flags MAP_ANONYMOUS \<noteq> 0"
  shows "\<exists>p' j. mmap real_mmap c addr n prot flags fd offs p = Inr (ret, p') \<and> mmap_ok p'
    \<and> memoryMap p' = memoryMap p \<and> eventLog p' = eventLog p @ map_line c ret n j"
proof -
  let ?p = "p\<lparr>caller_inLibrary := True\<rparr>"
  have p: "map_ok (memoryMap p)" "interned_ok (internedTraces ?p) (handles (memoryMap ?p))" "\<not> os_hex (stackLog ?p)"
    "\<not> caller_inLibrary p" using ok by (simp_all add: mmap_ok_def)
  have "fresh_call c ?p" using fresh by (simp add: fresh_call_def)
  from register_mapping_safe [OF p(2,3) this, of ret n] obtain i q j
    where q: "register_mapping c ret n ?p = Inr q" "interned_ok (internedTraces q) (handles (memoryMap q))"
      "\<not> os_hex (stackLog q)" "eventLog q = eventLog p @ map_line c ret n j"
      and m: "memoryMap q = registerMap (MMapAllocation_construct (new_allocation c) i (sint ret)
        (uint (mmap_roundUpToPageMultiple (sysconf_page c) n))) (memoryMap p)"
    by (auto simp: Let_def)
  have same: "memoryMap q = memoryMap p"
    using om_insert_present [OF p(1) [unfolded map_ok_def] known]
    by (simp add: m registerMap_def MMapAllocation_construct_def)
  have "mmap real_mmap c addr n prot flags fd offs p = Inr (ret, q\<lparr>caller_inLibrary := False\<rparr>)"
    using ret p(4) q(1) by (simp add: mmap_def inLibrary_def Let_def)
  with q(2-4) p(1) same show ?thesis
    by (intro exI [of _ "q\<lparr>caller_inLibrary := False\<rparr>"] exI [of _ j]) (simp add: mmap_ok_def)
qed

lemma mmap_known:
  assumes "mmap_ok p" and "(k, s) \<in> set (memoryMap p)"
  shows "owner (memoryMap p) k \<noteq> None"
proof -
  have chain: "chain 0 (memoryMap p)" using assms(1) by (simp add: mmap_ok_def map_ok_def)
  show ?thesis using chain_bounds(3) [OF chain assms(2)] assms(2) owner_iff [OF chain] by force
qed

lemma fresh_call_smaller:
  assumes "fresh_call c p" and "set (live_allocations (memoryMap p')) \<subseteq> set (live_allocations (memoryMap p))"
  shows "fresh_call c p'"
proof -
  have "set_mset (handles (memoryMap p')) \<subseteq> set_mset (handles (memoryMap p))"
    using assms(2) by (auto simp: handles_def)
  then show ?thesis using assms unfolding fresh_call_def by blast
qed

lemma register_unmapping_live:
  assumes "map_ok (memoryMap p)" and "register_unmapping c addr n p = Inr q"
  shows "set (live_allocations (memoryMap q)) \<subseteq> set (live_allocations (memoryMap p))"
proof -
  obtain b m where "registerUnmap (sint addr) (to_uint64 (mmap_roundUpToPageMultiple (sysconf_page c) n)) (memoryMap p)
      = Inr (b, m)" "memoryMap q = m"
    using assms(2) by (auto simp: register_unmapping_def andThen_Inr_iff)
  then show ?thesis using registerUnmap_live [OF assms(1)] by blast
qed

lemma munmap_fresh:
  assumes "mmap_ok p" and "munmap real_munmap c addr n p = Inr (r, p')" and "fresh_call d p"
  shows "fresh_call d p'"
proof (cases "real_munmap addr n = 0")
  case True
  then obtain q where "register_unmapping c addr n (p\<lparr>caller_inLibrary := True\<rparr>) = Inr q"
    "p' = q\<lparr>caller_inLibrary := False\<rparr>"
    using assms(1,2) by (auto simp: munmap_def inLibrary_def Let_def mmap_ok_def andThen_Inr_iff)
  then have "set (live_allocations (memoryMap p')) \<subseteq> set (live_allocations (memoryMap p))"
    using register_unmapping_live [of "p\<lparr>caller_inLibrary := True\<rparr>"] assms(1) by (simp add: mmap_ok_def)
  with assms(3) show ?thesis by (rule fresh_call_smaller)
next
  case False
  with assms show ?thesis
    by (auto simp: munmap_def inLibrary_def Let_def mmap_ok_def fresh_call_def)
qed

text \<open>The two schedules of an unmapping and a mapping that gets the same pages.\<close>

lemma unmap_before_map:
  assumes ok: "mmap_ok (process m)" and free: "mutex_owner m = None" "t \<noteq> u" "\<not> in_library m t" "\<not> in_library m u"
    and calls: "thread m t = MunmapCalled c addr n" "thread m u = MmapCalled d hint n prot flags fd offs"
    and fresh: "fresh_call d (process m)" and region: "small_region c k addr n" "small_region d k addr n" "0 < unat n"
    and addr: "and addr (sysconf_page c - 1) = 0" "addr \<noteq> nullptr" "and flags MAP_ANONYMOUS \<noteq> 0"
    and kernel: "real_munmap (kernel_memory m) addr n = 0"
      "real_mmap (kernel_memory m - kernel_region c addr n) hint n prot flags fd offs = addr"
  shows "\<exists>p. run_schedule real_mmap real_munmap (replicate 5 t @ replicate 5 u) m
      = Some (Inr (m\<lparr>kernel_memory := kernel_memory m \<union> kernel_region d addr n, process := p,
          thread := (thread m)(t := MunmapDone 0, u := MmapDone addr)\<rparr>))
    \<and> (\<forall>x \<in> kernel_region d addr n. owner (memoryMap p) x \<noteq> None)"
proof -
  let ?p = "process m" and ?R = "{sint addr ..< sint addr + int (rounded k n)}"
  have R: "kernel_region c addr n = ?R" "kernel_region d addr n = ?R"
    using region(1,2) by (simp_all add: small_region_def kernel_region_rounded)
  have minus1: "addr \<noteq> - 1" using region(1) by (auto simp: small_region_def)
  have ret: "real_mmap (kernel_memory m - ?R) hint n prot flags fd offs = addr" using kernel(2) by (simp add: R)
  obtain p1 where p1: "munmap (real_munmap (kernel_memory m)) c addr n ?p = Inr (0, p1)" "mmap_ok p1"
    "owner (memoryMap p1) = (\<lambda>x. if sint addr \<le> x \<and> x < sint addr + int (rounded k n) then None else owner (memoryMap ?p) x)"
    using munmap_forgotten [where real_munmap = "real_munmap (kernel_memory m)", OF ok region(1) addr(1) kernel(1)] by blast
  let ?m1 = "done_munmap t c addr n 0 p1 m"
  have seen: "?p\<lparr>caller_inLibrary := False\<rparr> = ?p" "p1\<lparr>caller_inLibrary := False\<rparr> = p1"
    using ok p1(2) by (cases "process m", simp add: mmap_ok_def, cases p1, simp add: mmap_ok_def)
  have K1: "kernel_memory ?m1 = kernel_memory m - ?R" by (simp add: done_munmap_def kernel_munmap_def R)
  have gone: "owner (memoryMap p1) x = None" if "sint addr \<le> x" "x < sint addr + int (rounded k n)" for x
    using that p1(3) by simp
  obtain a p2 where p2: "mmap (real_mmap (kernel_memory m - ?R)) d hint n prot flags fd offs p1 = Inr (addr, p2)"
    "mmap_ok p2"
    "owner (memoryMap p2) = (\<lambda>x. if sint addr \<le> x \<and> x < sint addr + int (rounded k n) then Some a else owner (memoryMap p1) x)"
    using mmap_recorded [where real_mmap = "real_mmap (kernel_memory m - ?R)", OF p1(2)
        munmap_fresh [OF ok p1(1) fresh] region(2,3) ret addr(2,3) gone] by blast
  have run1: "run_schedule real_mmap real_munmap (replicate 5 t) m = Some (Inr ?m1)"
    using munmap_alone [where real_munmap = real_munmap, OF calls(1) free(1,3)] p1(1) free(3) seen by (simp add: seen_by_def)
  have run2: "run_schedule real_mmap real_munmap (replicate 5 u) ?m1 = Some (Inr (done_mmap u d n flags addr p2 ?m1))"
  proof (rule mmap_alone [OF _ _ _ _ addr(2,3)])
    have "seen_by u ?m1 = p1" using free(4) seen(2) by (simp add: seen_by_def done_munmap_def)
    then show "mmap (real_mmap (kernel_memory ?m1)) d hint n prot flags fd offs (seen_by u ?m1) = Inr (addr, p2)"
      unfolding K1 using p2(1) by simp
  qed (use free calls in \<open>simp_all add: done_munmap_def\<close>)
  have "run_schedule real_mmap real_munmap (replicate 5 t @ replicate 5 u) m = Some (Inr (done_mmap u d n flags addr p2 ?m1))"
    by (simp only: run_schedule_append run1 run2 option.case sum.case)
  moreover have "p2\<lparr>caller_inLibrary := False\<rparr> = p2" using p2(2) by (cases p2) (simp add: mmap_ok_def)
  ultimately show ?thesis
    using p2(3) minus1 addr(3) by (intro exI [of _ p2])
      (simp add: done_mmap_def done_munmap_def kernel_mmap_def kernel_munmap_def R)
qed

lemma map_during_unmap:
  assumes ok: "mmap_ok (process m)" and free: "mutex_owner m = None" "t \<noteq> u" "\<not> in_library m t" "\<not> in_library m u"
    and calls: "thread m t = MunmapCalled c addr n" "thread m u = MmapCalled d hint n prot flags fd offs"
    and fresh: "fresh_call d (process m)" and region: "small_region c k addr n" "small_region d k addr n" "0 < unat n"
    and addr: "and addr (sysconf_page c - 1) = 0" "addr \<noteq> nullptr" "and flags MAP_ANONYMOUS \<noteq> 0"
    and kernel: "real_munmap (kernel_memory m) addr n = 0"
      "real_mmap (kernel_memory m - kernel_region c addr n) hint n prot flags fd offs = addr"
    and known: "(sint addr, s) \<in> set (memoryMap (process m))"
  shows "\<exists>p line. run_schedule real_mmap real_munmap ([t] @ replicate 5 u @ replicate 4 t) m
      = Some (Inr (m\<lparr>kernel_memory := kernel_memory m \<union> kernel_region d addr n, process := p,
          thread := (thread m)(t := MunmapDone 0, u := MmapDone addr)\<rparr>))
    \<and> (\<forall>x \<in> kernel_region d addr n. owner (memoryMap p) x = None)
    \<and> eventLog p = eventLog (process m) @ map_line d addr n line @ unmap_line c '' UNMAP: '' addr n"
proof -
  let ?p = "process m" and ?R = "{sint addr ..< sint addr + int (rounded k n)}"
  have R: "kernel_region c addr n = ?R" "kernel_region d addr n = ?R"
    using region(1,2) by (simp_all add: small_region_def kernel_region_rounded)
  have minus1: "addr \<noteq> - 1" using region(1) by (auto simp: small_region_def)
  have ret: "real_mmap (kernel_memory m - ?R) hint n prot flags fd offs = addr" using kernel(2) by (simp add: R)
  let ?m0 = "m\<lparr>kernel_memory := kernel_memory m - ?R, in_library := (in_library m)(t := True),
    thread := (thread m)(t := MunmapWaiting c addr n 0)\<rparr>"
  have first: "run_schedule real_mmap real_munmap [t] m = Some (Inr ?m0)"
    using free(3) calls(1) kernel(1) by (simp add: step_simps machine_defs Let_def kernel_munmap_def R)
  obtain p3 j where p3: "mmap (real_mmap (kernel_memory m - ?R)) d hint n prot flags fd offs ?p = Inr (addr, p3)"
    "mmap_ok p3" "memoryMap p3 = memoryMap ?p" "eventLog p3 = eventLog ?p @ map_line d addr n j"
    using mmap_over_known [where real_mmap = "real_mmap (kernel_memory m - ?R)", OF ok fresh known ret addr(2,3)] by blast
  have seen: "?p\<lparr>caller_inLibrary := False\<rparr> = ?p" "p3\<lparr>caller_inLibrary := False\<rparr> = p3"
    using ok p3(2) by (cases "process m", simp add: mmap_ok_def, cases p3, simp add: mmap_ok_def)
  let ?m3 = "done_mmap u d n flags addr p3 ?m0"
  have second: "run_schedule real_mmap real_munmap (replicate 5 u) ?m0 = Some (Inr ?m3)"
    using free calls addr p3(1) seen(1) by (intro mmap_alone) (simp_all add: seen_by_def)
  have bounds: "0 \<le> sint addr" "sint addr + int (rounded k n) < 2 ^ 63" "0 < int (rounded k n)"
    using region(1,3) rounded_bounds(2) [of n k] by (simp_all add: small_region_def)
  have stores: "map_ok (memoryMap p3)" "interned_ok (internedTraces p3) (handles (memoryMap p3))"
    using p3(2) by (simp_all add: mmap_ok_def)
  obtain p4 b where p4: "register_unmapping c addr n (p3\<lparr>caller_inLibrary := True\<rparr>) = Inr p4"
    "owner (memoryMap p4) = (\<lambda>x. if sint addr \<le> x \<and> x < sint addr + int (rounded k n) then None else owner (memoryMap p3) x)"
    "b \<longleftrightarrow> (\<exists>x. sint addr \<le> x \<and> x < sint addr + int (rounded k n) \<and> owner (memoryMap p3) x \<noteq> None)"
    "eventLog p4 = eventLog p3 @ (if b then unmap_line c '' UNMAP: '' addr n else [])"
    using register_unmapping_ok [OF stores addr(1) small_round(2) [OF region(1), symmetric] bounds(1,2)] by blast
  have "owner (memoryMap p3) (sint addr) \<noteq> None" unfolding p3(3) using ok known by (rule mmap_known)
  then have b unfolding p4(3) using bounds(3) by (intro exI [of _ "sint addr"]) simp
  have third: "run_schedule real_mmap real_munmap (replicate 4 t) ?m3 = Some (Inr (?m3\<lparr>process := p4\<lparr>caller_inLibrary := False\<rparr>,
      in_library := (in_library ?m3)(t := False), thread := (thread ?m3)(t := MunmapDone 0)\<rparr>))"
    using free p4(1) seen(2) by (intro munmap_waiting_runs) (simp_all add: done_mmap_def)
  note schedule = run_schedule_append first second third option.case sum.case
  have "(in_library m)(t := False) = in_library m" using free(3) by (simp add: fun_upd_idem)
  then show ?thesis
    using p3(4) p4(2,4) \<open>b\<close> free(2) minus1 addr(3) unfolding schedule
    by (intro exI [of _ "p4\<lparr>caller_inLibrary := False\<rparr>"] exI [of _ j])
      (simp add: done_mmap_def kernel_mmap_def R fun_upd_twist)
qed

text \<open>
  C19. The lock is taken after the real munmap has returned. Take two threads about to make their calls, one to
  unmap (page aligned) a mapping the account knows, one to map anonymously, both of less than 4 GiB and the same
  length, with nobody holding the mutex, and a kernel that unmaps with success and gives the second the pages
  the first gives back. If the calls run one after the other, the new mapping is in the account. If the
  whole call of mmap runs between the real munmap and the lock that munmap takes, both calls return
  the same results and the kernel holds the same memory, with the new mapping live; but no address of
  it has an owner, and the log ends with a MAP line followed by an UNMAP line.
\<close>

theorem munmap_race_loses_mapping:
  assumes "mmap_ok (process m)" and "mutex_owner m = None" "t \<noteq> u" "\<not> in_library m t" "\<not> in_library m u"
    and "thread m t = MunmapCalled c addr n" "thread m u = MmapCalled d hint n prot flags fd offs"
    and "fresh_call d (process m)" and "small_region c k addr n" "small_region d k addr n" "0 < unat n"
    and "and addr (sysconf_page c - 1) = 0" "addr \<noteq> nullptr" "and flags MAP_ANONYMOUS \<noteq> 0"
    and "real_munmap (kernel_memory m) addr n = 0"
      "real_mmap (kernel_memory m - kernel_region c addr n) hint n prot flags fd offs = addr"
    and "(sint addr, s) \<in> set (memoryMap (process m))"
  shows "\<exists>serial race line.
      run_schedule real_mmap real_munmap (replicate 5 t @ replicate 5 u) m = Some (Inr serial)
    \<and> run_schedule real_mmap real_munmap ([t] @ replicate 5 u @ replicate 4 t) m = Some (Inr race)
    \<and> thread race = thread serial \<and> thread race t = MunmapDone 0 \<and> thread race u = MmapDone addr
    \<and> kernel_memory race = kernel_memory serial \<and> kernel_region d addr n \<subseteq> kernel_memory race
    \<and> (\<forall>x \<in> kernel_region d addr n. owner (memoryMap (process serial)) x \<noteq> None)
    \<and> (\<forall>x \<in> kernel_region d addr n. owner (memoryMap (process race)) x = None)
    \<and> eventLog (process race) = eventLog (process m) @ map_line d addr n line @ unmap_line c '' UNMAP: '' addr n"
proof -
  obtain p where p: "run_schedule real_mmap real_munmap (replicate 5 t @ replicate 5 u) m
      = Some (Inr (m\<lparr>kernel_memory := kernel_memory m \<union> kernel_region d addr n, process := p,
          thread := (thread m)(t := MunmapDone 0, u := MmapDone addr)\<rparr>))"
    "\<forall>x \<in> kernel_region d addr n. owner (memoryMap p) x \<noteq> None"
    using unmap_before_map [where real_mmap = real_mmap and real_munmap = real_munmap, OF assms(1-16)] by blast
  obtain q line where q: "run_schedule real_mmap real_munmap ([t] @ replicate 5 u @ replicate 4 t) m
      = Some (Inr (m\<lparr>kernel_memory := kernel_memory m \<union> kernel_region d addr n, process := q,
          thread := (thread m)(t := MunmapDone 0, u := MmapDone addr)\<rparr>))"
    "\<forall>x \<in> kernel_region d addr n. owner (memoryMap q) x = None"
    "eventLog q = eventLog (process m) @ map_line d addr n line @ unmap_line c '' UNMAP: '' addr n"
    using map_during_unmap [where real_mmap = real_mmap and real_munmap = real_munmap, OF assms] by blast
  show ?thesis using p q assms(3) by (intro exI conjI) (assumption | simp)+
qed

section \<open>Interleaved calls that keep apart\<close>

text \<open>
  What a thread has under way: the pages it has mapped and not yet registered, and those it has unmapped
  and not yet taken out of the account.
\<close>

fun mapping_of :: "MmapThread \<Rightarrow> int set" where
  "mapping_of (MmapWaiting c n ret) = kernel_region c ret n"
| "mapping_of (MmapLocked c n ret) = kernel_region c ret n"
| "mapping_of _ = {}"

fun unmapping_of :: "MmapThread \<Rightarrow> int set" where
  "unmapping_of (MunmapWaiting c addr n ret) = (if ret = 0 then kernel_region c addr n else {})"
| "unmapping_of (MunmapLocked c addr n ret) = (if ret = 0 then kernel_region c addr n else {})"
| "unmapping_of _ = {}"

fun finished :: "MmapThread \<Rightarrow> bool" where
  "finished (MmapDone ret) = True"
| "finished (MunmapDone ret) = True"
| "finished _ = False"

fun is_call :: "MmapThread \<Rightarrow> bool" where
  "is_call (MmapCalled c addr n prot flags fd offs) = True"
| "is_call (MunmapCalled c addr n) = True"
| "is_call _ = False"

fun holds_mutex :: "MmapThread \<Rightarrow> bool" where
  "holds_mutex (MmapLocked c n ret) = True"
| "holds_mutex (MmapUnlocking ret) = True"
| "holds_mutex (MunmapLocked c addr n ret) = True"
| "holds_mutex (MunmapUnlocking ret) = True"
| "holds_mutex _ = False"

definition inside_library :: "MmapThread \<Rightarrow> bool" where
  "inside_library pc \<longleftrightarrow> \<not> finished pc \<and> \<not> is_call pc"

text \<open>
  When a step is orderly: an anonymous mapping succeeds on pages that are neither mapped nor being unmapped by
  a call under way, a file is not laid over anonymous memory, an unmapping that succeeds is of
  less than 4 GiB and not of pages that another thread's mmap has not yet returned, and the objects a
  registration creates are new.
\<close>

fun orderly ::
  "nat \<Rightarrow> (int set \<Rightarrow> ptr \<Rightarrow> uint64 \<Rightarrow> int \<Rightarrow> uint32 \<Rightarrow> int \<Rightarrow> int \<Rightarrow> ptr) \<Rightarrow> (int set \<Rightarrow> ptr \<Rightarrow> uint64 \<Rightarrow> int) \<Rightarrow>
     MmapMachine \<Rightarrow> MmapThread \<Rightarrow> bool" where
  "orderly k real_mmap real_munmap m (MmapCalled c addr n prot flags fd offs) =
     (let ret = real_mmap (kernel_memory m) addr n prot flags fd offs; R = kernel_region c ret n
      in if and flags MAP_ANONYMOUS \<noteq> 0
         then small_region c k ret n \<and> 0 < unat n \<and> ret \<noteq> nullptr \<and> R \<inter> kernel_memory m = {}
           \<and> (\<forall>u. R \<inter> unmapping_of (thread m u) = {})
         else ret = - 1 \<or> R \<inter> kernel_memory m = {})"
| "orderly k real_mmap real_munmap m (MmapLocked c n ret) = fresh_call c (process m)"
| "orderly k real_mmap real_munmap m (MunmapCalled c addr n) =
     (real_munmap (kernel_memory m) addr n = 0 \<longrightarrow> small_region c k addr n \<and> and addr (sysconf_page c - 1) = 0
       \<and> (\<forall>u. kernel_region c addr n \<inter> mapping_of (thread m u) = {}))"
| "orderly k real_mmap real_munmap m _ = True"

text \<open>
  The runs of any number of threads, each making one call after the other: a thread that has finished makes a new
  call, or a thread makes an orderly step. The kernel's answers may be different at every step.
\<close>

inductive threaded :: "nat \<Rightarrow> MmapMachine \<Rightarrow> bool" for k where
  start: "(\<And>t. finished (threads t)) \<Longrightarrow> threaded k
    \<lparr>kernel_memory = {}, process = empty_mmap_process, mutex_owner = None, in_library = (\<lambda>_. False), thread = threads\<rparr>"
| call: "threaded k m \<Longrightarrow> finished (thread m t) \<Longrightarrow> is_call pc \<Longrightarrow> threaded k (goto t pc m)"
| step: "threaded k m \<Longrightarrow> orderly k real_mmap real_munmap m (thread m t) \<Longrightarrow>
    advance real_mmap real_munmap t m = Some (Inr m') \<Longrightarrow> threaded k m'"

subsection \<open>The account with calls under way\<close>

definition account_pending :: "int set \<Rightarrow> (int \<Rightarrow> 'a option) \<Rightarrow> (nat \<Rightarrow> int set) \<Rightarrow> (nat \<Rightarrow> int set) \<Rightarrow> bool" where
  "account_pending K own M U \<longleftrightarrow>
     (\<forall>t x. x \<in> M t \<longrightarrow> x \<in> K \<and> own x = None) \<and> (\<forall>t x. x \<in> U t \<longrightarrow> x \<notin> K)
     \<and> (\<forall>t u x. x \<in> M t \<longrightarrow> x \<in> M u \<longrightarrow> t = u)
     \<and> (\<forall>x. (\<forall>t. x \<notin> M t \<and> x \<notin> U t) \<longrightarrow> (own x \<noteq> None \<longleftrightarrow> x \<in> K))"

lemma account_map_begun:
  assumes "account_pending K own M U" and "M t = {}" and "R \<inter> K = {}" and "\<And>u. R \<inter> U u = {}"
  shows "account_pending (K \<union> R) own (M(t := R)) U"
proof -
  have none: "own x = None" if "x \<in> R" for x
    using assms that unfolding account_pending_def by (metis disjoint_iff)
  have "\<forall>u x. x \<in> U u \<longrightarrow> x \<notin> K \<union> R" using assms(1,4) unfolding account_pending_def by blast
  moreover have "\<forall>u x. x \<in> (M(t := R)) u \<longrightarrow> x \<in> K \<union> R \<and> own x = None"
    using assms(1) none unfolding account_pending_def by auto
  moreover have "\<forall>u v x. x \<in> (M(t := R)) u \<longrightarrow> x \<in> (M(t := R)) v \<longrightarrow> u = v"
    using assms(1,3) unfolding account_pending_def by (auto split: if_splits)
  moreover have "own x \<noteq> None \<longleftrightarrow> x \<in> K \<union> R" if "\<forall>u. x \<notin> (M(t := R)) u \<and> x \<notin> U u" for x
  proof -
    have "x \<notin> R" "\<forall>u. x \<notin> M u \<and> x \<notin> U u" using that assms(2) by (auto split: if_splits)
    then show ?thesis using assms(1) unfolding account_pending_def by blast
  qed
  ultimately show ?thesis unfolding account_pending_def by blast
qed

lemma account_map_done:
  assumes "account_pending K own M U" and "M t = R"
  shows "account_pending K (\<lambda>x. if x \<in> R then Some a else own x) (M(t := {})) U"
  using assms unfolding account_pending_def by (auto split: if_splits)

lemma account_unmap_begun:
  assumes "account_pending K own M U" and "U t = {}" and "\<And>u. R \<inter> M u = {}"
  shows "account_pending (K - R) own M (U(t := R))"
proof -
  have "own x \<noteq> None \<longleftrightarrow> x \<in> K - R" if "\<forall>u. x \<notin> M u \<and> x \<notin> (U(t := R)) u" for x
  proof -
    have "x \<notin> R" "\<forall>u. x \<notin> M u \<and> x \<notin> U u" using that assms(2) by (auto split: if_splits)
    then show ?thesis using assms(1) unfolding account_pending_def by blast
  qed
  moreover have "\<forall>u x. x \<in> M u \<longrightarrow> x \<in> K - R \<and> own x = None"
    using assms(1,3) unfolding account_pending_def by blast
  moreover have "\<forall>u x. x \<in> (U(t := R)) u \<longrightarrow> x \<notin> K - R"
    using assms(1) unfolding account_pending_def by (auto split: if_splits)
  ultimately show ?thesis using assms(1) unfolding account_pending_def by blast
qed

lemma account_unmap_done:
  assumes "account_pending K own M U" and "U t = R"
  shows "account_pending K (\<lambda>x. if x \<in> R then None else own x) M (U(t := {}))"
  using assms unfolding account_pending_def by (auto split: if_splits)

subsection \<open>The invariant of the threads\<close>

fun request_ok :: "nat \<Rightarrow> MmapThread \<Rightarrow> bool" where
  "request_ok k (MmapWaiting c n ret) \<longleftrightarrow> small_region c k ret n \<and> 0 < unat n \<and> ret \<noteq> nullptr"
| "request_ok k (MmapLocked c n ret) \<longleftrightarrow> small_region c k ret n \<and> 0 < unat n \<and> ret \<noteq> nullptr"
| "request_ok k (MunmapWaiting c addr n ret) \<longleftrightarrow>
     (ret = 0 \<longrightarrow> small_region c k addr n \<and> and addr (sysconf_page c - 1) = 0)"
| "request_ok k (MunmapLocked c addr n ret) \<longleftrightarrow>
     (ret = 0 \<longrightarrow> small_region c k addr n \<and> and addr (sysconf_page c - 1) = 0)"
| "request_ok k _ \<longleftrightarrow> True"

definition control_ok :: "nat \<Rightarrow> MmapMachine \<Rightarrow> bool" where
  "control_ok k m \<longleftrightarrow> (\<forall>t. in_library m t = inside_library (thread m t))
     \<and> (\<forall>t. holds_mutex (thread m t) \<longleftrightarrow> mutex_owner m = Some t) \<and> (\<forall>t. request_ok k (thread m t))"

definition account_ok :: "MmapMachine \<Rightarrow> bool" where
  "account_ok m \<longleftrightarrow> mmap_ok (process m) \<and> account_pending (kernel_memory m) (owner (memoryMap (process m)))
     (\<lambda>t. mapping_of (thread m t)) (\<lambda>t. unmapping_of (thread m t))"

lemma of_thread_upd: "(\<lambda>u. f ((g(t := pc)) u)) = (\<lambda>u. f (g u))(t := f pc)"
  by auto

text \<open>A step moves one thread, and the mutex and the flag with it.\<close>

lemma control_ok_move:
  assumes "control_ok k m" and "thread m' = (thread m)(t := pc)" and "request_ok k pc"
    and "in_library m' = (in_library m)(t := inside_library pc)"
    and "mutex_owner m' = (if holds_mutex pc then Some t else if holds_mutex (thread m t) then None else mutex_owner m)"
    and "holds_mutex pc \<Longrightarrow> mutex_owner m = None \<or> mutex_owner m = Some t"
  shows "control_ok k m'"
  using assms unfolding control_ok_def by (auto split: if_splits)

text \<open>A step that leaves the memory and the process alone, and what its thread has under way.\<close>

lemma account_ok_move:
  assumes "account_ok m" and "process m' = process m" and "kernel_memory m' = kernel_memory m"
    and "thread m' = (thread m)(t := pc)" and "mapping_of pc = mapping_of (thread m t)"
    and "unmapping_of pc = unmapping_of (thread m t)"
  shows "account_ok m'"
proof -
  have "(\<lambda>u. mapping_of (thread m' u)) = (\<lambda>u. mapping_of (thread m u))"
    "(\<lambda>u. unmapping_of (thread m' u)) = (\<lambda>u. unmapping_of (thread m u))"
    using assms(4-6) by (simp_all add: fun_eq_iff)
  then show ?thesis using assms(1-3) by (simp add: account_ok_def)
qed

lemma account_ok_call:
  assumes "account_ok m" and "finished (thread m t)" and "is_call pc"
  shows "account_ok (goto t pc m)"
proof (rule account_ok_move [OF assms(1)])
  show "mapping_of pc = mapping_of (thread m t)" "unmapping_of pc = unmapping_of (thread m t)"
    using assms(2,3) by (cases pc; cases "thread m t"; simp)+
qed (simp_all add: goto_def)

lemma control_ok_call:
  assumes "control_ok k m" and "finished (thread m t)" and "is_call pc"
  shows "control_ok k (goto t pc m)"
proof (rule control_ok_move [OF assms(1)])
  have "in_library m t = inside_library (thread m t)" using assms(1) by (simp add: control_ok_def)
  then have "\<not> in_library m t" "\<not> inside_library pc" using assms(2,3) by (simp_all add: inside_library_def)
  then show "in_library (goto t pc m) = (in_library m)(t := inside_library pc)"
    by (simp add: goto_def fun_upd_idem)
  show "mutex_owner (goto t pc m) = (if holds_mutex pc then Some t
      else if holds_mutex (thread m t) then None else mutex_owner m)"
    using assms(2,3) by (cases pc; cases "thread m t"; simp add: goto_def)
  show "request_ok k pc" "holds_mutex pc \<Longrightarrow> mutex_owner m = None \<or> mutex_owner m = Some t"
    using assms(3) by (cases pc; simp)+
qed (simp add: goto_def)

lemma account_ok_moveI:
  assumes "account_ok m" and "mmap_ok (process m')" and "thread m' = (thread m)(t := pc)"
    and "account_pending (kernel_memory m') (owner (memoryMap (process m')))
      ((\<lambda>u. mapping_of (thread m u))(t := mapping_of pc)) ((\<lambda>u. unmapping_of (thread m u))(t := unmapping_of pc))"
  shows "account_ok m'"
  using assms(2-4) by (simp only: account_ok_def of_thread_upd)

lemma mmap_called_step:
  assumes inv: "control_ok k m" "account_ok m" and pc: "thread m t = MmapCalled c addr n prot flags fd offs"
    and orderly: "orderly k real_mmap real_munmap m (thread m t)"
  shows "\<exists>m'. advance real_mmap real_munmap t m = Some (Inr m') \<and> control_ok k m' \<and> account_ok m'"
proof -
  let ?ret = "real_mmap (kernel_memory m) addr n prot flags fd offs"
  let ?pc = "if ?ret \<noteq> nullptr \<and> and flags MAP_ANONYMOUS \<noteq> 0 then MmapWaiting c n ?ret else MmapLeaving ?ret"
  let ?m = "goto t ?pc (set_library t True (m\<lparr>kernel_memory := kernel_mmap c n flags ?ret (kernel_memory m)\<rparr>))"
  have outside: "\<not> in_library m t" "mutex_owner m \<noteq> Some t"
    using inv(1) pc unfolding control_ok_def by (metis inside_library_def is_call.simps(1), metis holds_mutex.simps(5))
  have step: "advance real_mmap real_munmap t m = Some (Inr ?m)"
    using pc outside by (simp add: step_simps machine_defs Let_def)
  have "request_ok k ?pc" using orderly pc by (simp add: Let_def)
  then have control: "control_ok k ?m"
    by (rule control_ok_move [OF inv(1), where t = t and pc = ?pc, rotated])
      (use pc outside in \<open>auto simp: goto_def set_library_def inside_library_def split: if_splits\<close>)
  have "account_ok ?m"
  proof (cases "and flags MAP_ANONYMOUS = 0")
    case True
    then have "kernel_mmap c n flags ?ret (kernel_memory m) = kernel_memory m"
      using orderly pc by (auto simp: kernel_mmap_def Let_def)
    then show ?thesis using True pc
      by (intro account_ok_move [OF inv(2), where t = t and pc = ?pc]) (simp_all add: goto_def set_library_def)
  next
    case False
    then have o: "?ret \<noteq> nullptr" "?ret \<noteq> - 1" "kernel_region c ?ret n \<inter> kernel_memory m = {}"
      "\<And>u. kernel_region c ?ret n \<inter> unmapping_of (thread m u) = {}"
      using orderly pc by (auto simp: Let_def small_region_def)
    have "account_pending (kernel_memory m \<union> kernel_region c ?ret n) (owner (memoryMap (process m)))
        ((\<lambda>u. mapping_of (thread m u))(t := kernel_region c ?ret n)) (\<lambda>u. unmapping_of (thread m u))"
      using inv(2) pc o(3,4) by (intro account_map_begun) (simp_all add: account_ok_def)
    moreover have "(\<lambda>u. unmapping_of (thread m u))(t := {}) = (\<lambda>u. unmapping_of (thread m u))"
      using pc by (simp add: fun_upd_idem)
    ultimately show ?thesis using False o(1,2) inv(2)
      by (intro account_ok_moveI [OF inv(2), where t = t and pc = ?pc])
        (simp_all add: goto_def set_library_def kernel_mmap_def account_ok_def)
  qed
  with step control show ?thesis by blast
qed

lemma munmap_called_step:
  assumes inv: "control_ok k m" "account_ok m" and pc: "thread m t = MunmapCalled c addr n"
    and orderly: "orderly k real_mmap real_munmap m (thread m t)"
  shows "\<exists>m'. advance real_mmap real_munmap t m = Some (Inr m') \<and> control_ok k m' \<and> account_ok m'"
proof -
  let ?ret = "real_munmap (kernel_memory m) addr n"
  let ?pc = "MunmapWaiting c addr n ?ret"
  let ?m = "goto t ?pc (set_library t True (m\<lparr>kernel_memory := kernel_munmap c addr n ?ret (kernel_memory m)\<rparr>))"
  have outside: "\<not> in_library m t" "mutex_owner m \<noteq> Some t"
    using inv(1) pc unfolding control_ok_def by (metis inside_library_def is_call.simps(2), metis holds_mutex.simps(9))
  have step: "advance real_mmap real_munmap t m = Some (Inr ?m)"
    using pc outside by (simp add: step_simps machine_defs Let_def)
  have "request_ok k ?pc" using orderly pc by simp
  then have control: "control_ok k ?m"
    by (rule control_ok_move [OF inv(1), where t = t and pc = ?pc, rotated])
      (use pc outside in \<open>auto simp: goto_def set_library_def inside_library_def\<close>)
  have "account_ok ?m"
  proof (cases "?ret = 0")
    case False
    then show ?thesis using pc
      by (intro account_ok_move [OF inv(2), where t = t and pc = ?pc])
        (simp_all add: goto_def set_library_def kernel_munmap_def)
  next
    case True
    then have "account_pending (kernel_memory m - kernel_region c addr n) (owner (memoryMap (process m)))
        (\<lambda>u. mapping_of (thread m u)) ((\<lambda>u. unmapping_of (thread m u))(t := kernel_region c addr n))"
      using inv(2) pc orderly by (intro account_unmap_begun) (simp_all add: account_ok_def)
    moreover have "(\<lambda>u. mapping_of (thread m u))(t := {}) = (\<lambda>u. mapping_of (thread m u))"
      using pc by (simp add: fun_upd_idem)
    ultimately show ?thesis using True inv(2)
      by (intro account_ok_moveI [OF inv(2), where t = t and pc = ?pc])
        (simp_all add: goto_def set_library_def kernel_munmap_def account_ok_def)
  qed
  with step control show ?thesis by blast
qed

lemma waiting_step:
  assumes inv: "control_ok k m" "account_ok m"
    and pc: "thread m t = MmapWaiting c n ret \<and> pc = MmapLocked c n ret
      \<or> thread m t = MunmapWaiting c addr n r \<and> pc = MunmapLocked c addr n r"
  shows "advance real_mmap real_munmap t m = None \<and> (\<exists>u. u \<noteq> t \<and> holds_mutex (thread m u))
    \<or> (\<exists>m'. advance real_mmap real_munmap t m = Some (Inr m') \<and> control_ok k m' \<and> account_ok m')"
proof (cases "mutex_owner m")
  case (Some u)
  then have "holds_mutex (thread m u)" using inv(1) by (simp add: control_ok_def)
  moreover have "u \<noteq> t" using pc calculation by auto
  moreover have "advance real_mmap real_munmap t m = None" using pc Some by (auto simp: step_simps lock_def)
  ultimately show ?thesis by blast
next
  case None
  let ?m = "goto t pc (m\<lparr>mutex_owner := Some t\<rparr>)"
  have "in_library m t" "request_ok k (thread m t)"
    using inv(1) pc unfolding control_ok_def by (auto simp: inside_library_def)
  then have "control_ok k ?m" using pc None
    by (intro control_ok_move [OF inv(1), where t = t and pc = pc])
      (auto simp: goto_def inside_library_def fun_upd_idem)
  moreover have "account_ok ?m" using pc
    by (intro account_ok_move [OF inv(2), where t = t and pc = pc]) (auto simp: goto_def)
  moreover have "advance real_mmap real_munmap t m = Some (Inr ?m)"
    using pc None by (auto simp: step_simps lock_def)
  ultimately show ?thesis by blast
qed

lemma unlocking_step:
  assumes inv: "control_ok k m" "account_ok m"
    and pc: "thread m t = MmapUnlocking ret \<and> pc = MmapLeaving ret \<or> thread m t = MunmapUnlocking r \<and> pc = MunmapLeaving r"
  shows "\<exists>m'. advance real_mmap real_munmap t m = Some (Inr m') \<and> control_ok k m' \<and> account_ok m'"
proof -
  let ?m = "goto t pc (unlock m)"
  have "in_library m t" using inv(1) pc unfolding control_ok_def by (auto simp: inside_library_def)
  then have "control_ok k ?m" using pc
    by (intro control_ok_move [OF inv(1), where t = t and pc = pc])
      (auto simp: goto_def unlock_def inside_library_def fun_upd_idem)
  moreover have "account_ok ?m" using pc
    by (intro account_ok_move [OF inv(2), where t = t and pc = pc]) (auto simp: goto_def unlock_def)
  moreover have "advance real_mmap real_munmap t m = Some (Inr ?m)" using pc by (auto simp: step_simps)
  ultimately show ?thesis by blast
qed

lemma leaving_step:
  assumes inv: "control_ok k m" "account_ok m"
    and pc: "thread m t = MmapLeaving ret \<and> pc = MmapDone ret \<or> thread m t = MunmapLeaving r \<and> pc = MunmapDone r"
  shows "\<exists>m'. advance real_mmap real_munmap t m = Some (Inr m') \<and> control_ok k m' \<and> account_ok m'"
proof -
  let ?m = "goto t pc (set_library t False m)"
  have inside: "in_library m t" using inv(1) pc unfolding control_ok_def by (auto simp: inside_library_def)
  have "control_ok k ?m" using pc
    by (intro control_ok_move [OF inv(1), where t = t and pc = pc])
      (auto simp: goto_def set_library_def inside_library_def)
  moreover have "account_ok ?m" using pc
    by (intro account_ok_move [OF inv(2), where t = t and pc = pc]) (auto simp: goto_def set_library_def)
  moreover have "advance real_mmap real_munmap t m = Some (Inr ?m)"
    using pc inside by (auto simp: step_simps leave_library_def LibraryContext_destroy_def)
  ultimately show ?thesis by blast
qed

lemma control_okD:
  "control_ok k m \<Longrightarrow> request_ok k (thread m t) \<and> in_library m t = inside_library (thread m t)"
  by (simp add: control_ok_def)

lemma control_ok_locked:
  assumes inv: "control_ok k m" and pc: "holds_mutex (thread m t)" "holds_mutex pc" "request_ok k pc" "inside_library pc"
    and t: "inside_library (thread m t)"
  shows "control_ok k (goto t pc (share p m))"
proof (rule control_ok_move [OF inv])
  have "in_library m t" "mutex_owner m = Some t" using inv pc(1) t by (simp_all add: control_ok_def)
  then show "in_library (goto t pc (share p m)) = (in_library m)(t := inside_library pc)"
    "mutex_owner (goto t pc (share p m)) = (if holds_mutex pc then Some t else if holds_mutex (thread m t) then None else mutex_owner m)"
    "holds_mutex pc \<Longrightarrow> mutex_owner m = None \<or> mutex_owner m = Some t"
    using pc by (simp_all add: goto_def share_def fun_upd_idem)
qed (simp_all add: goto_def share_def pc(3))

lemma mmap_locked_step:
  assumes inv: "control_ok k m" "account_ok m" and pc: "thread m t = MmapLocked c n ret"
    and fresh: "fresh_call c (process m)"
  shows "\<exists>m'. advance real_mmap real_munmap t m = Some (Inr m') \<and> control_ok k m' \<and> account_ok m'"
proof -
  have req: "request_ok k (thread m t)" and inside: "in_library m t"
    using control_okD [OF inv(1), of t] pc by (simp_all add: inside_library_def)
  then have r: "small_region c k ret n" "0 < unat n" "ret \<noteq> nullptr" "page_call c k" using pc by (auto simp: small_region_def)
  have R: "kernel_region c ret n = {sint ret ..< sint ret + int (rounded k n)}" using r(4) by (rule kernel_region_rounded)
  have ok: "mmap_ok (process m)" and pending: "account_pending (kernel_memory m) (owner (memoryMap (process m)))
      (\<lambda>u. mapping_of (thread m u)) (\<lambda>u. unmapping_of (thread m u))"
    using inv(2) by (simp_all add: account_ok_def)
  have "kernel_region c ret n \<subseteq> {x. owner (memoryMap (process m)) x = None}"
    using pending pc unfolding account_pending_def by (metis (mono_tags, lifting) mapping_of.simps(2) mem_Collect_eq subsetI)
  then have none: "owner (memoryMap (process m)) x = None" if "sint ret \<le> x" "x < sint ret + int (rounded k n)" for x
    using that unfolding R by auto
  have flags: "and 32 MAP_ANONYMOUS \<noteq> (0 :: uint32)" by (simp add: MAP_ANONYMOUS_def)
  obtain a p where p: "mmap (\<lambda>_ _ _ _ _ _. ret) c 0 n 0 32 0 0 (process m) = Inr (ret, p)" "mmap_ok p"
    "owner (memoryMap p) = (\<lambda>x. if sint ret \<le> x \<and> x < sint ret + int (rounded k n) then Some a
       else owner (memoryMap (process m)) x)"
    using mmap_recorded [where real_mmap = "\<lambda>_ _ _ _ _ _. ret" and addr = 0 and prot = 0 and fd = 0 and offs = 0,
        OF ok fresh r(1,2) refl r(3) flags none] by blast
  obtain q where q: "register_mapping c ret n (process m\<lparr>caller_inLibrary := True\<rparr>) = Inr q" "p = q\<lparr>caller_inLibrary := False\<rparr>"
    using p(1) ok r(3) flags by (auto simp: mmap_def inLibrary_def Let_def mmap_ok_def andThen_Inr_iff)
  let ?m = "goto t (MmapUnlocking ret) (share q m)"
  have "control_ok k ?m" using inv(1) pc by (intro control_ok_locked) (simp_all add: inside_library_def)
  moreover have "account_ok ?m"
  proof (rule account_ok_moveI [OF inv(2), where t = t and pc = "MmapUnlocking ret"])
    have "(\<lambda>u. unmapping_of (thread m u))(t := {}) = (\<lambda>u. unmapping_of (thread m u))" using pc by (simp add: fun_upd_idem)
    moreover have "account_pending (kernel_memory m) (\<lambda>x. if x \<in> kernel_region c ret n then Some a else owner (memoryMap (process m)) x)
        ((\<lambda>u. mapping_of (thread m u))(t := {})) (\<lambda>u. unmapping_of (thread m u))"
      using pc by (intro account_map_done [OF pending]) simp
    ultimately show "account_pending (kernel_memory ?m) (owner (memoryMap (process ?m)))
      ((\<lambda>u. mapping_of (thread m u))(t := mapping_of (MmapUnlocking ret)))
      ((\<lambda>u. unmapping_of (thread m u))(t := unmapping_of (MmapUnlocking ret)))"
      using p(3) q(2) by (simp add: goto_def share_def R)
  qed (use p(2) q(2) in \<open>simp_all add: goto_def share_def\<close>)
  moreover have "advance real_mmap real_munmap t m = Some (Inr ?m)"
    using pc q(1) inside by (simp add: step_simps seen_by_def)
  ultimately show ?thesis by blast
qed

lemma munmap_locked_step:
  assumes inv: "control_ok k m" "account_ok m" and pc: "thread m t = MunmapLocked c addr n r"
  shows "\<exists>m'. advance real_mmap real_munmap t m = Some (Inr m') \<and> control_ok k m' \<and> account_ok m'"
proof -
  have req: "request_ok k (thread m t)" and inside: "in_library m t"
    using control_okD [OF inv(1), of t] pc by (simp_all add: inside_library_def)
  have ok: "mmap_ok (process m)" and pending: "account_pending (kernel_memory m) (owner (memoryMap (process m)))
      (\<lambda>u. mapping_of (thread m u)) (\<lambda>u. unmapping_of (thread m u))"
    using inv(2) by (simp_all add: account_ok_def)
  have maps: "(\<lambda>u. mapping_of (thread m u))(t := {}) = (\<lambda>u. mapping_of (thread m u))" using pc by (simp add: fun_upd_idem)
  have "\<exists>q p. (if r = 0 then register_unmapping c addr n (process m\<lparr>caller_inLibrary := True\<rparr>)
        else Inr (process m\<lparr>caller_inLibrary := True, eventLog := eventLog (process m) @ unmap_line c '' ERROR: UNMAP FAILED: '' addr n\<rparr>)) = Inr q
      \<and> p = q\<lparr>caller_inLibrary := False\<rparr> \<and> mmap_ok p
      \<and> owner (memoryMap p) = (\<lambda>x. if x \<in> unmapping_of (thread m t) then None else owner (memoryMap (process m)) x)"
  proof (cases "r = 0")
    case True
    then have reg: "small_region c k addr n" "and addr (sysconf_page c - 1) = 0" using req pc by simp_all
    then have R: "kernel_region c addr n = {sint addr ..< sint addr + int (rounded k n)}"
      by (simp add: small_region_def kernel_region_rounded)
    obtain p where p: "munmap (\<lambda>_ _. 0) c addr n (process m) = Inr (0, p)" "mmap_ok p"
      "owner (memoryMap p) = (\<lambda>x. if sint addr \<le> x \<and> x < sint addr + int (rounded k n) then None
         else owner (memoryMap (process m)) x)"
      using munmap_forgotten [where real_munmap = "\<lambda>_ _. 0", OF ok reg refl] by blast
    then show ?thesis using True pc ok R by (auto simp: munmap_def inLibrary_def Let_def mmap_ok_def andThen_Inr_iff)
  next
    case False
    then show ?thesis using pc ok by (cases "process m") (simp add: mmap_ok_def)
  qed
  then obtain q p where q: "(if r = 0 then register_unmapping c addr n (process m\<lparr>caller_inLibrary := True\<rparr>)
        else Inr (process m\<lparr>caller_inLibrary := True, eventLog := eventLog (process m) @ unmap_line c '' ERROR: UNMAP FAILED: '' addr n\<rparr>)) = Inr q"
    and p: "p = q\<lparr>caller_inLibrary := False\<rparr>" "mmap_ok p"
      "owner (memoryMap p) = (\<lambda>x. if x \<in> unmapping_of (thread m t) then None else owner (memoryMap (process m)) x)" by blast
  let ?m = "goto t (MunmapUnlocking r) (share q m)"
  have "control_ok k ?m" using inv(1) pc by (intro control_ok_locked) (simp_all add: inside_library_def)
  moreover have "account_ok ?m"
    using account_unmap_done [OF pending refl, of t] maps p
    by (intro account_ok_moveI [OF inv(2), where t = t and pc = "MunmapUnlocking r"])
      (simp_all add: goto_def share_def)
  moreover have "advance real_mmap real_munmap t m = Some (Inr ?m)"
    using pc q inside by (cases "r = 0") (simp_all add: step_simps seen_by_def Let_def)
  ultimately show ?thesis by blast
qed

lemma orderly_step:
  assumes inv: "control_ok k m" "account_ok m" and orderly: "orderly k real_mmap real_munmap m (thread m t)"
    and busy: "\<not> finished (thread m t)"
  shows "advance real_mmap real_munmap t m = None \<and> (\<exists>u. u \<noteq> t \<and> holds_mutex (thread m u))
    \<or> (\<exists>m'. advance real_mmap real_munmap t m = Some (Inr m') \<and> control_ok k m' \<and> account_ok m')"
proof (cases "thread m t")
  case (MmapCalled c addr n prot flags fd offs)
  then show ?thesis using mmap_called_step [OF inv MmapCalled orderly] by blast
next
  case (MmapWaiting c n ret)
  then show ?thesis using waiting_step [OF inv, of t c n ret "MmapLocked c n ret"] by blast
next
  case (MmapLocked c n ret)
  then show ?thesis using mmap_locked_step [OF inv MmapLocked] orderly by simp
next
  case (MmapUnlocking ret)
  then show ?thesis using unlocking_step [OF inv, of t ret "MmapLeaving ret"] by blast
next
  case (MmapLeaving ret)
  then show ?thesis using leaving_step [OF inv, of t ret "MmapDone ret"] by blast
next
  case (MunmapCalled c addr n)
  then show ?thesis using munmap_called_step [OF inv MunmapCalled orderly] by blast
next
  case (MunmapWaiting c addr n r)
  then show ?thesis using waiting_step [OF inv, of t _ _ _ "MunmapLocked c addr n r"] by blast
next
  case (MunmapLocked c addr n r)
  then show ?thesis using munmap_locked_step [OF inv MunmapLocked] by blast
next
  case (MunmapUnlocking r)
  then show ?thesis using unlocking_step [OF inv, of t _ "MunmapLeaving r"] by blast
next
  case (MunmapLeaving r)
  then show ?thesis using leaving_step [OF inv, of t _ "MunmapDone r"] by blast
qed (use busy in simp_all)

lemma threaded_ok:
  assumes "threaded k m"
  shows "control_ok k m \<and> account_ok m"
  using assms
proof (induction rule: threaded.induct)
  case (start threads)
  have "mapping_of (threads t) = {}" "unmapping_of (threads t) = {}" "\<not> holds_mutex (threads t)"
    "request_ok k (threads t)" for t
    using start [of t] by (cases "threads t"; simp)+
  then show ?case using start empty_mmap_process_ok
    by (simp add: control_ok_def account_ok_def account_pending_def inside_library_def empty_mmap_process_def)
next
  case (call m t pc)
  then show ?case using control_ok_call account_ok_call by blast
next
  case (step m real_mmap real_munmap t m')
  have "\<not> finished (thread m t)" using step.hyps(3) by (cases "thread m t") (auto simp: advance_def)
  with orderly_step [of k m real_mmap real_munmap t] step.IH step.hyps(2,3) show ?case by auto
qed

text \<open>
  C20. From a process that has mapped nothing, any number of threads call the two wrappers, one call after the other in
  each thread and the steps of the threads interleaved in any way; pages have one size, a power of two, new
  objects have new identities, and no symbol starts behind the address it is found for. Let every anonymous mapping succeed, on pages that are neither mapped
  anonymously nor unmapped by a call that has not yet taken them out of the account (the race of
  munmap_race_loses_mapping); let no file be mapped over anonymous memory, anonymous mappings and successful unmappings be shorter than 4 GiB, the first not empty and not at address 0, the second page
  aligned, and no thread unmap what another thread's mmap has not returned yet.
  Then at every moment the mutex is held by at most one thread; every address that no call under way is about
  has an owner exactly when it is mapped anonymously, so when all calls have returned the account is the
  kernel's; and no thread runs into a fault: one that has not finished can make its next such step, or waits
  for a mutex that another thread holds.
\<close>

theorem threads_account_exact:
  assumes "threaded k m"
  shows "(\<forall>t u. holds_mutex (thread m t) \<longrightarrow> holds_mutex (thread m u) \<longrightarrow> t = u)
    \<and> (\<forall>x. (\<forall>t. x \<notin> mapping_of (thread m t) \<and> x \<notin> unmapping_of (thread m t)) \<longrightarrow>
        (owner (memoryMap (process m)) x \<noteq> None \<longleftrightarrow> x \<in> kernel_memory m))
    \<and> ((\<forall>t. finished (thread m t)) \<longrightarrow> (\<forall>x. owner (memoryMap (process m)) x \<noteq> None \<longleftrightarrow> x \<in> kernel_memory m))
    \<and> (\<forall>t real_mmap real_munmap. \<not> finished (thread m t) \<longrightarrow> orderly k real_mmap real_munmap m (thread m t) \<longrightarrow>
        (\<exists>m'. advance real_mmap real_munmap t m = Some (Inr m') \<and> threaded k m')
        \<or> advance real_mmap real_munmap t m = None \<and> (\<exists>u. u \<noteq> t \<and> holds_mutex (thread m u)))"
proof -
  have inv: "control_ok k m" "account_ok m" using threaded_ok [OF assms] by blast+
  have "holds_mutex (thread m t) \<Longrightarrow> holds_mutex (thread m u) \<Longrightarrow> t = u" for t u
    using inv(1) by (simp add: control_ok_def)
  moreover have account: "owner (memoryMap (process m)) x \<noteq> None \<longleftrightarrow> x \<in> kernel_memory m"
    if "\<forall>t. x \<notin> mapping_of (thread m t) \<and> x \<notin> unmapping_of (thread m t)" for x
    using inv(2) that unfolding account_ok_def account_pending_def by blast
  moreover have "owner (memoryMap (process m)) x \<noteq> None \<longleftrightarrow> x \<in> kernel_memory m" if "\<forall>t. finished (thread m t)" for x
  proof (rule account)
    have "mapping_of pc = {} \<and> unmapping_of pc = {}" if "finished pc" for pc using that by (cases pc) simp_all
    then show "\<forall>t. x \<notin> mapping_of (thread m t) \<and> x \<notin> unmapping_of (thread m t)" using that by simp
  qed
  moreover have "(\<exists>m'. advance real_mmap real_munmap t m = Some (Inr m') \<and> threaded k m')
      \<or> advance real_mmap real_munmap t m = None \<and> (\<exists>u. u \<noteq> t \<and> holds_mutex (thread m u))"
    if "\<not> finished (thread m t)" "orderly k real_mmap real_munmap m (thread m t)" for t real_mmap real_munmap
    using orderly_step [OF inv that(2,1)] threaded.step [OF assms that(2)] by blast
  ultimately show ?thesis by blast
qed

section \<open>Two threads on a small process\<close>

definition racing_machine :: MmapMachine where
  "racing_machine = \<lparr>kernel_memory = {4096 ..< 16384}, process = mapped_process, mutex_owner = None,
     in_library = (\<lambda>_. False),
     thread = (\<lambda>_. MmapDone 0)(0 := MunmapCalled sample_mmap_call 4096 12288,
       1 := MmapCalled sample_mmap_call 0 12288 3 34 (- 1) 0)\<rparr>"

theorem munmap_race_loses_mapping_witness:
  "\<exists>race. run_schedule (\<lambda>_ _ _ _ _ _ _. 4096) (\<lambda>_ _ _. 0) ([0] @ replicate 5 1 @ replicate 4 0) racing_machine = Some (Inr race)
    \<and> thread race 1 = MmapDone 4096 \<and> owner (memoryMap (process race)) 4096 = None
    \<and> 4096 \<in> kernel_memory race"
proof -
  have region: "small_region sample_mmap_call 12 4096 12288"
    by (simp add: small_region_def sample_page rounded_def)
  have known: "(sint (4096 :: ptr), \<lparr>slice_start = 4096, slice_size = 12288, slice_allocation = sample_mapping\<rparr>)
      \<in> set (memoryMap (process racing_machine))"
    by (simp add: racing_machine_def mapped_process_def sample_map_def registerMap_def sample_mapping_def)
  have "kernel_region sample_mmap_call 4096 12288 = {4096 ..< 16384}"
    using kernel_region_rounded [OF sample_page, of 4096 12288] by (simp add: rounded_def)
  moreover have "mmap_ok (process racing_machine)" "fresh_call sample_mmap_call (process racing_machine)"
    by (simp_all add: racing_machine_def mapped_process_ok sample_call_fresh)
  ultimately show ?thesis
    using munmap_race_loses_mapping [where m = racing_machine and t = 0 and u = 1 and real_mmap = "\<lambda>_ _ _ _ _ _ _. 4096"
        and real_munmap = "\<lambda>_ _ _. 0", OF _ _ _ _ _ _ _ _ region region _ _ _ _ _ _ known]
    by (force simp: racing_machine_def sample_mmap_call_def MAP_ANONYMOUS_def)
qed

text \<open>Two threads map at the same time; the first is registered while the second waits for the mutex.\<close>

definition idle_machine :: MmapMachine where
  "idle_machine = \<lparr>kernel_memory = {}, process = empty_mmap_process, mutex_owner = None,
     in_library = (\<lambda>_. False), thread = (\<lambda>_. MunmapDone 0)\<rparr>"

definition both_mapped :: MmapMachine where
  "both_mapped = \<lparr>kernel_memory = {65536 ..< 73728} \<union> {131072 ..< 135168}, process = empty_mmap_process,
     mutex_owner = Some 0, in_library = (\<lambda>_. False)(0 := True, 1 := True),
     thread = (\<lambda>_. MunmapDone 0)(0 := MmapLocked sample_mmap_call 5000 65536, 1 := MmapWaiting sample_mmap_call 4096 131072)\<rparr>"

lemma sample_kernel_region:
  "kernel_region sample_mmap_call 65536 5000 = {65536 ..< 73728}"
  "kernel_region sample_mmap_call 131072 4096 = {131072 ..< 135168}"
  using kernel_region_rounded [OF sample_page, of 65536 5000] kernel_region_rounded [OF sample_page, of 131072 4096]
  by (simp_all add: rounded_def)

lemma both_mapped_threaded: "threaded 12 both_mapped"
proof -
  let ?call = "\<lambda>n. MmapCalled sample_mmap_call 0 n 3 34 (- 1) 0"
  let ?real = "\<lambda>ret _ _ _ _ _ _ _. ret :: ptr"
  have regions: "small_region sample_mmap_call 12 65536 5000" "small_region sample_mmap_call 12 131072 4096"
    by (simp_all add: small_region_def sample_page rounded_def)
  have flags: "and 34 MAP_ANONYMOUS \<noteq> (0 :: uint32)" by (simp add: MAP_ANONYMOUS_def)
  have "threaded 12 idle_machine" unfolding idle_machine_def by (rule threaded.start) simp
  then have m1: "threaded 12 (goto 0 (?call 5000) idle_machine)"
    by (rule threaded.call) (simp_all add: idle_machine_def)
  let ?m2 = "idle_machine\<lparr>kernel_memory := {65536 ..< 73728}, in_library := (\<lambda>_. False)(0 := True),
    thread := (\<lambda>_. MunmapDone 0)(0 := MmapWaiting sample_mmap_call 5000 65536)\<rparr>"
  have m2: "threaded 12 ?m2"
  proof (rule threaded.step [OF m1, where t = 0 and real_mmap = "?real 65536" and real_munmap = "\<lambda>_ _ _. 0"])
    show "orderly 12 (?real 65536) (\<lambda>_ _ _. 0) (goto 0 (?call 5000) idle_machine) (thread (goto 0 (?call 5000) idle_machine) 0)"
      using regions flags by (simp add: goto_def idle_machine_def)
    show "advance (?real 65536) (\<lambda>_ _ _. 0) 0 (goto 0 (?call 5000) idle_machine) = Some (Inr ?m2)"
      using flags by (simp add: advance_def machine_defs idle_machine_def kernel_mmap_def sample_kernel_region)
  qed
  have m3: "threaded 12 (goto 1 (?call 4096) ?m2)"
    by (rule threaded.call [OF m2]) (simp_all add: idle_machine_def)
  let ?m4 = "?m2\<lparr>kernel_memory := {65536 ..< 73728} \<union> {131072 ..< 135168}, in_library := (\<lambda>_. False)(0 := True, 1 := True),
    thread := (\<lambda>_. MunmapDone 0)(0 := MmapWaiting sample_mmap_call 5000 65536, 1 := MmapWaiting sample_mmap_call 4096 131072)\<rparr>"
  have m4: "threaded 12 ?m4"
  proof (rule threaded.step [OF m3, where t = 1 and real_mmap = "?real 131072" and real_munmap = "\<lambda>_ _ _. 0"])
    show "orderly 12 (?real 131072) (\<lambda>_ _ _. 0) (goto 1 (?call 4096) ?m2) (thread (goto 1 (?call 4096) ?m2) 1)"
      using regions flags by (simp add: goto_def idle_machine_def sample_kernel_region)
    show "advance (?real 131072) (\<lambda>_ _ _. 0) 1 (goto 1 (?call 4096) ?m2) = Some (Inr ?m4)"
      using flags by (simp add: advance_def machine_defs idle_machine_def kernel_mmap_def sample_kernel_region)
  qed
  show ?thesis
  proof (rule threaded.step [OF m4, where t = 0 and real_mmap = "?real 0" and real_munmap = "\<lambda>_ _ _. 0"])
    show "advance (?real 0) (\<lambda>_ _ _. 0) 0 ?m4 = Some (Inr both_mapped)"
      by (simp add: advance_def machine_defs idle_machine_def both_mapped_def fun_upd_twist)
  qed simp
qed

theorem threads_account_exact_witness:
  "\<exists>m. advance (\<lambda>_ _ _ _ _ _ _. 0) (\<lambda>_ _ _. 0) 0 both_mapped = Some (Inr m) \<and> owner (memoryMap (process m)) 70000 \<noteq> None
    \<and> advance (\<lambda>_ _ _ _ _ _ _. 0) (\<lambda>_ _ _. 0) 1 both_mapped = None"
proof -
  have fresh: "fresh_call sample_mmap_call empty_mmap_process"
    by (simp add: fresh_call_def sample_mmap_call_def empty_mmap_process_def handles_def live_allocations_def dladdr_ok_def)
  have blocked: "advance (\<lambda>_ _ _ _ _ _ _. 0) (\<lambda>_ _ _. 0) 1 both_mapped = None"
    by (simp add: advance_def both_mapped_def lock_def)
  have locked: "thread both_mapped 0 = MmapLocked sample_mmap_call 5000 65536" by (simp add: both_mapped_def)
  have "orderly 12 (\<lambda>_ _ _ _ _ _ _. 0) (\<lambda>_ _ _. 0) both_mapped (thread both_mapped 0)"
    using fresh by (simp add: both_mapped_def)
  moreover have "u \<noteq> 0 \<Longrightarrow> \<not> holds_mutex (thread both_mapped u)" for u by (simp add: both_mapped_def)
  ultimately obtain m where m: "advance (\<lambda>_ _ _ _ _ _ _. 0) (\<lambda>_ _ _. 0) 0 both_mapped = Some (Inr m)" "threaded 12 m"
    using threads_account_exact [OF both_mapped_threaded] locked by (metis finished.simps(5))
  then obtain q where "m = goto 0 (MmapUnlocking 65536) (share q both_mapped)"
    using locked by (auto simp: advance_def andThen_Inr_iff)
  then have "70000 \<in> kernel_memory m" "70000 \<notin> mapping_of (thread m t) \<and> 70000 \<notin> unmapping_of (thread m t)" for t
    by (simp_all add: goto_def share_def both_mapped_def sample_kernel_region)
  then have "owner (memoryMap (process m)) 70000 \<noteq> None" using threads_account_exact [OF m(2)] by blast
  with m(1) blocked show ?thesis by blast
qed

end
