(* ===== verification/Monitored_Run.thy ===== *)
theory Monitored_Run
  imports Leak_Life Patrol_Thread
begin

text \<open>
  The program, the table and the monitor together: runs in which the patrols are the rounds of the
  monitor's loop, and what its progress log then says of one block.
\<close>

section \<open>Runs with a monitor\<close>

inductive monitored :: "Environment \<Rightarrow> nat \<Rightarrow> (uint64 \<Rightarrow> bool) \<Rightarrow> Process \<Rightarrow> Monitor \<Rightarrow> Action list \<Rightarrow> Process \<Rightarrow> Monitor \<Rightarrow> bool"
  for env k clock where
  monitored_nil: "monitored env k clock p m [] p m"
| monitored_program: "act env k clock p x p1 \<Longrightarrow> patrol_of x = [] \<Longrightarrow> monitored env k clock p1 m xs p' m' \<Longrightarrow>
    monitored env k clock p m (x # xs) p' m'"
| monitored_round: "clock time \<Longrightarrow> patrolThreadUpdateAllocationStates env time (table p) = Inr ((stats, leaks), T) \<Longrightarrow>
    monitor_round env time now (table p) m = Inr (T, m1) \<Longrightarrow> monitored env k clock (p\<lparr>table := T\<rparr>) m1 xs p' m' \<Longrightarrow>
    monitored env k clock p m (Patrolled (to_uint32 time) leaks # xs) p' m'"

lemma monitored_run: "monitored env k clock p m xs p' m' \<Longrightarrow> run env k clock p xs p'"
  by (induction rule: monitored.induct) (auto intro: run.intros act_patrol)

section \<open>The leaks in the progress log\<close>

fun line_leaks :: "ProgressLine \<Rightarrow> FoundLeak list" where
  "line_leaks (FoundNewLeak st b n) = [\<lparr>leak_stackTrace = st, leak_memory = b, leak_size = n\<rparr>]"
| "line_leaks (LostAgain st b n i) = [\<lparr>leak_stackTrace = st, leak_memory = b, leak_size = n\<rparr>]"
| "line_leaks _ = []"

definition logged_leaks :: "Monitor \<Rightarrow> FoundLeak list" where
  "logged_leaks m = concat (map line_leaks (progressStream m))"

lemma line_leaks_for [simp]: "line_leaks (line_for n leak) = [leak]"
  by (simp add: line_for_def)

lemma line_leaks_rates: "concat (map line_leaks (print_rates stats now)) = []"
  by (auto simp: print_rates_def Let_def)

lemma logged_leaks_found: "logged_leaks (foldl report_found_leak m leaks) = logged_leaks m @ leaks"
  by (induction leaks rule: rev_induct) (simp_all add: logged_leaks_def report_found_leak_step)

lemma logged_leaks_round:
  assumes "patrolThreadUpdateAllocationStates env time T = Inr ((stats, leaks), T')"
    and "monitor_round env time now T m = Inr (T'', m')"
  shows "logged_leaks m' = logged_leaks m @ leaks"
proof -
  let ?m1 = "m\<lparr>progressStream := progressStream m @ print_rates stats now\<rparr>"
  have "progressStream m' = progressStream (foldl report_found_leak ?m1 leaks)"
    using assms by (auto simp: monitor_round_def Let_def andThen_Inr_iff split: if_splits)
  then have "logged_leaks m' = logged_leaks (foldl report_found_leak ?m1 leaks)" by (simp add: logged_leaks_def)
  moreover have "logged_leaks ?m1 = logged_leaks m" by (simp add: logged_leaks_def line_leaks_rates)
  ultimately show ?thesis by (simp only: logged_leaks_found)
qed

lemma monitored_logged:
  "monitored env k clock p m xs p' m' \<Longrightarrow>
     filter (\<lambda>l. leak_memory l = b) (logged_leaks m') = filter (\<lambda>l. leak_memory l = b) (logged_leaks m) @ reports b xs"
  by (induction rule: monitored.induct) (simp_all add: logged_leaks_round)

text \<open>
  C4. A forgotten block is logged exactly once, and exactly when the patrols are due: let a block
  be watched and the program and the monitor go on for any number of steps (allocations, frees, reallocations by
  any thread, rounds of the monitor's loop) that do not free or reallocate this block. Then the progress log
  gains one line for the block's address, with its stack trace and size, if some round reads a time after the block's
  deadline and a later one a time more than the access interval after that; otherwise it gains
  none. The block stays live, and it stays tracked exactly until that line is written.
\<close>

theorem forgotten_block_logged_once:
  assumes "history env k clock n p" and "page_env env k" and "n + length xs < 2 ^ 32"
    and "monitored env k clock p m xs p' m'" and "list_all (\<lambda>x. \<not> touches b x) xs"
    and "um_find (closely (table p)) b = Some a" and "watched_state a = NotYetSuspicious"
  defines "d \<equiv> declared (deadline a) (closelyWatchedAllocationsAccessMaxInterval env) (patrol_times xs)"
  shows "filter (\<lambda>l. leak_memory l = b) (logged_leaks m') = filter (\<lambda>l. leak_memory l = b) (logged_leaks m)
      @ (if d then [\<lparr>leak_stackTrace = snd (watchedStackTraceInfo a), leak_memory = b, leak_size = requestedSize a\<rparr>]
         else [])
    \<and> (untracked b p' \<longleftrightarrow> d) \<and> blocks (proc_heap p') b \<noteq> None"
  using forgotten_block [OF assms(1-3) monitored_run [OF assms(4)] assms(5-7)]
  unfolding monitored_logged [OF assms(4)] d_def by simp

definition sample_monitor :: Monitor where
  "sample_monitor = initialMonitor\<lparr>progressStream := progressStream initialMonitor
      @ print_rates (m_stats (table run3)) 5, timeNextLeakReport := schedule sample_env 5\<rparr>"

lemma sample_schedule: "0 < schedule sample_env 5" "5 \<le> schedule sample_env 5"
  using schedule_positive [of 5 sample_env] fl_mono [of 5 "5 + 30" double_prec] fl_of_nat [of 5 double_prec]
  by (simp_all add: schedule_def sample_env_def)

lemma sample_no_wrap: "no_wrap sample_env 1131" "no_wrap sample_env 1133"
  by (simp_all add: no_wrap_def sample_env_def)

lemma sample_round4:
  assumes "monitored sample_env 12 (no_wrap sample_env) run4 sample_monitor xs p' m'"
  shows "monitored sample_env 12 (no_wrap sample_env) run3 initialMonitor (Patrolled 1131 [] # xs) p' m'"
proof -
  have r: "monitor_round sample_env 1131 5 (table run3) initialMonitor = Inr (table run4, sample_monitor)"
    using sample_schedule by (simp add: monitor_round_def run4 sample_monitor_def initialMonitor_def)
  have "monitored sample_env 12 (no_wrap sample_env) run3 initialMonitor (Patrolled (to_uint32 1131) [] # xs) p' m'"
    by (rule monitored_round [where clock = "no_wrap sample_env", OF sample_no_wrap(1) run4 r])
      (use assms in \<open>simp add: run4_def\<close>)
  then show ?thesis by simp
qed

lemma sample_monitored:
  "\<exists>m'. monitored sample_env 12 (no_wrap sample_env) run3 initialMonitor
     [Patrolled 1131 [], Patrolled 1133 [sample_leak]] run5 m'"
proof -
  obtain m' where r: "monitor_round sample_env 1133 5 (table run4) sample_monitor = Inr (table run5, m')"
    using sample_schedule
    by (simp add: monitor_round_def run5 sample_monitor_def initialMonitor_def report_found_leak_def Let_def)
  have "monitored sample_env 12 (no_wrap sample_env) run4 sample_monitor [Patrolled (to_uint32 1133) [sample_leak]] run5 m'"
    by (rule monitored_round [where clock = "no_wrap sample_env", OF sample_no_wrap(2) run5 [folded sample_leak_def] r])
      (use monitored_nil [of _ _ _ run5 m'] in \<open>simp add: run5_def\<close>)
  then have "monitored sample_env 12 (no_wrap sample_env) run4 sample_monitor [Patrolled 1133 [sample_leak]] run5 m'"
    by simp
  then show ?thesis by (blast intro: sample_round4)
qed

theorem forgotten_block_logged_once_witness:
  "\<exists>m'. monitored sample_env 12 (no_wrap sample_env) run3 initialMonitor
      [Patrolled 1131 [], Patrolled 1133 [sample_leak]] run5 m'
    \<and> filter (\<lambda>l. leak_memory l = 1048576) (logged_leaks m') = [sample_leak]"
proof -
  obtain m' where M: "monitored sample_env 12 (no_wrap sample_env) run3 initialMonitor
      [Patrolled 1131 [], Patrolled 1133 [sample_leak]] run5 m'" using sample_monitored by blast
  have "um_find (closely (table run3)) 1048576 = Some run_entry" by (simp add: run3_def)
  from forgotten_block_logged_once [OF run_history3 page_sample_env _ M _ this] M
  show ?thesis
    by (auto simp: sample_times run_entry_def watched_entry_def sample_env_def sample_leak_def logged_leaks_def
        initialMonitor_def)
qed

section \<open>No false alarm\<close>

lemma monitored_history: "monitored env k clock p m xs p' m' \<Longrightarrow> history env k clock n p \<Longrightarrow>
    history env k clock (n + length xs) p'"
  by (rule run_history_from [OF monitored_run])

text \<open>
  C5. A block freed in time is never logged: let a block be watched, let the program and the monitor go on
  without touching it, and let the program free it before two rounds were due for it (it may have become
  suspicious); then, however long they go on, no line of the progress log is about it, as long as its
  address is not given out to another block.
\<close>

theorem freed_in_time_never_logged:
  assumes "history env k clock n p" and "page_env env k" and "n + length xs + length ys + 1 < 2 ^ 32"
    and "um_find (closely (table p)) b = Some a" and "watched_state a = NotYetSuspicious"
    and "monitored env k clock p m xs p1 m1" and "list_all (\<lambda>x. \<not> touches b x) xs"
    and "\<not> declared (deadline a) (closelyWatchedAllocationsAccessMaxInterval env) (patrol_times xs)"
    and "act env k clock p1 (Freed b) p2"
    and "monitored env k clock p2 m1 ys p3 m3" and "list_all (\<lambda>x. \<not> touches b x \<and> \<not> returns b x) ys"
  shows "filter (\<lambda>l. leak_memory l = b) (logged_leaks m3) = filter (\<lambda>l. leak_memory l = b) (logged_leaks m)
    \<and> untracked b p3"
proof -
  have "b \<noteq> nullptr"
    using assms(4) history_ok [OF assms(1,2)] assms(3) by (auto simp: sys_ok_def memory_ok_def)
  have H1: "history env k clock (n + length xs) p1" by (rule monitored_history [OF assms(6,1)])
  have "system_ok env k p1" using history_ok [OF H1 assms(2)] assms(3) by simp
  from freed_untracked [OF assms(9) this \<open>b \<noteq> nullptr\<close>] have u: "untracked b p2" .
  have "in_history env k clock (length ys) p2"
    using act_history [OF H1 assms(9)] assms(2,3) by (auto simp: in_history_def)
  from unused_address [OF monitored_run [OF assms(10)] this assms(11) u]
  have later: "reports b ys = []" "untracked b p3" by simp_all
  have "reports b xs = []"
    using forgotten_block [OF assms(1,2) _ monitored_run [OF assms(6)] assms(7,4,5)] assms(3,8) by simp
  with later show ?thesis by (simp add: monitored_logged [OF assms(6)] monitored_logged [OF assms(10)])
qed

text \<open>The sample block is made suspicious by a round, and freed; nothing is logged for it.\<close>

theorem freed_in_time_never_logged_witness:
  "\<exists>p2 m1. act sample_env 12 (no_wrap sample_env) run4 (Freed 1048576) p2
    \<and> monitored sample_env 12 (no_wrap sample_env) p2 m1 [ThreadSwitch] (p2\<lparr>thread_inLibrary := True\<rparr>) m1
    \<and> filter (\<lambda>l. leak_memory l = 1048576) (logged_leaks m1) = [] \<and> untracked 1048576 (p2\<lparr>thread_inLibrary := True\<rparr>)"
proof -
  let ?act = "act sample_env 12 (no_wrap sample_env)" and ?M = "monitored sample_env 12 (no_wrap sample_env)"
  let ?m1 = sample_monitor
  have M: "?M run3 initialMonitor [Patrolled 1131 []] run4 ?m1" by (rule sample_round4 [OF monitored_nil])
  have b: "\<not> bypass sample_surroundings run4"
    by (simp add: bypass_def inLibrary_def run4_def run3_def run2_def run1_def empty_process_def)
  have "system_ok sample_env 12 run4" using history_ok [OF run_history page_sample_env] by simp
  from instrumentedFree_safe [OF this frees_release [of 1048576], of sample_surroundings] b
  obtain u p2 where free: "instrumentedFree sample_surroundings 1048576 (release 1048576) run4 = Inr (u, p2)" by auto
  have f: "?act run4 (Freed 1048576) p2" by (rule act_free [OF _ frees_release _ free]) (use b in simp_all)
  have t: "?M p2 ?m1 [ThreadSwitch] (p2\<lparr>thread_inLibrary := True\<rparr>) ?m1"
    by (rule monitored_program [OF act_thread _ monitored_nil]) simp
  have "um_find (closely (table run3)) 1048576 = Some run_entry" by (simp add: run3_def)
  from freed_in_time_never_logged [OF run_history3 page_sample_env _ this _ M _ _ f t] f t show ?thesis
    by (auto simp: run_entry_def watched_entry_def logged_leaks_def initialMonitor_def)
qed

end
