(* ===== verification/Order_Independence.thy ===== *)
theory Order_Independence
  imports Leak_Life "HOL-Library.Multiset"
begin

text \<open>
  The language leaves the iteration order of an unordered_map open, and the model's association
  lists pick one. This theory shows that the pick is not visible: two processes whose tables hold
  the same elements, in whatever order, do the same under every step, except that the leaks of one patrol
  may come in another order.
\<close>

section \<open>Tables with the same contents\<close>

definition same_contents :: "AllocationTable \<Rightarrow> AllocationTable \<Rightarrow> bool" where
  "same_contents T U \<longleftrightarrow> um_find (light T) = um_find (light U) \<and> um_find (closely T) = um_find (closely U)
     \<and> (\<forall>fp. um_find (suspicious T) fp = None \<longleftrightarrow> um_find (suspicious U) fp = None)
     \<and> deref_info T = deref_info U \<and> m_stats T = m_stats U
     \<and> countLiveCloselyWatchedAllocationsAllTraces T = countLiveCloselyWatchedAllocationsAllTraces U"

lemma same_contents_refl: "same_contents T T"
  by (simp add: same_contents_def)

abbreviation same_result :: "('r \<times> AllocationTable \<times> heap) outcome \<Rightarrow> ('r \<times> AllocationTable \<times> heap) outcome \<Rightarrow> bool" where
  "same_result \<equiv> rel_sum (=) (rel_prod (=) (rel_prod same_contents (=)))"

lemma um_find_ext:
  "um_find (um_set k v m) = (um_find m)(k \<mapsto> v)"
  "um_find (um_emplace k v m) = (case um_find m k of None \<Rightarrow> (um_find m)(k \<mapsto> v) | Some _ \<Rightarrow> um_find m)"
  "um_find (um_modify k f m) = (um_find m)(k := map_option f (um_find m k))"
  "um_find (um_erase k m) = (um_find m)(k := None)"
  by (fact um.find_put um.find_emplace um.find_modify um.find_erase)+

lemma same_update:
  "same_contents T U \<Longrightarrow> same_contents (update_info r f T) (update_info r f U)"
  by (auto simp: same_contents_def deref_update suspicious_update)

lemma same_set:
  assumes "same_contents T U"
  shows "um_find l = um_find l' \<Longrightarrow> same_contents (T\<lparr>m_lightAllocationsByAddress := l\<rparr>) (U\<lparr>m_lightAllocationsByAddress := l'\<rparr>)"
    and "um_find c = um_find c' \<Longrightarrow> same_contents (T\<lparr>m_closelyWatchedAllocationsByAddress := c\<rparr>) (U\<lparr>m_closelyWatchedAllocationsByAddress := c'\<rparr>)"
    and "n = n' \<Longrightarrow> same_contents (T\<lparr>countLiveCloselyWatchedAllocationsAllTraces := n\<rparr>)
      (U\<lparr>countLiveCloselyWatchedAllocationsAllTraces := n'\<rparr>)"
    and "s = s' \<Longrightarrow> same_contents (T\<lparr>m_stats := s\<rparr>) (U\<lparr>m_stats := s'\<rparr>)"
  using assms by (simp_all add: same_contents_def)

lemma same_fields:
  assumes "same_contents T U"
  shows "um_find (light T) = um_find (light U)" "um_find (closely T) = um_find (closely U)"
    "deref_info T = deref_info U" "m_stats T = m_stats U"
    "countLiveCloselyWatchedAllocationsAllTraces T = countLiveCloselyWatchedAllocationsAllTraces U"
    "um_find (suspicious T) fp = None \<longleftrightarrow> um_find (suspicious U) fp = None"
  using assms by (simp_all add: same_contents_def)

lemma same_count:
  assumes "same_contents T U"
  shows "same_contents (count_allocation t T) (count_allocation t U)"
    "same_contents (count_realloc t T) (count_realloc t U)"
    "same_contents (count_free t T) (count_free t U)"
    "same_contents (count_suspicious_allocation T) (count_suspicious_allocation U)"
  using assms
  by (simp_all add: count_allocation_def count_realloc_def count_free_def count_suspicious_allocation_def
      Let_def same_fields(4) [OF assms] same_set(4))

lemma same_getOrCreate:
  assumes "same_contents T U" and "um_find (suspicious T) fp \<noteq> None"
  shows "same_contents (T\<lparr>m_suspiciousFingerprints := um_modify fp (getOrCreate st) (suspicious T)\<rparr>)
    (U\<lparr>m_suspiciousFingerprints := um_modify fp (getOrCreate st) (suspicious U)\<rparr>)"
proof -
  have D: "deref_info (V\<lparr>m_suspiciousFingerprints := um_modify fp (getOrCreate st) (suspicious V)\<rparr>)
      = (deref_info V)((fp, st) := Some (case deref_info V (fp, st) of
          None \<Rightarrow> WatchedStackTraceInfo_construct st | Some info \<Rightarrow> info))"
    if "um_find (suspicious V) fp \<noteq> None" for V
    using that
    by (intro ext) (auto simp: deref_info_def um_simps getOrCreate_def prod_eq_iff split: option.split)
  from assms have "um_find (suspicious U) fp \<noteq> None" by (simp add: same_contents_def)
  from D [OF assms(2)] D [OF this] assms(1) show ?thesis by (simp add: same_contents_def)
qed

section \<open>The locked operations\<close>

lemma same_track_closely:
  "same_contents T U \<Longrightarrow> same_contents (track_closely w m n r T) (track_closely w m n r U)"
  unfolding track_closely_def Let_def
  by (intro same_set same_update) (simp_all add: same_fields um_find_ext)

lemma same_allocate_closely:
  assumes "same_contents T U"
  shows "same_result (allocate_closely w n al zf r T h) (allocate_closely w n al zf r U h)"
proof (cases "real_memalign_call w (to_uint64 (max al (pageSize (environment w))))
    (to_uint64 (roundUpToPageMultiple (environment w) n)) h")
  case (Pair m h1)
  then show ?thesis
    using assms
    by (cases "bzero m (unat n) h1") (auto simp: allocate_closely_def Let_def same_track_closely)
qed

lemma same_allocate:
  assumes "same_contents T U"
  shows "same_result (allocate_locked w n al fp f zf T h) (allocate_locked w n al fp f zf U h)"
proof -
  let ?c = "\<lambda>T. count_allocation (clock_now w) T" and ?s = "count_suspicious_allocation"
  let ?g = "\<lambda>T. T\<lparr>m_suspiciousFingerprints := um_modify fp (getOrCreate (current_trace w)) (suspicious T)\<rparr>"
  let ?r = "(fp, current_trace w)"
  obtain m h1 where f: "f h = (m, h1)" by force
  have C: "same_contents (?c T) (?c U)" using assms by (rule same_count)
  show ?thesis
  proof (cases "um_find (suspicious (?c T)) fp = None")
    case True
    then have "um_find (suspicious (?c U)) fp = None" using same_fields(6) [OF C] by blast
    moreover have "same_contents (track_light w m n fp (?c T)) (track_light w m n fp (?c U))"
      using C by (auto simp: track_light_def um_find_ext same_fields(1) [OF assms] intro: same_set)
    ultimately show ?thesis
      using True C f by (auto simp: allocate_locked_def Let_def getSuspiciousStackTracesTable_def)
  next
    case False
    then have F: "um_find (suspicious (?c U)) fp \<noteq> None" unfolding same_fields(6) [OF C] .
    have G: "same_contents (?g (?s (?c T))) (?g (?s (?c U)))"
      using same_count(4) [OF C] False
      by (intro same_getOrCreate) (simp_all add: count_suspicious_allocation_def)
    note S = same_fields(3,5) [OF G] same_update [OF G] same_allocate_closely [OF G]
    show ?thesis
      using False F f S
      by (auto simp: allocate_locked_def Let_def getSuspiciousStackTracesTable_def split: option.split)
  qed
qed

lemma same_untrack:
  assumes "same_contents T U"
  shows "rel_sum (=) same_contents (untrack m T) (untrack m U)"
proof -
  note F = same_fields [OF assms]
  show ?thesis
    using assms
    by (auto simp: untrack_def untrack_closely_def Let_def F um_find_ext split: option.split
        intro!: same_set same_update)
qed

lemma same_free:
  assumes "same_contents T U"
  shows "same_result (free_locked w m f T h) (free_locked w m f U h)"
  using same_untrack [OF same_count(3) [OF assms], of m "clock_now w"]
  by (cases "f h") (auto simp: free_locked_def elim!: rel_sum.cases)

lemma find_move_ext:
  assumes "um_find m = um_find m'"
  shows "um_find (move_entry q r a m) = um_find (move_entry q r a m')"
  by (rule ext) (auto simp: move_entry_def um_simps assms split: option.split)

lemma same_reallocate:
  assumes "same_contents T U"
  shows "same_result (reallocate_locked w q sz f T h) (reallocate_locked w q sz f U h)"
proof -
  let ?c = "\<lambda>T. count_realloc (clock_now w) T"
  have C: "same_contents (?c T) (?c U)" using assms by (rule same_count)
  note F = same_fields(1,2) [OF assms]
  obtain m h1 where f: "f h = (m, h1)" by force
  have L: "same_result (reallocate_light q sz f a (?c T) h) (reallocate_light q sz f a (?c U) h)" for a
    using C by (auto simp: reallocate_light_def Let_def f F um_find_ext intro!: same_set find_move_ext)
  have W: "same_result (reallocate_closely w q sz a (?c T) h) (reallocate_closely w q sz a (?c U) h)" for a
  proof (cases "real_memalign_call w (to_uint64 (pageSize (environment w)))
      (to_uint64 (roundUpToPageMultiple (environment w) (to_uint32 sz))) h")
    case (Pair r h2)
    then show ?thesis
      using C by (cases "memcpy r q (unat (requestedSize a)) h2")
        (auto simp: reallocate_closely_def Let_def F um_find_ext intro!: same_set find_move_ext)
  qed
  show ?thesis
    using C L W f F by (auto simp: reallocate_locked_def Let_def split: option.split)
qed

section \<open>The patrol\<close>

lemma same_elements:
  assumes "um_ok xs" and "um_ok ys" and "um_find xs = um_find ys"
  shows "mset xs = mset ys"
proof -
  have "distinct xs" "distinct ys" using assms(1,2) by (auto simp: um_ok_def distinct_map)
  moreover have "set xs = set ys"
    using um_find_elems [OF assms(1)] um_find_elems [OF assms(2)] assms(3) by auto
  ultimately show ?thesis by (simp add: set_eq_iff_mset_eq_distinct)
qed

lemma num_entries_mset: "mset xs = mset ys \<Longrightarrow> num_entries P xs = num_entries P ys"
  unfolding num_entries_def by (metis mset_filter size_mset)

lemma leak_all_fold: "leak_all as = fold (\<lambda>a. count_leaked (requestedSize a)) as"
  by (rule ext) (simp add: leak_all_def foldl_conv_fold)

lemma leak_all_mset:
  assumes "mset as = mset bs"
  shows "leak_all as = leak_all bs"
  unfolding leak_all_fold
proof (rule fold_multiset_equiv [OF _ assms])
  show "count_leaked (requestedSize a) \<circ> count_leaked (requestedSize b)
      = count_leaked (requestedSize b) \<circ> count_leaked (requestedSize a)" for a b :: CloselyWatchedAllocation
    by (auto simp: fun_eq_iff count_leaked_def algebra_simps)
qed

lemma same_patrol:
  assumes "same_contents T U" and "table_ok T" and "table_ok U"
    and "patrolThreadUpdateAllocationStates env time T = Inr ((stats, leaks), T')"
  shows "\<exists>leaks' U'. patrolThreadUpdateAllocationStates env time U = Inr ((stats, leaks'), U')
    \<and> mset leaks' = mset leaks \<and> same_contents T' U'"
proof -
  let ?now = "to_uint32 time"
  have oks: "um_ok (light T)" "um_ok (light U)" "um_ok (closely T)" "um_ok (closely U)"
    using assms(2,3) by (simp_all add: table_ok_defs)
  note F = same_fields [OF assms(1)]
  note L = same_elements [OF oks(1,2) F(1)] and W = same_elements [OF oks(3,4) F(2)]
  from patrol_result [OF assms(2), of env time] assms(4) have T': "stats = m_stats T"
    "leaks = found_leaks ?now (closely T)" "table_ok T'" "m_stats T' = m_stats T"
    "light T' = filter (\<lambda>(k, a). \<not> expired ?now a) (light T)" "closely T' = kept_entries env ?now (closely T)"
    by auto
  from patrol_result [OF assms(3), of env time] obtain U' where
    U': "patrolThreadUpdateAllocationStates env time U = Inr ((m_stats U, found_leaks ?now (closely U)), U')"
    "table_ok U'" "m_stats U' = m_stats U" "light U' = filter (\<lambda>(k, a). \<not> expired ?now a) (light U)"
    "closely U' = kept_entries env ?now (closely U)" by blast
  have leaks: "mset (found_leaks ?now (closely U)) = mset leaks"
    unfolding T'(2) found_leaks_def mset_map mset_filter W ..
  have light: "um_find (light T') = um_find (light U')"
    unfolding T'(5) U'(4) by (rule ext) (simp add: um_find_filter oks F(1))
  have closely: "um_find (closely T') = um_find (closely U')"
    unfolding T'(6) U'(5) by (rule ext) (simp add: um_find_kept oks F(2))
  have infos: "deref_info T' = deref_info U'"
  proof
    fix r
    have "mset (leaky ?now r (closely T)) = mset (leaky ?now r (closely U))"
      unfolding leaky_def mset_map mset_filter W ..
    from leak_all_mset [OF this] show "deref_info T' r = deref_info U' r"
      unfolding patrol_infos(1) [OF assms(4)] patrol_infos(1) [OF U'(1)] by (simp add: F(3))
  qed
  have "set (light T) = set (light U)" using L by (metis set_mset_mset)
  then have fps: "um_find (suspicious T') fp = None \<longleftrightarrow> um_find (suspicious U') fp = None" for fp
    using patrol_infos(2) [OF assms(4), of fp] patrol_infos(2) [OF U'(1), of fp] F(6) [of fp] by auto
  have "mset (closely T') = mset (closely U')"
    using closely T'(3) U'(2) by (intro same_elements) (simp_all add: table_ok_def maps_ok_def)
  from num_entries_mset [OF this, of "\<lambda>_ _. True"] T'(3) U'(2)
  have "unat (countLiveCloselyWatchedAllocationsAllTraces T') = unat (countLiveCloselyWatchedAllocationsAllTraces U')"
    by (simp add: table_ok_def census_ok_def)
  then have "countLiveCloselyWatchedAllocationsAllTraces T' = countLiveCloselyWatchedAllocationsAllTraces U'"
    by (rule unsigned_word_eqI)
  then have "same_contents T' U'"
    using light closely infos fps by (simp add: same_contents_def T'(4) U'(3) F(4))
  with U'(1) leaks T'(1) F(4) show ?thesis by auto
qed

section \<open>Steps and runs\<close>

definition same_process :: "Process \<Rightarrow> Process \<Rightarrow> bool" where
  "same_process p q \<longleftrightarrow> same_contents (table p) (table q) \<and> proc_heap p = proc_heap q
     \<and> thread_inLibrary p = thread_inLibrary q"

fun same_action :: "Action \<Rightarrow> Action \<Rightarrow> bool" where
  "same_action (Patrolled now leaks) (Patrolled now' leaks') = (now = now' \<and> mset leaks = mset leaks')"
| "same_action x y = (x = y)"

lemma same_bypass: "same_process p q \<Longrightarrow> bypass w p = bypass w q"
  by (simp add: same_process_def bypass_def)

lemma same_untracked: "same_process p q \<Longrightarrow> untracked m p = untracked m q"
  by (simp add: same_process_def same_contents_def untracked_def)

lemma same_realloc_fine:
  assumes "same_process p q"
  shows "realloc_fine w k m sz f p = realloc_fine w k m sz f q"
proof -
  have same: "same_contents (table p) (table q)" "proc_heap p = proc_heap q"
    using assms by (simp_all add: same_process_def)
  show ?thesis
    unfolding realloc_fine_def same_bypass [OF assms] same_untracked [OF assms] same(2) same_fields(1,2) [OF same(1)] ..
qed

lemma same_run_locked:
  assumes "same_process p q" and "run_locked body p = Inr (r, p')"
    and "\<And>T U h. same_contents T U \<Longrightarrow> same_result (body T h) (body U h)"
  shows "\<exists>q'. run_locked body q = Inr (r, q') \<and> same_process p' q'"
proof -
  from assms(1) have same: "same_contents (table p) (table q)" "proc_heap q = proc_heap p"
    "thread_inLibrary q = thread_inLibrary p" by (simp_all add: same_process_def)
  from assms(2) obtain T h where flag: "\<not> thread_inLibrary p" and body: "body (table p) (proc_heap p) = Inr (r, T, h)"
    and p': "p' = p\<lparr>table := T, proc_heap := h, thread_inLibrary := False\<rparr>"
    by (cases "thread_inLibrary p") (auto simp: run_locked_def andThen_Inr_iff)
  from assms(3) [OF same(1), of "proc_heap p"] body obtain U where
    "body (table q) (proc_heap q) = Inr (r, U, h)" "same_contents T U"
    by (auto simp: same(2) elim!: rel_sum.cases)
  from run_locked_Inr [of body, OF this(1)] flag same(3) this(2) show ?thesis
    by (simp add: p' same_process_def)
qed

lemma same_call_directly:
  "same_process p q \<Longrightarrow> call_directly f p = Inr (r, p') \<Longrightarrow>
     \<exists>q'. call_directly f q = Inr (r, q') \<and> same_process p' q'"
  by (auto simp: call_directly_def same_process_def split: prod.splits)

lemma same_instrumented:
  assumes "same_process p q"
  shows "instrumentedAllocate w n al fp f zf p = Inr (r, p') \<Longrightarrow>
      \<exists>q'. instrumentedAllocate w n al fp f zf q = Inr (r, q') \<and> same_process p' q'"
    and "instrumentedReallocate w m sz f p = Inr (r, p') \<Longrightarrow>
      \<exists>q'. instrumentedReallocate w m sz f q = Inr (r, q') \<and> same_process p' q'"
  using same_call_directly [OF assms, of f r p']
    same_run_locked [OF assms, of "allocate_locked w n al fp f zf" r p'] same_allocate
    same_run_locked [OF assms, of "reallocate_locked w m sz f" r p'] same_reallocate
  by (auto simp: instrumentedAllocate_def instrumentedReallocate_def same_bypass [OF assms] split: if_splits)

lemma same_instrumentedFree:
  assumes "same_process p q" and "instrumentedFree w m f p = Inr (u, p')"
  shows "\<exists>q'. instrumentedFree w m f q = Inr (u, q') \<and> same_process p' q'"
proof (cases "m = nullptr")
  case False
  let ?go = "\<lambda>p. if bypass w p then call_directly f p else run_locked (free_locked w m f) p"
  from False assms(2) obtain r where go: "?go p = Inr (r, p')" and u: "u = Some r"
    by (auto simp: instrumentedFree_def andThen_Inr_iff split: if_splits)
  have locked: "\<exists>q'. run_locked (free_locked w m f) q = Inr (r, q') \<and> same_process p' q'"
    if "run_locked (free_locked w m f) p = Inr (r, p')"
    by (rule same_run_locked [OF assms(1) that]) (rule same_free)
  with go have "\<exists>q'. ?go q = Inr (r, q') \<and> same_process p' q'"
    using same_call_directly [OF assms(1), of f r p'] by (simp add: same_bypass [OF assms(1)] split: if_splits)
  with False u show ?thesis by (auto simp: instrumentedFree_def andThen_Inr_iff)
qed (use assms in \<open>auto simp: instrumentedFree_def\<close>)

lemma same_act:
  assumes "act env k clock p x p'" and "same_process p q" and "system_ok env k p" and "system_ok env k q"
  shows "\<exists>y q'. act env k clock q y q' \<and> same_action x y \<and> same_process p' q'"
  using assms(1)
proof cases
  case (act_allocate w n f al fp zf r)
  from same_instrumented(1) [OF assms(2) act_allocate(7)] obtain q' where
    "instrumentedAllocate w n al fp f zf q = Inr (r, q')" "same_process p' q'" by blast
  with act.act_allocate [where clock = clock, OF act_allocate(2-6) this(1)] act_allocate(1) show ?thesis
    by (intro exI [of _ "Allocated r"]) auto
next
  case (act_free w m f u)
  from same_instrumentedFree [OF assms(2) act_free(5)] obtain q' where
    q': "instrumentedFree w m f q = Inr (u, q')" "same_process p' q'" by blast
  have "bypass w q \<Longrightarrow> untracked m q"
    using act_free(4) same_bypass [OF assms(2)] same_untracked [OF assms(2)] by blast
  from act.act_free [where clock = clock, OF act_free(2,3) this q'(1)] q'(2) act_free(1) show ?thesis
    by (intro exI [of _ "Freed m"]) auto
next
  case (act_realloc w j m f sz r)
  from same_instrumented(2) [OF assms(2) act_realloc(6)] obtain q' where
    q': "instrumentedReallocate w m sz f q = Inr (r, q')" "same_process p' q'" by blast
  have "realloc_fine w k m sz f q" using act_realloc(5) same_realloc_fine [OF assms(2)] by blast
  from act.act_realloc [where clock = clock, OF act_realloc(2-4) this q'(1)] q'(2) act_realloc(1) show ?thesis
    by (intro exI [of _ "Reallocated m r"]) auto
next
  case (act_patrol time stats leaks T')
  have "same_contents (table p) (table q)" "table_ok (table p)" "table_ok (table q)"
    using assms(2-4) by (simp_all add: same_process_def sys_ok_def)
  from same_patrol [OF this act_patrol(4)] obtain leaks' U' where
    U': "patrolThreadUpdateAllocationStates env time (table q) = Inr ((stats, leaks'), U')"
      "mset leaks' = mset leaks" "same_contents T' U'" by blast
  from act.act_patrol [where clock = clock, OF act_patrol(3) U'(1)] U'(2,3) act_patrol(1,2) assms(2) show ?thesis
    by (intro exI [of _ "Patrolled (to_uint32 time) leaks'"] exI [of _ "q\<lparr>table := U'\<rparr>"])
      (simp add: same_process_def)
next
  case (act_thread flag)
  with assms(2) act.act_thread [of env k clock q flag] show ?thesis
    by (intro exI [of _ ThreadSwitch] exI [of _ "q\<lparr>thread_inLibrary := flag\<rparr>"]) (simp add: same_process_def)
next
  case (act_write h)
  then have "blocks h = blocks (proc_heap q)" using assms(2) by (simp add: same_process_def)
  from act.act_write [where clock = clock, OF this] assms(2) act_write(1,2) show ?thesis
    by (intro exI [of _ Written] exI [of _ "q\<lparr>proc_heap := h\<rparr>"]) (simp add: same_process_def)
qed

lemma same_run:
  assumes "run env k clock p xs p'" and "in_history env k clock (length xs) p"
    and "in_history env k clock (length xs) q" and "same_process p q"
  shows "\<exists>ys q'. run env k clock q ys q' \<and> list_all2 same_action xs ys \<and> same_process p' q'"
  using assms
proof (induction arbitrary: q rule: run.induct)
  case (run_nil p)
  then show ?case by (auto intro!: exI [of _ "[]"] run.run_nil)
next
  case (run_cons p x p1 xs p')
  from same_act [OF run_cons.hyps(1) run_cons.prems(3) in_history_ok [OF run_cons.prems(1)]
      in_history_ok [OF run_cons.prems(2)]]
  obtain y q1 where y: "act env k clock q y q1" "same_action x y" "same_process p1 q1" by blast
  have "in_history env k clock (length xs) p1" "in_history env k clock (length xs) q1"
    using run_cons.prems(1,2) run_cons.hyps(1) y(1) by (auto intro: in_history_act)
  from run_cons.IH [OF this y(3)] obtain ys q' where "run env k clock q1 ys q'"
    "list_all2 same_action xs ys" "same_process p' q'" by blast
  with y show ?case by (intro exI [of _ "y # ys"] exI [of _ q']) (auto intro: run.run_cons)
qed

text \<open>
  C11. The iteration order of the hash maps cannot be observed: if two processes hold the same elements
  in their tables, in whatever order, then any run of one can be followed by the other step
  by step, with the same results of all allocations, reallocations and frees, the same patrols with the
  same leaks up to the order inside one patrol, and processes with the same elements in their tables again.
\<close>

theorem iteration_order_unobservable:
  assumes "history env k clock n p" and "history env k clock n' q" and "page_env env k"
    and "n + length xs < 2 ^ 32" and "n' + length xs < 2 ^ 32" and "same_process p q"
    and "run env k clock p xs p'"
  shows "\<exists>ys q'. run env k clock q ys q' \<and> list_all2 same_action xs ys \<and> same_process p' q'"
  by (rule same_run [OF assms(7) _ _ assms(6)]) (use assms(1-5) in \<open>auto simp: in_history_def\<close>)

text \<open>Two blocks allocated in one order and in the other.\<close>

definition two_blocks :: "ptr \<Rightarrow> ptr \<Rightarrow> Process" where
  "two_blocks a b = empty_process\<lparr>table := (count_allocation 5 (count_allocation 5 emptyTable))
       \<lparr>m_lightAllocationsByAddress := [(a, light_entry\<lparr>alloc_memory := a\<rparr>), (b, light_entry\<lparr>alloc_memory := b\<rparr>)]\<rparr>,
     proc_heap := (proc_heap empty_process)\<lparr>blocks := [a \<mapsto> 100, b \<mapsto> 100]\<rparr>\<rparr>"

lemma two_blocks_history:
  assumes "a \<noteq> nullptr" and "b \<noteq> nullptr" and "a \<noteq> b"
  shows "history sample_env 12 (no_wrap sample_env) 2 (two_blocks a b)"
proof -
  let ?H = "history sample_env 12 (no_wrap sample_env)"
  define one where "one = empty_process\<lparr>table := (count_allocation 5 emptyTable)
       \<lparr>m_lightAllocationsByAddress := [(a, light_entry\<lparr>alloc_memory := a\<rparr>)]\<rparr>,
     proc_heap := (proc_heap empty_process)\<lparr>blocks := [a \<mapsto> 100]\<rparr>\<rparr>"
  have a: "instrumentedAllocate sample_surroundings 100 1 7 (alloc_at a 100) Unnecessary empty_process = Inr (a, one)"
    using assms(1)
    by (simp add: instrumentedAllocate_def allocate_locked_def run_locked_def Let_def alloc_at_def
      getSuspiciousStackTracesTable_def um_simps track_light_def one_def light_entry_def um_set_def
      empty_process_def sample_env_def bypass_def inLibrary_def)
  have b: "instrumentedAllocate sample_surroundings 100 1 7 (alloc_at b 100) Unnecessary one = Inr (b, two_blocks a b)"
    using assms
    by (simp add: instrumentedAllocate_def allocate_locked_def run_locked_def Let_def alloc_at_def
      getSuspiciousStackTracesTable_def um_simps track_light_def one_def two_blocks_def light_entry_def um_set_def
      empty_process_def sample_env_def bypass_def inLibrary_def count_allocation_def)
  have 0: "?H 0 empty_process" by (rule history_start) simp
  have 1: "?H (Suc 0) one"
    by (rule history_step [OF 0 step_allocate [OF _ _ sample_memalign _ _ a]])
      (simp_all add: no_wrap_def sample_env_def allocates_alloc_at)
  have "?H (Suc (Suc 0)) (two_blocks a b)"
    by (rule history_step [OF 1 step_allocate [OF _ _ sample_memalign _ _ b]])
      (simp_all add: no_wrap_def sample_env_def allocates_alloc_at)
  then show ?thesis by (simp add: numeral_2_eq_2)
qed

lemma two_blocks_same:
  assumes "a \<noteq> b"
  shows "same_process (two_blocks a b) (two_blocks b a)"
  using assms by (auto simp: same_process_def same_contents_def two_blocks_def um_find_def fun_eq_iff deref_info_def)

theorem iteration_order_unobservable_witness:
  "light (table (two_blocks 65536 131072)) \<noteq> light (table (two_blocks 131072 65536))
    \<and> (\<exists>p' ys q'. run sample_env 12 (no_wrap sample_env) (two_blocks 65536 131072) [Patrolled 1031 []] p'
      \<and> run sample_env 12 (no_wrap sample_env) (two_blocks 131072 65536) ys q'
      \<and> list_all2 same_action [Patrolled 1031 []] ys \<and> same_process p' q')"
proof
  show "light (table (two_blocks 65536 131072)) \<noteq> light (table (two_blocks 131072 65536))"
    by (simp add: two_blocks_def light_entry_def)
  let ?p = "two_blocks 65536 131072" and ?q = "two_blocks 131072 65536"
  have h: "history sample_env 12 (no_wrap sample_env) 2 ?p" "history sample_env 12 (no_wrap sample_env) 2 ?q"
    by (simp_all add: two_blocks_history)
  have "table_ok (table ?p)" using history_ok [OF h(1) page_sample_env] by (simp add: sys_ok_def)
  from patrol_result [OF this, of sample_env 1031] obtain T' where
    T': "patrolThreadUpdateAllocationStates sample_env 1031 (table ?p) = Inr ((m_stats (table ?p), []), T')"
    by (auto simp: two_blocks_def found_leaks_def)
  have "act sample_env 12 (no_wrap sample_env) ?p (Patrolled (to_uint32 1031) []) (?p\<lparr>table := T'\<rparr>)"
    by (rule act.act_patrol [OF _ T']) (simp add: no_wrap_def sample_env_def)
  then have r: "run sample_env 12 (no_wrap sample_env) ?p [Patrolled 1031 []] (?p\<lparr>table := T'\<rparr>)"
    by (auto intro: run.intros)
  from iteration_order_unobservable [OF h page_sample_env _ _ two_blocks_same r] r
  show "\<exists>p' ys q'. run sample_env 12 (no_wrap sample_env) ?p [Patrolled 1031 []] p'
      \<and> run sample_env 12 (no_wrap sample_env) ?q ys q'
      \<and> list_all2 same_action [Patrolled 1031 []] ys \<and> same_process p' q'"
    by (simp del: list_all2_Cons1) blast
qed

end
