(* ===== verification/Leak_Pipeline.thy ===== *)
theory Leak_Pipeline
  imports Leak_Life
begin

text \<open>
  The whole way of a leak: a call site whose block outlives its deadline becomes suspicious, its next block is
  watched when the limits allow, and a watched block that is forgotten is reported.
\<close>

section \<open>From a leaking call site to its report\<close>

lemma allocate_suspicious:
  assumes "allocate_locked w n al fp f zf T h = Inr (r, T', h')"
  shows "um_find (suspicious T') q = None \<longleftrightarrow> um_find (suspicious T) q = None"
  using assms
  by (auto simp: allocate_locked_def allocate_closely_def track_light_def track_closely_def Let_def
      suspicious_update andThen_Inr_iff split: option.splits prod.splits if_splits)

lemma untrack_suspicious:
  assumes "untrack m T = Inr T'"
  shows "um_find (suspicious T') q = None \<longleftrightarrow> um_find (suspicious T) q = None"
  using assms
  by (auto simp: untrack_def untrack_closely_def Let_def suspicious_update split: option.splits)

lemma reallocate_suspicious:
  assumes "reallocate_locked w m sz f T h = Inr (r, T', h')"
  shows "suspicious T' = suspicious T"
  using assms
  by (auto simp: reallocate_locked_def reallocate_light_def reallocate_closely_def Let_def
      andThen_Inr_iff split: option.splits prod.splits if_splits)

text \<open>A suspicious fingerprint stays suspicious.\<close>

lemma act_suspicious:
  assumes "act env k clock p x p'" and "um_find (suspicious (table p)) q \<noteq> None"
  shows "um_find (suspicious (table p')) q \<noteq> None"
  using assms(1)
proof cases
  case (act_allocate w n f al fp zf r)
  from act_allocate(7) show ?thesis
    by (cases rule: instrumentedAllocate_cases) (use assms(2) in \<open>simp_all add: allocate_suspicious del: not_None_eq\<close>)
next
  case (act_free w m f u)
  from act_free(5) show ?thesis
    by (cases rule: instrumentedFree_cases) (use assms(2) in \<open>simp_all add: untrack_suspicious del: not_None_eq\<close>)
next
  case (act_realloc w j m f sz r)
  from act_realloc(6) show ?thesis
    by (cases rule: instrumentedReallocate_cases) (use assms(2) in \<open>simp_all add: reallocate_suspicious del: not_None_eq\<close>)
next
  case (act_patrol time stats leaks T')
  with assms(2) patrol_infos(2) [OF act_patrol(4), of q] show ?thesis by simp
next
  case (act_thread flag)
  with assms(2) show ?thesis by simp
next
  case (act_write h)
  with assms(2) show ?thesis by simp
qed

lemma run_suspicious:
  "run env k clock p xs p' \<Longrightarrow> um_find (suspicious (table p)) q \<noteq> None \<Longrightarrow> um_find (suspicious (table p')) q \<noteq> None"
  by (induction rule: run.induct) (auto dest: act_suspicious)

text \<open>A light allocation that is overdue at a patrol has made its fingerprint suspicious.\<close>

lemma overdue_suspicious:
  assumes "act env k clock p (Patrolled now leaks) p'" and "system_ok env k p"
    and "um_find (light (table p)) m = Some a" and "deadline a < now"
  shows "um_find (suspicious (table p')) (fingerprint a) \<noteq> None"
proof -
  have ok: "um_ok (light (table p))" using assms(2) by (simp add: sys_ok_def table_ok_defs)
  from assms(1) obtain time stats T' where now: "now = to_uint32 time"
    and upd: "patrolThreadUpdateAllocationStates env time (table p) = Inr ((stats, leaks), T')"
    and p': "p' = p\<lparr>table := T'\<rparr>" by (auto elim: act_patrolE)
  have "(m, a) \<in> set (light (table p))" using assms(3) ok by (simp add: um_find_elems)
  with assms(4) show ?thesis
    unfolding p' by (simp add: patrol_infos(2) [OF upd] now expired_def del: not_None_eq) force
qed

lemma untouched_light:
  assumes "run env k clock p xs p'" and "in_history env k clock (length xs) p"
    and "list_all (\<lambda>x. \<not> touches m x) xs" and "um_find (light (table p)) m = Some a"
    and "list_ex (\<lambda>t. deadline a < t) (patrol_times xs)"
  shows "um_find (suspicious (table p')) (fingerprint a) \<noteq> None"
  using assms
proof (induction rule: run.induct)
  case (run_cons p x p1 xs p')
  then have H: "in_history env k clock (length xs) p1" by (auto intro: in_history_act)
  have S: "system_ok env k p" using run_cons.prems(1) by (rule in_history_ok)
  then have m: "m \<noteq> nullptr" "blocks (proc_heap p) m \<noteq> None"
    using run_cons.prems(3) by (force simp: sys_ok_def memory_ok_def)+
  show ?case
  proof (cases "list_ex (\<lambda>t. deadline a < t) (patrol_times [x])")
    case True
    then obtain now leaks where "x = Patrolled now leaks" "deadline a < now" by (cases x) auto
    with overdue_suspicious [OF _ S run_cons.prems(3)] run_cons.hyps run_suspicious show ?thesis by blast
  next
    case False
    have "in_history env k clock (length [x]) p" using run_cons.prems(1) by (rule in_history_less) simp
    from untouched_life [OF run.run_cons [OF run_cons.hyps(1) run.run_nil] this] run_cons.prems(2,3) m False
    have "um_find (light (table p1)) m = Some a" by (simp split: if_splits)
    with run_cons.IH [OF H] run_cons.prems(2,4) False show ?thesis by (auto simp: list_ex_iff)
  qed
qed simp

text \<open>An allocation that the library watches over: the calling thread is outside the library.\<close>

definition allocates_in :: "Environment \<Rightarrow> nat \<Rightarrow> (uint64 \<Rightarrow> bool) \<Rightarrow> Surroundings \<Rightarrow> uint32 \<Rightarrow>
    CallstackFingerprint \<Rightarrow> ptr \<Rightarrow> Process \<Rightarrow> Process \<Rightarrow> bool" where
  "allocates_in env k clock w n fp m p p' \<longleftrightarrow> environment w = env \<and> clock (time_now w) \<and> memalign_ok w
     \<and> \<not> bypass w p \<and> unat n + 2 ^ k \<le> 2 ^ 32 \<and> m \<noteq> nullptr
     \<and> (\<exists>al f zf. allocates (unat n) f \<and> instrumentedAllocate w n al fp f zf p = Inr (m, p'))"

lemma allocates_in_act: "allocates_in env k clock w n fp m p p' \<Longrightarrow> act env k clock p (Allocated m) p'"
  by (auto simp: allocates_in_def intro: act_allocate)

lemma allocates_in_locked:
  assumes "allocates_in env k clock w n fp m p p'"
  obtains al f zf where "allocate_locked w n al fp f zf (table p) (proc_heap p) = Inr (m, table p', proc_heap p')"
  using assms
  by (auto simp: allocates_in_def instrumentedAllocate_def run_locked_def in_scope_def andThen_Inr_iff
      split: prod.splits)

lemma allocates_in_track_light:
  assumes "allocates_in env k clock w n fp m p p'" and "um_find (suspicious (table p)) fp = None"
  shows "table p' = track_light w m n fp (count_allocation (clock_now w) (table p))"
proof -
  from assms(1) have "m \<noteq> nullptr" by (simp add: allocates_in_def)
  moreover from assms(1) obtain al f zf where
    "allocate_locked w n al fp f zf (table p) (proc_heap p) = Inr (m, table p', proc_heap p')"
    by (rule allocates_in_locked)
  ultimately show ?thesis
    using assms(2)
    by (auto simp: allocate_locked_def Let_def getSuspiciousStackTracesTable_def split: prod.splits if_splits)
qed

lemma allocates_in_light:
  assumes "allocates_in env k clock w n fp m p p'" and "um_find (suspicious (table p)) fp = None"
  shows "\<exists>a. um_find (light (table p')) m = Some a \<and> fingerprint a = fp
    \<and> deadline a = to_uint32 (time_now w + to_uint64 (timeForAllocationToBecomeSuspicious env))"
  using assms(1) allocates_in_track_light [OF assms]
  by (simp add: allocates_in_def track_light_def um_simps)

text \<open>Whether the table wants to watch one more allocation of a stack trace.\<close>

definition wanted :: "Environment \<Rightarrow> InfoRef \<Rightarrow> AllocationTable \<Rightarrow> bool" where
  "wanted env r T \<longleftrightarrow> needsMoreCloselyWatchedAllocations env (countLiveCloselyWatchedAllocationsAllTraces T)
     (case deref_info T r of None \<Rightarrow> WatchedStackTraceInfo_construct (snd r) | Some info \<Rightarrow> info)"

lemma allocates_in_watched:
  assumes "allocates_in env k clock w n fp m p p'" and "um_find (suspicious (table p)) fp \<noteq> None"
    and "wanted env (fp, current_trace w) (table p)"
  shows "um_find (closely (table p')) m = Some \<lparr>alloc_memory = m, requestedSize = n,
      deadline = to_uint32 (time_now w) + timeForAllocationToBecomeSuspicious env,
      watched_state = NotYetSuspicious, allocationTime = to_uint32 (time_now w),
      watchedStackTraceInfo = (fp, current_trace w)\<rparr>"
proof -
  let ?T2 = "count_suspicious_allocation (count_allocation (clock_now w) (table p))"
  let ?r = "(fp, current_trace w)"
  let ?T3 = "?T2\<lparr>m_suspiciousFingerprints := um_modify fp (getOrCreate (current_trace w)) (suspicious ?T2)\<rparr>"
  from assms(1) have e: "m \<noteq> nullptr" "environment w = env" by (simp_all add: allocates_in_def)
  from assms(1) obtain al f zf where
    body: "allocate_locked w n al fp f zf (table p) (proc_heap p) = Inr (m, table p', proc_heap p')"
    by (rule allocates_in_locked)
  from assms(2) obtain traces where traces: "um_find (suspicious (table p)) fp = Some traces" by blast
  have "deref_info ?T3 ?r = Some (case deref_info (table p) ?r of
      None \<Rightarrow> WatchedStackTraceInfo_construct (snd ?r) | Some info \<Rightarrow> info)"
    by (auto simp: deref_info_def traces um_simps getOrCreate_def split: option.split)
  with assms(3) e have more: "\<exists>info. deref_info ?T3 ?r = Some info
      \<and> needsMoreCloselyWatchedAllocations env (countLiveCloselyWatchedAllocationsAllTraces ?T3) info"
    by (simp add: wanted_def)
  with body traces e have "allocate_closely w n al zf ?r ?T3 (proc_heap p) = Inr (m, table p', proc_heap p')"
    by (auto simp: allocate_locked_def Let_def getSuspiciousStackTracesTable_def)
  with e have "table p' = track_closely w m n ?r ?T3"
    by (auto simp: allocate_closely_def Let_def andThen_Inr_iff split: prod.splits if_splits)
  with e show ?thesis by (simp add: track_closely_def Let_def um_simps)
qed

lemma in_history_run:
  "run env k clock p xs p' \<Longrightarrow> in_history env k clock (length xs + len) p \<Longrightarrow> in_history env k clock len p'"
  by (induction rule: run.induct) (auto intro: in_history_act)

text \<open>
  C6. A leaking call site is found: a first block of a fingerprint is allocated and outlives, untouched,
  the time to become suspicious at some patrol; later a second block of the same fingerprint is
  allocated while the limits leave room to watch its stack trace, and is forgotten as well; once the patrols are due it is
  reported exactly once, with the stack trace of the second allocation and its size. In
  between, all threads may do anything else.
\<close>

theorem leaking_call_site_found:
  assumes "history env k clock n p0" and "page_env env k" and "n + length xs + length zs + 2 < 2 ^ 32"
    and "allocates_in env k clock w1 sz1 fp m1 p0 p1"
    and "run env k clock p1 xs p2" and "list_all (\<lambda>x. \<not> touches m1 x) xs"
    and "list_ex (\<lambda>t. to_uint32 (time_now w1 + to_uint64 (timeForAllocationToBecomeSuspicious env)) < t)
      (patrol_times xs)"
    and "allocates_in env k clock w2 sz2 fp m2 p2 p3" and "wanted env (fp, current_trace w2) (table p2)"
    and "run env k clock p3 zs p4" and "list_all (\<lambda>x. \<not> touches m2 x) zs"
    and "declared (to_uint32 (time_now w2) + timeForAllocationToBecomeSuspicious env)
      (closelyWatchedAllocationsAccessMaxInterval env) (patrol_times zs)"
  shows "reports m2 zs = [\<lparr>leak_stackTrace = current_trace w2, leak_memory = m2, leak_size = sz2\<rparr>]
    \<and> untracked m2 p4 \<and> blocks (proc_heap p4) m2 \<noteq> None"
proof -
  have H0: "in_history env k clock (Suc (length xs + Suc (length zs))) p0"
    using assms(1-3) by (auto simp: in_history_def)
  note H1 = in_history_act [OF H0 allocates_in_act [OF assms(4)]]
  note H2 = in_history_run [OF assms(5) H1]
  note H3 = in_history_act [OF H2 allocates_in_act [OF assms(8)]]
  have H1': "in_history env k clock (length xs) p1" using H1 unfolding in_history_def by auto
  have "um_find (suspicious (table p2)) fp \<noteq> None"
  proof (cases "um_find (suspicious (table p0)) fp = None")
    case True
    from allocates_in_light [OF assms(4) this] obtain a where "um_find (light (table p1)) m1 = Some a"
      "fingerprint a = fp"
      "deadline a = to_uint32 (time_now w1 + to_uint64 (timeForAllocationToBecomeSuspicious env))" by blast
    with untouched_light [OF assms(5) H1' assms(6)] assms(7) show ?thesis by auto
  next
    case False
    with act_suspicious [OF allocates_in_act [OF assms(4)]] run_suspicious [OF assms(5)] show ?thesis by blast
  qed
  from untouched_watched [OF assms(10) H3 assms(11) allocates_in_watched [OF assms(8) this assms(9)]] assms(12)
  show ?thesis by (simp add: found_leak_def)
qed

lemma sample_allocates:
  "allocates_in sample_env 12 (no_wrap sample_env) sample_surroundings 100 7 65536 empty_process run1"
  "allocates_in sample_env 12 (no_wrap sample_env) (sample_surroundings\<lparr>time_now := 1100\<rparr>) 5000 7 1048576 run2 run3"
proof -
  have o: "\<not> bypass sample_surroundings empty_process" "\<not> bypass (sample_surroundings\<lparr>time_now := 1100\<rparr>) run2"
    by (simp_all add: bypass_def inLibrary_def empty_process_def run2_def run1_def)
  show "allocates_in sample_env 12 (no_wrap sample_env) sample_surroundings 100 7 65536 empty_process run1"
    unfolding allocates_in_def
    using o run1 allocates_alloc_at [of 100 65536] sample_memalign
    by (intro conjI exI [of _ 1] exI [of _ "alloc_at 65536 100"] exI [of _ Unnecessary])
      (simp_all add: no_wrap_def sample_env_def)
  show "allocates_in sample_env 12 (no_wrap sample_env) (sample_surroundings\<lparr>time_now := 1100\<rparr>) 5000 7 1048576 run2 run3"
    unfolding allocates_in_def
    using o run3 [of "alloc_at 131072 5000"] allocates_alloc_at [of 5000 131072] sample_memalign
    by (intro conjI exI [of _ 1] exI [of _ "alloc_at 131072 5000"] exI [of _ Unnecessary])
      (simp_all add: no_wrap_def sample_env_def memalign_ok_def)
qed

lemma sample_wanted: "wanted sample_env (7, sample_trace) (table run2)"
  by (simp add: wanted_def needsMoreCloselyWatchedAllocations_def hasLeaks_def countFinishedWatchedAllocations_def
      WatchedStackTraceInfo_construct_def sample_env_def deref_info_def run2_def run1_def um_simps getOrCreate_def)

lemma sample_run2: "run sample_env 12 (no_wrap sample_env) run1 [Patrolled 1031 []] run2"
proof -
  have "act sample_env 12 (no_wrap sample_env) run1 (Patrolled (to_uint32 1031) []) (run1\<lparr>table := table run2\<rparr>)"
    by (rule act_patrol [OF _ run2]) (simp add: no_wrap_def sample_env_def)
  then show ?thesis by (auto simp: run2_def intro: run_cons run_nil)
qed

theorem leaking_call_site_found_witness:
  "reports 1048576 [Patrolled 1131 [], Patrolled 1133 [sample_leak]] = [sample_leak] \<and> untracked 1048576 run5"
proof -
  have "history sample_env 12 (no_wrap sample_env) 0 empty_process"
    by (rule history_start) simp
  from leaking_call_site_found [OF this page_sample_env _ sample_allocates(1) sample_run2 _ _ sample_allocates(2) _
      sample_run] sample_wanted
  show ?thesis by (simp add: sample_env_def sample_leak_def)
qed

end
