(* ===== verification/Leaking_App.thy ===== *)
theory Leaking_App
  imports Leak_Pipeline Wrapper_Malloc
begin

text \<open>
  \<^verbatim>\<open>leaking-app/leaking-app.cpp\<close> with \<^verbatim>\<open>dummy-lib/dummy-lib.cpp\<close>: the repository's program
  that forgets an int every second, run on the model under the library, up to the report of the leak.
\<close>

section \<open>The program\<close>

definition callMeBack :: "('s \<Rightarrow> 'r) \<Rightarrow> 's \<Rightarrow> 'r" where
  "callMeBack cb = cb"

text \<open>
  One turn of the loop: the standard library's operator new takes 4 bytes from malloc and throws
  an exception, which nobody catches, if there are none.
\<close>

definition operator_new :: "Glibc \<Rightarrow> Surroundings \<Rightarrow> CallSite \<Rightarrow> uint64 \<Rightarrow> Process \<Rightarrow> (ptr \<times> Process) outcome" where
  "operator_new g w c n p = andThen (malloc g w c n p) (\<lambda>(memory, p').
     if memory = nullptr then Inl Aborted else Inr (memory, p'))"

definition leaking_app_turn :: "Glibc \<Rightarrow> Surroundings \<Rightarrow> CallSite \<Rightarrow> Process \<Rightarrow> (ptr \<times> Process) outcome" where
  "leaking_app_turn g w c = callMeBack (operator_new g w c 4)"

text \<open>
  The endless loop is run for as many turns as the list of events has, between the runs of the
  patrol; the result is what happened and the process then.
\<close>

datatype AppEvent = Turn Surroundings | Patrol uint64

fun leaking_app_main ::
  "Environment \<Rightarrow> Glibc \<Rightarrow> CallSite \<Rightarrow> AppEvent list \<Rightarrow> Process \<Rightarrow> (Action list \<times> Process) outcome" where
  "leaking_app_main env g c [] p = Inr ([], p)"
| "leaking_app_main env g c (Turn w # es) p =
     andThen (leaking_app_turn g w c p) (\<lambda>(m, p1).
     andThen (leaking_app_main env g c es p1) (\<lambda>(xs, q). Inr (Allocated m # xs, q)))"
| "leaking_app_main env g c (Patrol time # es) p =
     andThen (patrolThreadUpdateAllocationStates env time (table p)) (\<lambda>((stats, leaks), T).
     andThen (leaking_app_main env g c es (p\<lparr>table := T\<rparr>)) (\<lambda>(xs, q).
       Inr (Patrolled (to_uint32 time) leaks # xs, q)))"

text \<open>A run that returns, event by event and split in two.\<close>

lemma app_turn_Inr:
  "leaking_app_main env g c (Turn w # es) p = Inr (xs, q) \<longleftrightarrow> (\<exists>m p1 ys. leaking_app_turn g w c p = Inr (m, p1)
     \<and> leaking_app_main env g c es p1 = Inr (ys, q) \<and> xs = Allocated m # ys)"
  by (auto simp: andThen_Inr_iff)

lemma app_patrol_Inr:
  "leaking_app_main env g c (Patrol time # es) p = Inr (xs, q) \<longleftrightarrow> (\<exists>stats leaks T ys.
     patrolThreadUpdateAllocationStates env time (table p) = Inr ((stats, leaks), T)
     \<and> leaking_app_main env g c es (p\<lparr>table := T\<rparr>) = Inr (ys, q) \<and> xs = Patrolled (to_uint32 time) leaks # ys)"
  by (auto simp: andThen_Inr_iff)

lemma app_main_induct [consumes 1, case_names Nil Turn Patrol]:
  assumes "leaking_app_main env g c es p = Inr (xs, q)" and "P [] q []"
    and "\<And>w es p m p1 xs. leaking_app_turn g w c p = Inr (m, p1) \<Longrightarrow> leaking_app_main env g c es p1 = Inr (xs, q) \<Longrightarrow>
      P es p1 xs \<Longrightarrow> P (Turn w # es) p (Allocated m # xs)"
    and "\<And>time es p stats leaks T xs. patrolThreadUpdateAllocationStates env time (table p) = Inr ((stats, leaks), T) \<Longrightarrow>
      leaking_app_main env g c es (p\<lparr>table := T\<rparr>) = Inr (xs, q) \<Longrightarrow> P es (p\<lparr>table := T\<rparr>) xs \<Longrightarrow>
      P (Patrol time # es) p (Patrolled (to_uint32 time) leaks # xs)"
  shows "P es p xs"
  using assms(1)
proof (induction es arbitrary: p xs)
  case Nil
  then show ?case using assms(2) by simp
next
  case (Cons e es)
  show ?case
  proof (cases e)
    case (Turn w)
    with Cons.prems obtain m p1 ys where "leaking_app_turn g w c p = Inr (m, p1)"
      "leaking_app_main env g c es p1 = Inr (ys, q)" "xs = Allocated m # ys"
      unfolding Turn app_turn_Inr by blast
    with assms(3) Cons.IH Turn show ?thesis by simp
  next
    case (Patrol time)
    with Cons.prems obtain stats leaks T ys where
      "patrolThreadUpdateAllocationStates env time (table p) = Inr ((stats, leaks), T)"
      "leaking_app_main env g c es (p\<lparr>table := T\<rparr>) = Inr (ys, q)" "xs = Patrolled (to_uint32 time) leaks # ys"
      unfolding Patrol app_patrol_Inr by blast
    with assms(4) Cons.IH Patrol show ?thesis by simp
  qed
qed

lemma app_append_Inr:
  "leaking_app_main env g c (es @ fs) p = Inr (zs, q) \<Longrightarrow> \<exists>xs p1 ys. leaking_app_main env g c es p = Inr (xs, p1)
     \<and> leaking_app_main env g c fs p1 = Inr (ys, q) \<and> zs = xs @ ys"
proof (induction es arbitrary: p zs)
  case (Cons e es)
  show ?case
  proof (cases e)
    case (Turn w)
    with Cons.prems obtain m p1 ys where "leaking_app_turn g w c p = Inr (m, p1)"
      "leaking_app_main env g c (es @ fs) p1 = Inr (ys, q)" "zs = Allocated m # ys"
      unfolding Turn append_Cons app_turn_Inr by blast
    with Cons.IH [OF this(2)] show ?thesis unfolding Turn app_turn_Inr by auto
  next
    case (Patrol time)
    with Cons.prems obtain stats leaks T ys where
      "patrolThreadUpdateAllocationStates env time (table p) = Inr ((stats, leaks), T)"
      "leaking_app_main env g c (es @ fs) (p\<lparr>table := T\<rparr>) = Inr (ys, q)" "zs = Patrolled (to_uint32 time) leaks # ys"
      unfolding Patrol append_Cons app_patrol_Inr by blast
    with Cons.IH [OF this(2)] show ?thesis unfolding Patrol app_patrol_Inr by auto
  qed
qed simp

section \<open>Its runs\<close>

text \<open>The library is watching, the allocation functions keep their contract, and all turns have the same stack.\<close>

fun event_ok :: "Environment \<Rightarrow> StackTrace \<Rightarrow> AppEvent \<Rightarrow> bool" where
  "event_ok env st (Turn w) = (environment w = env \<and> memalign_ok w \<and> watchState w = Watching \<and> current_trace w = st)"
| "event_ok env st (Patrol time) = True"

fun turn_patrols :: "AppEvent \<Rightarrow> uint32 list" where
  "turn_patrols (Turn w) = []"
| "turn_patrols (Patrol time) = [to_uint32 time]"

definition app_patrols :: "AppEvent list \<Rightarrow> uint32 list" where
  "app_patrols es = concat (map turn_patrols es)"

lemma app_patrols_simps [simp]:
  "app_patrols [] = []" "app_patrols (e # es) = turn_patrols e @ app_patrols es"
  "app_patrols (es @ fs) = app_patrols es @ app_patrols fs"
  by (simp_all add: app_patrols_def)

lemma turn_allocates:
  assumes "leaking_app_turn g w c p = Inr (m, p')" and "event_ok env st (Turn w)" and "k \<le> 31"
    and "allocates 4 (real_malloc g 4)" and "\<not> thread_inLibrary p"
  shows "allocates_in env k (\<lambda>_. True) w 4 (makeCallstackFingerprint c 4) m p p' \<and> \<not> thread_inLibrary p'"
proof -
  have B: "\<not> bypass w p" using assms(2,5) by (simp add: bypass_def inLibrary_def)
  have call: "instrumentedAllocate w 4 NoAlignment (makeCallstackFingerprint c 4) (real_malloc g 4) Unnecessary p = Inr (m, p')"
    and m: "m \<noteq> nullptr"
    using assms(1)
    by (auto simp: leaking_app_turn_def callMeBack_def operator_new_def malloc_def wrapped_allocation_def
        andThen_Inr_iff split: if_splits)
  have "(2 :: nat) ^ k \<le> 2 ^ 31" using assms(3) by (rule power_increasing) simp
  then have "unat (4 :: uint32) + 2 ^ k \<le> 2 ^ 32" by simp
  moreover have "allocates (unat (4 :: uint32)) (real_malloc g 4)" using assms(4) by simp
  moreover have "\<not> thread_inLibrary p'"
    using call B assms(5) by (auto simp: instrumentedAllocate_def run_locked_def andThen_Inr_iff)
  ultimately show ?thesis
    using assms(2) B call m unfolding allocates_in_def by (auto simp del: unat_numeral)
qed

lemma app_run:
  assumes "leaking_app_main env g c es p = Inr (xs, q)" and "list_all (event_ok env st) es" and "k \<le> 31"
    and "allocates 4 (real_malloc g 4)" and "\<not> thread_inLibrary p"
  shows "run env k (\<lambda>_. True) p xs q \<and> length xs = length es \<and> patrol_times xs = app_patrols es
    \<and> (\<forall>m. list_all (\<lambda>x. \<not> touches m x) xs) \<and> \<not> thread_inLibrary q"
  using assms(1,2,5)
proof (induction es p xs rule: app_main_induct)
  case Nil
  then show ?case by (simp add: run_nil)
next
  case (Turn w es p m p1 xs)
  have a: "allocates_in env k (\<lambda>_. True) w 4 (makeCallstackFingerprint c 4) m p p1" "\<not> thread_inLibrary p1"
    using turn_allocates [OF Turn.hyps(1) _ assms(3,4) Turn.prems(2), of env st] Turn.prems(1) by auto
  from Turn.IH [OF _ a(2)] Turn.prems(1) run_cons [OF allocates_in_act [OF a(1)]] show ?case by simp
next
  case (Patrol time es p stats leaks T xs)
  from Patrol.IH Patrol.prems run_cons [OF act_patrol [OF TrueI Patrol.hyps(1)]] show ?case by simp
qed

section \<open>Its leak is found\<close>

text \<open>Before any of its blocks is watched.\<close>

definition nothing_watched :: "AllocationTable \<Rightarrow> bool" where
  "nothing_watched T \<longleftrightarrow> closely T = [] \<and> (\<forall>r. deref_info T r = None)"

lemma patrol_nothing_watched:
  assumes "table_ok T" and "nothing_watched T"
    and "patrolThreadUpdateAllocationStates env time T = Inr ((stats, leaks), T')"
  shows "nothing_watched T' \<and> leaks = []"
  using patrol_result [OF assms(1), of env time] assms(2,3)
  by (auto simp: nothing_watched_def found_leaks_def kept_entries_def)

lemma light_nothing_watched:
  assumes "nothing_watched T"
  shows "nothing_watched (track_light w m n fp (count_allocation t T))"
  using assms by (simp add: nothing_watched_def track_light_def)

lemma nothing_watched_wanted:
  assumes "nothing_watched T" and "table_ok T" and "maxLiveCloselyWatchedAllocationsPerTrace env \<noteq> 0"
    and "globalMaxLiveCloselyWatchedAllocations env \<noteq> 0" and "enoughSamplesToProveNoLeak env \<noteq> 0"
  shows "wanted env r T"
proof -
  have "countLiveCloselyWatchedAllocationsAllTraces T = 0"
    using assms(1,2) by (simp add: nothing_watched_def table_ok_def census_ok_def num_entries_def unat_eq_0)
  with assms show ?thesis
    by (simp add: wanted_def nothing_watched_def needsMoreCloselyWatchedAllocations_def hasLeaks_def
        countFinishedWatchedAllocations_def WatchedStackTraceInfo_construct_def not_le)
qed

definition waiting :: "uint32 \<Rightarrow> CallstackFingerprint \<Rightarrow> AllocationTable \<Rightarrow> bool" where
  "waiting due fp T \<longleftrightarrow> nothing_watched T \<and> um_find (suspicious T) fp = None
     \<and> (\<forall>m a. um_find (light T) m = Some a \<longrightarrow> due \<le> deadline a)"

definition light_due :: "Environment \<Rightarrow> Surroundings \<Rightarrow> uint32" where
  "light_due env w = to_uint32 (time_now w + to_uint64 (timeForAllocationToBecomeSuspicious env))"

fun early :: "Environment \<Rightarrow> uint32 \<Rightarrow> AppEvent \<Rightarrow> bool" where
  "early env due (Turn w) = (due \<le> light_due env w)"
| "early env due (Patrol time) = (to_uint32 time \<le> due)"

lemma turn_waiting:
  assumes "allocates_in env k clock w n fp m p p'" and "waiting due fp (table p)" and "due \<le> light_due env w"
  shows "waiting due fp (table p')"
proof -
  have T: "table p' = track_light w m n fp (count_allocation (clock_now w) (table p))"
    using assms(1,2) by (intro allocates_in_track_light) (simp_all add: waiting_def)
  have "environment w = env" using assms(1) by (simp add: allocates_in_def)
  with assms(2,3) light_nothing_watched [of "table p"] show ?thesis
    by (auto simp: T waiting_def light_due_def track_light_def um_simps)
qed

lemma patrol_waiting:
  assumes "table_ok T" and "waiting due fp T" and "to_uint32 time \<le> due"
    and "patrolThreadUpdateAllocationStates env time T = Inr ((stats, leaks), T')"
  shows "waiting due fp T' \<and> leaks = []"
proof -
  have light: "um_ok (light T)" using assms(1) by (simp add: table_ok_defs)
  have old: "\<not> expired (to_uint32 time) a" if "um_find (light T) m = Some a" for m a
    using assms(2,3) that by (force simp: waiting_def expired_def not_less)
  then have none: "filter (\<lambda>(m, a). expired (to_uint32 time) a) (light T) = []"
    using um_find_elems [OF light] by (auto simp: filter_empty_conv)
  have "light T' = filter (\<lambda>(k, a). \<not> expired (to_uint32 time) a) (light T)"
    using patrol_result [OF assms(1), of env time] assms(4) by auto
  then have "um_find (light T') m = Some a \<Longrightarrow> due \<le> deadline a" for m a
    using assms(2) by (auto simp: waiting_def um_find_filter [OF light] split: option.splits if_splits)
  with patrol_nothing_watched [OF assms(1) _ assms(4)] patrol_infos(2) [OF assms(4), of fp] none assms(2)
  show ?thesis by (simp add: waiting_def del: not_None_eq)
qed

lemma app_waiting:
  assumes "leaking_app_main env g c es p = Inr (xs, q)" and "list_all (event_ok env st) es" and "k \<le> 31"
    and "allocates 4 (real_malloc g 4)" and "\<not> thread_inLibrary p"
    and "in_history env k (\<lambda>_. True) (length es) p" and "waiting due (makeCallstackFingerprint c 4) (table p)"
    and "list_all (early env due) es"
  shows "waiting due (makeCallstackFingerprint c 4) (table q) \<and> reports m xs = []"
  using assms(1,2,5-8)
proof (induction es p xs rule: app_main_induct)
  case (Turn w es p b p1 xs)
  have a: "allocates_in env k (\<lambda>_. True) w 4 (makeCallstackFingerprint c 4) b p p1" "\<not> thread_inLibrary p1"
    using turn_allocates [OF Turn.hyps(1) _ assms(3,4) Turn.prems(2), of env st] Turn.prems(1) by auto
  have "in_history env k (\<lambda>_. True) (length es) p1"
    by (rule in_history_act [OF _ allocates_in_act [OF a(1)]]) (use Turn.prems(3) in simp)
  from Turn.IH [OF _ a(2) this turn_waiting [OF a(1) Turn.prems(4)]] Turn.prems(1,5) show ?case by simp
next
  case (Patrol time es p stats leaks T xs)
  have "table_ok (table p)" using in_history_ok [OF Patrol.prems(3)] by (simp add: sys_ok_def)
  from patrol_waiting [OF this Patrol.prems(4) _ Patrol.hyps(1)] Patrol.prems(5)
  have "waiting due (makeCallstackFingerprint c 4) T" "leaks = []" by simp_all
  moreover have "in_history env k (\<lambda>_. True) (length es) (p\<lparr>table := T\<rparr>)"
    by (rule in_history_act [OF _ act_patrol [OF TrueI Patrol.hyps(1)]]) (use Patrol.prems(3) in simp)
  ultimately show ?case using Patrol.IH Patrol.prems(1,2,5) by simp
qed simp

lemma app_only_patrols:
  assumes "leaking_app_main env g c (map Patrol ts) p = Inr (xs, q)"
    and "in_history env k (\<lambda>_. True) (length ts) p" and "nothing_watched (table p)"
  shows "nothing_watched (table q) \<and> reports m xs = []"
  using assms
proof (induction ts arbitrary: p xs)
  case (Cons time ts)
  from Cons.prems(1) obtain stats leaks T ys where
    t: "patrolThreadUpdateAllocationStates env time (table p) = Inr ((stats, leaks), T)"
    "leaking_app_main env g c (map Patrol ts) (p\<lparr>table := T\<rparr>) = Inr (ys, q)" "xs = Patrolled (to_uint32 time) leaks # ys"
    unfolding list.map app_patrol_Inr by blast
  have "table_ok (table p)" using in_history_ok [OF Cons.prems(2)] by (simp add: sys_ok_def)
  from patrol_nothing_watched [OF this Cons.prems(3) t(1)] have "nothing_watched T" "leaks = []" by simp_all
  moreover have "in_history env k (\<lambda>_. True) (length ts) (p\<lparr>table := T\<rparr>)"
    by (rule in_history_act [OF _ act_patrol [OF TrueI t(1)]]) (use Cons.prems(2) in simp)
  ultimately show ?case using Cons.IH [OF t(2)] by (simp add: t(3))
qed simp

lemma in_history_empty:
  "table p = emptyTable \<Longrightarrow> page_env env k \<Longrightarrow> n < 2 ^ 32 \<Longrightarrow> in_history env k clock n p"
  unfolding in_history_def by (auto intro!: exI [of _ 0] history_start)

text \<open>The part of the run before the turn whose block is watched.\<close>

lemma app_first_part:
  assumes "leaking_app_main env g c (Turn w1 # es1 @ Patrol t # map Patrol ts) p = Inr (xs, q)"
    and "list_all (event_ok env st) (Turn w1 # es1)" and "k \<le> 31" and "allocates 4 (real_malloc g 4)"
    and "\<not> thread_inLibrary p" and "table p = emptyTable"
    and "in_history env k (\<lambda>_. True) (Suc (length es1 + Suc (length ts))) p"
    and "list_all (early env (light_due env w1)) es1" and "light_due env w1 < to_uint32 t"
  shows "nothing_watched (table q) \<and> um_find (suspicious (table q)) (makeCallstackFingerprint c 4) \<noteq> None
    \<and> reports m xs = []"
proof -
  let ?H = "in_history env k (\<lambda>_. True)" and ?fp = "makeCallstackFingerprint c 4"
  let ?due = "light_due env w1"
  have ok: "event_ok env st (Turn w1)" "list_all (event_ok env st) es1"
    using assms(2) by simp_all
  obtain m1 p1 xs1 where t1: "leaking_app_turn g w1 c p = Inr (m1, p1)" "xs = Allocated m1 # xs1"
    "leaking_app_main env g c (es1 @ Patrol t # map Patrol ts) p1 = Inr (xs1, q)"
    using assms(1) unfolding app_turn_Inr by blast
  from turn_allocates [OF t1(1) ok(1) assms(3-5)]
  have a1: "allocates_in env k (\<lambda>_. True) w1 4 ?fp m1 p p1" "\<not> thread_inLibrary p1" by simp_all
  have start: "waiting ?due ?fp (table p)"
    using assms(6) by (simp add: waiting_def nothing_watched_def emptyTable_def um_simps deref_info_def)
  then have W1: "waiting ?due ?fp (table p1)" by (rule turn_waiting [OF a1(1)]) simp
  note H1 = in_history_act [OF assms(7) allocates_in_act [OF a1(1)]]
  obtain ys p2 xs2 where t2: "leaking_app_main env g c es1 p1 = Inr (ys, p2)" "xs1 = ys @ xs2"
    "leaking_app_main env g c (Patrol t # map Patrol ts) p2 = Inr (xs2, q)"
    using app_append_Inr [OF t1(3)] by blast
  note r2 = app_run [OF t2(1) ok(2) assms(3,4) a1(2)]
  have W2: "waiting ?due ?fp (table p2)" "reports m ys = []"
    using app_waiting [OF t2(1) ok(2) assms(3,4) a1(2) in_history_less [OF H1] W1 assms(8)] by simp_all
  have H2: "?H (length (t # ts)) p2"
    by (rule in_history_run [of env k _ p1 ys p2]) (use r2 H1 in simp_all)
  have "nothing_watched (table q) \<and> reports m xs2 = []"
    using app_only_patrols [of env g c "t # ts" p2 xs2 q k m] t2(3) H2 W2(1) by (simp add: waiting_def)
  moreover have "um_find (suspicious (table q)) ?fp \<noteq> None"
  proof -
    from allocates_in_light [OF a1(1)] start obtain a where a: "um_find (light (table p1)) m1 = Some a"
      "fingerprint a = ?fp" "deadline a = ?due" by (auto simp: waiting_def light_due_def)
    have "list_all (event_ok env st) (es1 @ Patrol t # map Patrol ts)" using ok(2) by (auto simp: list_all_iff)
    note r = app_run [OF t1(3) this assms(3,4) a1(2)]
    have "um_find (suspicious (table q)) (fingerprint a) \<noteq> None"
      by (rule untouched_light [of env k "\<lambda>_. True" p1 xs1 q m1]) (use r a H1 assms(9) in \<open>simp_all del: not_None_eq\<close>)
    then show ?thesis unfolding a(2) .
  qed
  ultimately show ?thesis using W2(2) by (simp add: t1(2) t2(2) reports_append)
qed

text \<open>
  C7. The example program's leak is found: after its first turn, when nothing is watched yet, any turns and patrols go by;
  a patrol comes after the first block's deadline (all patrols before it came no later than that, and the
  later turns have no earlier deadlines), possibly followed by more patrols; then the program makes another
  turn and goes on. As soon as two patrols are due for that turn's block, exactly one leak has been reported for it,
  with the program's stack trace and the size of an int.
\<close>

theorem leaking_app_found:
  assumes "leaking_app_main env g c (Turn w1 # es1 @ Patrol t # map Patrol ts @ Turn w2 # es2) p = Inr (xs, q)"
    and "page_env env k" and "table p = emptyTable" and "\<not> thread_inLibrary p"
    and "allocates 4 (real_malloc g 4)" and "list_all (event_ok env st) (Turn w1 # es1 @ Turn w2 # es2)"
    and "length es1 + length ts + length es2 + 3 < 2 ^ 32"
    and "maxLiveCloselyWatchedAllocationsPerTrace env \<noteq> 0" and "globalMaxLiveCloselyWatchedAllocations env \<noteq> 0"
    and "enoughSamplesToProveNoLeak env \<noteq> 0"
    and "list_all (early env (light_due env w1)) es1" and "light_due env w1 < to_uint32 t"
    and "declared (to_uint32 (time_now w2) + timeForAllocationToBecomeSuspicious env)
      (closelyWatchedAllocationsAccessMaxInterval env) (app_patrols es2)"
  shows "\<exists>m. reports m xs = [\<lparr>leak_stackTrace = st, leak_memory = m, leak_size = 4\<rparr>]
    \<and> blocks (proc_heap q) m \<noteq> None"
proof -
  let ?H = "in_history env k (\<lambda>_. True)" and ?fp = "makeCallstackFingerprint c 4"
  let ?first = "Turn w1 # es1 @ Patrol t # map Patrol ts"
  have k: "k \<le> 31" using assms(2) by (simp add: page_env_def)
  have ok: "list_all (event_ok env st) (Turn w1 # es1)" "event_ok env st (Turn w2)" "list_all (event_ok env st) es2"
    "list_all (event_ok env st) ?first"
    using assms(6) by (auto simp: list_all_iff)
  have H: "?H (length ?first + Suc (length es2)) p"
    using assms(2,3,7) by (intro in_history_empty) simp_all
  have "leaking_app_main env g c (?first @ Turn w2 # es2) p = Inr (xs, q)" using assms(1) by simp
  from app_append_Inr [OF this] obtain ys p1 xs1 where t1: "leaking_app_main env g c ?first p = Inr (ys, p1)"
    "leaking_app_main env g c (Turn w2 # es2) p1 = Inr (xs1, q)" "xs = ys @ xs1" by blast
  note r1 = app_run [OF t1(1) ok(4) k assms(5,4)]
  have F: "nothing_watched (table p1)" "um_find (suspicious (table p1)) ?fp \<noteq> None" "reports m ys = []" for m
    using app_first_part [OF t1(1) ok(1) k assms(5,4,3) in_history_less [OF H] assms(11,12)] by simp_all
  have H1: "?H (Suc (length es2)) p1"
    by (rule in_history_run [of env k _ p ys p1]) (use r1 H in simp_all)
  obtain m p2 zs where t2: "leaking_app_turn g w2 c p1 = Inr (m, p2)"
    "leaking_app_main env g c es2 p2 = Inr (zs, q)" "xs1 = Allocated m # zs"
    using t1(2) unfolding app_turn_Inr by blast
  have a2: "allocates_in env k (\<lambda>_. True) w2 4 ?fp m p1 p2" "\<not> thread_inLibrary p2"
    using turn_allocates [OF t2(1) ok(2) k assms(5)] r1 by simp_all
  note r2 = app_run [OF t2(2) ok(3) k assms(5) a2(2)]
  have "table_ok (table p1)" using in_history_ok [OF H1] by (simp add: sys_ok_def)
  from nothing_watched_wanted [OF F(1) this assms(8-10)] have "wanted env (?fp, current_trace w2) (table p1)" .
  note e = allocates_in_watched [OF a2(1) F(2) this]
  note H2 = in_history_act [OF H1 allocates_in_act [OF a2(1)]]
  have "reports m zs = [found_leak \<lparr>alloc_memory = m, requestedSize = 4,
      deadline = to_uint32 (time_now w2) + timeForAllocationToBecomeSuspicious env,
      watched_state = NotYetSuspicious, allocationTime = to_uint32 (time_now w2),
      watchedStackTraceInfo = (?fp, current_trace w2)\<rparr>] \<and> blocks (proc_heap q) m \<noteq> None"
    using untouched_watched [of env k "\<lambda>_. True" p2 zs q m, OF _ _ _ e] r2 H2 assms(13) by simp
  moreover have "current_trace w2 = st" using ok(2) by simp
  ultimately show ?thesis
    by (intro exI [of _ m]) (simp add: t1(3) t2(3) reports_append F(3) found_leak_def)
qed

definition sample_site :: CallSite where
  "sample_site = \<lparr>stackTop = 0, returnAddress = 3145731\<rparr>"

definition sample_events :: "AppEvent list" where
  "sample_events = Turn sample_surroundings # Patrol 1031 # Turn (sample_surroundings\<lparr>time_now := 1100\<rparr>)
     # [Patrol 1131, Patrol 1133]"

lemma sample_site_fingerprint: "makeCallstackFingerprint sample_site 4 = 7"
  by (simp add: makeCallstackFingerprint_def computeCallstackFingerprint_def sample_site_def pointerToInt_def sizeClass_def)

lemma sample_app_returns:
  "\<exists>xs q. leaking_app_main sample_env sample_glibc sample_site sample_events empty_process = Inr (xs, q)"
  by (simp add: sample_events_def leaking_app_turn_def callMeBack_def operator_new_def malloc_def wrapped_allocation_def
      sample_site_fingerprint sample_glibc_def
      instrumentedAllocate_def allocate_locked_def run_locked_def Let_def alloc_at_def
      getSuspiciousStackTracesTable_def um_simps track_light_def light_entry_def um_set_def
      empty_process_def sample_env_def bypass_def inLibrary_def
      patrolThreadUpdateAllocationStates_def addSuspiciousFingerprint_def um_emplace_def um_find_def
      emptyTable_def deref_info_def needsMoreCloselyWatchedAllocations_def hasLeaks_def
      countFinishedWatchedAllocations_def WatchedStackTraceInfo_construct_def allocate_closely_def track_closely_def
      update_info_def um_modify_def getOrCreate_def count_watched_def declare_leak_def)

theorem leaking_app_found_witness:
  "\<exists>xs q m. leaking_app_main sample_env sample_glibc sample_site sample_events empty_process = Inr (xs, q)
    \<and> reports m xs = [\<lparr>leak_stackTrace = sample_trace, leak_memory = m, leak_size = 4\<rparr>]"
proof -
  obtain xs q where r: "leaking_app_main sample_env sample_glibc sample_site sample_events empty_process = Inr (xs, q)"
    using sample_app_returns by blast
  have r': "leaking_app_main sample_env sample_glibc sample_site
      (Turn sample_surroundings # [] @ Patrol 1031 # map Patrol [] @ Turn (sample_surroundings\<lparr>time_now := 1100\<rparr>)
        # [Patrol 1131, Patrol 1133]) empty_process = Inr (xs, q)"
    using r by (simp only: sample_events_def append_Nil list.map)
  have "\<exists>m. reports m xs = [\<lparr>leak_stackTrace = sample_trace, leak_memory = m, leak_size = 4\<rparr>]
      \<and> blocks (proc_heap q) m \<noteq> None"
    by (rule leaking_app_found [OF r' page_sample_env, where st = sample_trace])
      (use sample_memalign allocates_alloc_at [of 4 131072] in
        \<open>simp_all add: empty_process_def sample_glibc_def sample_env_def light_due_def memalign_ok_def\<close>)
  with r show ?thesis by blast
qed

end
