(* ===== verification/Stack_Trace_Test.thy ===== *)
theory Stack_Trace_Test
  imports Leaking_App Leak_Report
begin

text \<open>
  \<^verbatim>\<open>test-stack-traces/test-stack-traces.cpp\<close>: a program that sorts seven numbers, counts the calls
  of the comparison by the stack trace they come from, and prints the counts. The traces captured
  in the calls are an argument. The counters do not get near the range of int.
\<close>

definition count_stack :: "StackTrace \<Rightarrow> (StackTrace, nat) unordered_map \<Rightarrow> (StackTrace, nat) unordered_map" where
  "count_stack t m = um_modify t Suc (case um_find m t of None \<Rightarrow> um_emplace t 0 m | Some _ \<Rightarrow> m)"

definition compare_ints :: "int \<Rightarrow> int \<Rightarrow> bool" where
  "compare_ints a b = (a - b \<noteq> 0)"

fun print_counts ::
  "(ptr \<Rightarrow> Dl_info option) \<Rightarrow> Environment \<Rightarrow> (StackTrace \<times> nat) list \<Rightarrow> OStream \<Rightarrow> OStream outcome" where
  "print_counts dladdr env [] os = Inr os"
| "print_counts dladdr env ((t, n) # rest) os =
     andThen (print_StackTrace dladdr env t (put '' calls at:\<newline>'' (put_int n os))) (\<lambda>os1.
       print_counts dladdr env rest (put ''\<newline>'' os1))"

definition print_stacks ::
  "(ptr \<Rightarrow> Dl_info option) \<Rightarrow> Environment \<Rightarrow> (StackTrace, nat) unordered_map \<Rightarrow> OStream \<Rightarrow> OStream outcome" where
  "print_stacks dladdr env m os =
     print_counts dladdr env m (put '' stacks.\<newline>'' (put_int (length m) (put ''Found '' os)))"

definition test_stack_traces_main ::
  "(ptr \<Rightarrow> Dl_info option) \<Rightarrow> Environment \<Rightarrow> StackTrace list \<Rightarrow> OStream \<Rightarrow> (int \<times> OStream) outcome" where
  "test_stack_traces_main dladdr env calls os =
     andThen (std_sort compare_ints [1, 2, 3, 4, 5, 6, 7]) (\<lambda>_.
     andThen (print_stacks dladdr env (fold (\<lambda>t. callMeBack (count_stack t)) calls []) os) (\<lambda>os'.
       Inr (0, os')))"

text \<open>The counting is right: each trace is in the map exactly when it was seen, with its number of calls.\<close>

lemma count_stack_find:
  "um_find (count_stack t m) = (um_find m)(t \<mapsto> (case um_find m t of None \<Rightarrow> 1 | Some n \<Rightarrow> Suc n))"
  by (rule ext) (simp add: count_stack_def um_simps split: option.split)

lemma count_stacks_from:
  "um_find (fold (\<lambda>t. callMeBack (count_stack t)) calls m) u =
     (case um_find m u of None \<Rightarrow> if u \<in> set calls then Some (count_list calls u) else None
      | Some n \<Rightarrow> Some (n + count_list calls u))"
  by (induction calls arbitrary: m)
    (auto simp: callMeBack_def count_stack_find count_list_0_iff split: option.split)

text \<open>
  Whatever stack traces the comparisons run in, the map printed has one element for each, with the number
  of calls from it.
\<close>

theorem stacks_counted:
  "um_find (fold (\<lambda>t. callMeBack (count_stack t)) calls []) u =
     (if u \<in> set calls then Some (count_list calls u) else None)"
  by (simp add: count_stacks_from um_simps)

text \<open>
  The comparison asks whether the numbers differ, not which is smaller (the difference is converted to
  bool), so each of two different numbers comes before the other, which the library's sort does not
  allow: the program's behaviour is undefined before it prints anything.
\<close>

theorem test_stack_traces_undefined:
  "test_stack_traces_main dladdr env calls os = Inl UndefinedCall"
proof -
  have "compare_ints 1 2" "compare_ints 2 1" "\<not> compare_ints 1 1" by (simp_all add: compare_ints_def)
  then have "\<not> strict_weak_on compare_ints [1, 2, 3, 4, 5, 6, 7]"
    unfolding strict_weak_on_def by (metis list.set_intros)
  then show ?thesis by (simp add: test_stack_traces_main_def std_sort_def)
qed

end
