(* ===== verification/Leak_Origin.thy ===== *)
theory Leak_Origin
  imports Leak_Pipeline
begin

text \<open>
  Where a reported leak comes from: every watched entry of the table goes back to one watched allocation in the
  history, whose block is followed through the reallocations that moved it. So a report can be traced to
  the call that allocated the memory, and is never made before its time.
\<close>

section \<open>Following a block\<close>

text \<open>Where the memory a pointer refers to is after a sequence of actions, None once it is freed.\<close>

fun follow :: "ptr \<Rightarrow> Action list \<Rightarrow> ptr option" where
  "follow m [] = Some m"
| "follow m (Freed q # xs) = (if q = m then None else follow m xs)"
| "follow m (Reallocated q r # xs) = follow (if q = m then r else m) xs"
| "follow m (_ # xs) = follow m xs"


lemma follow_untouched: "\<not> touches m x \<Longrightarrow> follow m [x] = Some m"
  by (cases x) auto



text \<open>What an entry keeps while its block is moved.\<close>

definition same_origin :: "CloselyWatchedAllocation \<Rightarrow> CloselyWatchedAllocation \<Rightarrow> bool" where
  "same_origin a a' \<longleftrightarrow> allocationTime a' = allocationTime a \<and> watchedStackTraceInfo a' = watchedStackTraceInfo a"

lemma same_origin_simps [simp]:
  "same_origin a a" "same_origin a (a\<lparr>requestedSize := n\<rparr>)"
  "same_origin a (a\<lparr>requestedSize := n, alloc_memory := m\<rparr>)" "same_origin a (patrolled env now a)"
  by (simp_all add: same_origin_def patrolled_def)

section \<open>An entry after a step was an entry before it, or is new\<close>







section \<open>The origin of a report\<close>






end
