(* ===== verification/Spec2Isabelle.thy ===== *)
theory Spec2Isabelle
  imports Transparency Patrol_Log Memory_Map_Tests Protector_Threads Mallinfo_Log Log_Ranking Example_Programs
    Mmap_Threads Monitored_Run Order_Independence Stack_Trace_Test Leak_Origin
begin

text \<open>
  A verification development for alloc-counter, a set of libraries that are preloaded into a
  program to find out where its memory goes.

  The program's parts. \<^verbatim>\<open>alloc-counter\<close> replaces malloc and its relatives and keeps, for
  every block allocated since the user gave the start signal, a record in one table; a patrol thread
  visits the table every five seconds, marks the callers whose blocks outlive a deadline, watches the
  later allocations of these callers closely (with their stack traces) and declares the ones that
  outlive a second deadline leaked; from time to time it writes a report of the leaks with
  estimates. \<^verbatim>\<open>mmap-counter\<close> replaces mmap and munmap, keeps a map of the anonymous mappings
  with the stack traces they come from, and writes an event log. \<^verbatim>\<open>mallinfo-log\<close> samples the
  process's memory use. They share the code in \<^verbatim>\<open>common\<close>. The script
  \<^verbatim>\<open>parse-mmap-log.py\<close> reads the event log of \<^verbatim>\<open>mmap-counter\<close>, rebuilds the map of
  the mappings from it and prints the memory mapped over time and a ranking of the stack traces.

  The theories, and what in the sources each models.

  \<^item> Prelude: machine types, outcomes (a fault or a value) with their sequencing, characters and
    decimal numbers of the C library, lemmas on words.
  \<^item> Environment (common/environment): the configuration, read from the process
    environment, and page rounding. Lemmas: the value read, the rounding with its wrap-around.
  \<^item> Library_Context (common/library-context): the thread-local flag that keeps the libraries from
    observing themselves.
  \<^item> Stack_Trace (common/stack-trace): unwinding (a partial function: it may not end), hashing,
    equality, printing. Lemmas: the frames captured, the text printed, divergence on errors.
  \<^item> Callstack_Fingerprint (alloc-counter/callstack-fingerprint), Allocation_Stats
    (allocation-stats), Comm_Memory (comm-memory, alloc-counter-start): as the files.
  \<^item> Unordered_Map: the library's hash map, behind the interface \<open>hash_table\<close>, interpreted
    on association lists. Cpp_Float: the float and double arithmetic the estimates use.
    C_Heap: blocks and bytes, and what is promised of the C allocation functions.
  \<^item> Watched_Stack_Trace_Info (watched-stack-trace-info): the counters of one stack trace, the
    verdict whether it leaks, the extrapolation to unwatched allocations.
  \<^item> Allocation_Table (allocation-table): the table and its operations instrumentedAllocate,
    instrumentedReallocate, instrumentedFree, patrolThreadUpdateAllocationStates, each one
    state transformer, as each holds the table's mutex.
  \<^item> Table_Invariant, Table_Safety, Table_Steps, Table_Histories: the invariant that ties the table
    to the heap and the counters to the entries, that each operation keeps it and never faults,
    the operations as the steps of a history. Sample_Processes holds processes for witnesses.
  \<^item> Leak_Detection: what a patrol does to the states and counters, that a leak is found in two
    patrols and not before the deadlines of its entry.
  \<^item> Leak_Life: the steps of a history with labels (what was allocated, freed, reallocated, reported) and the
    life of one block that nobody touches, an automaton over the times of the patrols which the table
    implements: it is reported exactly once, when the patrols are due. Leak_Pipeline: the way from a leaking
    call site to that report. Leak_Origin: the way back, from a report to the watched allocation its block
    goes back to, through the reallocations that moved it. Monitored_Run: the same with the monitor's loop as the patrols, up to the
    lines of the progress log. Order_Independence: a simulation between tables with the same elements in
    another order, so the model's choice of an iteration order is not visible. Program_Calls: every call of
    a wrapper refines these steps, so that what is proved of runs holds of programs that call malloc and its
    relatives.
  \<^item> Leaking_App (leaking-app, dummy-lib): the program that forgets an int every second, run on the
    wrappers; its leak is found. Stack_Trace_Test (test-stack-traces): the counting program with its undefined sort.
  \<^item> Leak_Report: the report and the sort's undefined comparator. Wrapper_Malloc (wrapper-malloc):
    the ten wrappers. Patrol_Thread (patrol-thread): one round of the monitor. Patrol_Log: the text of
    its lines. Library_Init (init): loading, until tracking starts. Transparency: whole runs of calls of the
    wrappers against the same calls of the real functions, while the library does not track.
  \<^item> Memory_Map (mmap-counter/memory-map): slices by start address, behind the interface
    \<open>address_map\<close>, whose abstract state gives every address its owner. Memory_Map_Tests: the
    repository's unit tests of that map, run on the model.
  \<^item> Interned_Stack_Trace (mmap-counter/interned-stack-trace): the store of shared traces with its use
    counts. Wrapper_Mmap (mmap-counter/wrapper-mmap): the two wrappers, a call being one transition; their
    histories refine the kernel's set of anonymously mapped addresses, under the conditions named there (regions of
    less than 4 GiB, no failed anonymous mapping, nothing mapped over anonymous memory); outside them
    the account goes wrong, and theorems say how. Mmap_Threads: the same calls as the steps of interleaved threads
    with their mutex; the account with calls under way, and the race that loses a mapping.
  \<^item> Cpp_Print: how a C++ stream prints a double (six significant digits, scientific notation from a
    million on), with the error of reading it back.
  \<^item> Event_Log (parse-mmap-log.py, lines 8 to 65): the regular expressions and the line parser, on the
    very text the wrappers write; what they cannot read. Log_Analysis (lines 68 to 153): the
    script's memory map, shown to be the image of the C++ map, and the table of mapped memory.
    Log_Replay: wrappers and script together, the replayed account is the process's. Log_Ranking
    (lines 156 to 192): the ranking of the stack traces. Example_Programs (test-mmap): a whole run,
    from the two calls of a program to the report.
  \<^item> Memory_Protector (alloc-counter/memory-protector): ranges without access rights and the
    handler of segmentation faults, for operations that do not overlap. Protector_Threads: the same
    operations as the steps of interleaved threads, which no lock keeps apart.
  \<^item> Mallinfo_Log (mallinfo-log): reading the status file and the table written.

  How to read the model. Integers keep their width (32 and 64 bit words); addresses in the memory
  map are int with the conversions written out. A failed assertion, abort, exit, an access
  outside a block and an undefined library call are faults, values of the left summand of an
  outcome. System calls, the C library's allocation functions, libunwind and dladdr are parameters;
  what a theorem relies on of them is a named predicate (\<open>allocates\<close>, \<open>memalign_ok\<close>,
  \<open>dladdr_ok\<close>, \<open>small_region\<close> and others), and a witness instantiates it. Clocks are
  arguments. No fuel is used: loops over containers recurse over them, unwinding is a
  partial function whose result for a finite stack is proved, and the endless loops (the monitor, the memory
  log, the leaking program) recurse over the list of the turns made so far, which is arbitrary.

  Concurrency. An operation of the allocation table is one step, as each holds the table's mutex from
  its beginning to its end, with the call of the real function inside; a call that bypasses the table does
  not touch it and runs the real function alone. The wrappers of mmap take their
  mutex only for a part, and the memory protector takes none: their operations are modelled twice, as
  transitions and as steps that interleave by a schedule. A step is atomic, which is more than C++ promises
  where two threads touch the same object without a lock.

  Not modelled: data races within a step, iterator
  invalidation of hash maps, the files behind the
  streams, resolving functions with dlsym (except where calloc depends on it), the
  functions of the patrol thread that are declared and never defined, the vendored test
  framework, the plotting script and the tests of the Python script.
\<close>

end
